(* ===== verification/Prelude.thy ===== *)
theory Prelude
  imports Main "HOL-Library.Word" "HOL-Library.AList" "HOL-Library.Sublist"
begin

text \<open>
  Shared vocabulary of the development: Go's fixed-width integers as words, byte slices as
  lists, the slice operations the kernel uses (\<^verbatim>\<open>s[i:j]\<close>, \<^verbatim>\<open>copy(dst[n:], src)\<close>), the two byte
  orders of \<^verbatim>\<open>encoding/binary\<close>, \<^verbatim>\<open>bytes.Index\<close>, and the lemmas on them that the components use.
  The interface \<open>wire_codec\<close> states what a fixed-width field codec promises; it is interpreted
  here on the little-endian and big-endian codecs at every width the program uses.
\<close>

unbundle bit_operations_syntax

type_synonym u8 = "8 word"
type_synonym u16 = "16 word"
type_synonym u32 = "32 word"
type_synonym u64 = "64 word"
type_synonym bytes = "u8 list"

named_theorems codec_simps \<open>lengths and round trips of wire fields\<close>
named_theorems slice_simps \<open>reading back what a slice write stored\<close>

section \<open>Slices\<close>

text \<open>\<^verbatim>\<open>xs[i:j]\<close>, for \<open>i \<le> j \<le> length xs\<close>.\<close>

definition slice :: "'a list \<Rightarrow> nat \<Rightarrow> nat \<Rightarrow> 'a list" where
  "slice xs i j = take (j - i) (drop i xs)"

text \<open>\<^verbatim>\<open>copy(dst[n:], src)\<close>: copies as much of the source as fits.\<close>

definition copy_at :: "'a list \<Rightarrow> nat \<Rightarrow> 'a list \<Rightarrow> 'a list" where
  "copy_at dst n src = take n dst @ take (length dst - n) src @ drop (n + length src) dst"

lemma length_slice [simp, slice_simps]: "length (slice xs i j) = min (j - i) (length xs - i)"
  by (simp add: slice_def min.commute)

lemma slice_all [simp]: "slice xs 0 (length xs) = xs"
  by (simp add: slice_def)

lemma slice_append_left: "j \<le> length xs \<Longrightarrow> slice (xs @ ys) i j = slice xs i j"
  by (simp add: slice_def)

lemma slice_append_right:
  "length xs \<le> i \<Longrightarrow> slice (xs @ ys) i j = slice ys (i - length xs) (j - length xs)"
  by (simp add: slice_def)

lemma slice_slice: "i \<le> j \<Longrightarrow> j \<le> k \<Longrightarrow> slice xs i j @ slice xs j k = slice xs i k"
proof -
  assume "i \<le> j" "j \<le> k"
  then have "k - i = (j - i) + (k - j)" and "drop j xs = drop (j - i) (drop i xs)" by simp_all
  then show ?thesis by (simp add: slice_def take_add del: drop_drop)
qed

lemma slice_empty [simp]: "slice xs i i = []"
  by (simp add: slice_def)

lemma nth_slice: "i + n < j \<Longrightarrow> j \<le> length xs \<Longrightarrow> slice xs i j ! n = xs ! (i + n)"
  by (simp add: slice_def)

lemma slice_of_slice:
  "i + b \<le> j \<Longrightarrow> slice (slice xs i j) a b = slice xs (i + a) (i + b)"
proof -
  assume "i + b \<le> j"
  then have "min (b - a) (j - i - a) = b - a" by (cases "a \<le> b") auto
  then show ?thesis by (simp add: slice_def drop_take add.commute)
qed

lemma length_copy_at [simp, slice_simps]: "length (copy_at dst n src) = length dst"
  by (auto simp: copy_at_def min_def)

lemma copy_at_fits:
  "n + length src \<le> length dst \<Longrightarrow> copy_at dst n src = take n dst @ src @ drop (n + length src) dst"
  by (simp add: copy_at_def)

lemma slice_copy_at_same [slice_simps]:
  assumes "n + length src \<le> length dst" and "m = n + length src"
  shows "slice (copy_at dst n src) n m = src"
  using assms by (simp add: copy_at_fits slice_def)

lemma slice_copy_at_before [slice_simps]:
  assumes "j \<le> n" "n \<le> length dst"
  shows "slice (copy_at dst n src) i j = slice dst i j"
proof -
  have "take j (copy_at dst n src) = take j dst"
    using assms by (simp add: copy_at_def min_def)
  then show ?thesis by (metis slice_def drop_take)
qed

lemma drop_copy_at_after:
  assumes "n + length src \<le> i" "n + length src \<le> length dst"
  shows "drop i (copy_at dst n src) = drop i dst"
  using assms by (simp add: copy_at_fits)

lemma slice_copy_at_after [slice_simps]:
  assumes "n + length src \<le> i" "n + length src \<le> length dst"
  shows "slice (copy_at dst n src) i j = slice dst i j"
  using drop_copy_at_after [OF assms] by (simp add: slice_def)

lemma nth_copy_at_same:
  assumes "n + length src \<le> length dst" "i < length src"
  shows "copy_at dst n src ! (n + i) = src ! i"
  using assms by (simp add: copy_at_fits nth_append)

lemma nth_copy_at_before:
  assumes "i < n" "n \<le> length dst"
  shows "copy_at dst n src ! i = dst ! i"
  using assms by (simp add: copy_at_def nth_append)

lemma nth_copy_at_after:
  assumes "n + length src \<le> i" "i < length dst"
  shows "copy_at dst n src ! i = dst ! i"
  using drop_copy_at_after [of n src i dst] assms
    hd_drop_conv_nth [of i dst] hd_drop_conv_nth [of i "copy_at dst n src"]
  by simp

section \<open>Words bit by bit\<close>

text \<open>Equality of words by their bits, with the indices spelled out so that the simplifier evaluates
  each bit of a literal.\<close>

lemma bits32: "[0..<32] = [0, 1, 2, 3, 4, 5, 6, 7, 8, 9, 10, 11, 12, 13, 14, 15, 16, 17, 18, 19, 20, 21, 22, 23,
    24, 25, 26, 27, 28, 29, 30, 31]"
  by code_simp

lemma word32_eqI: "list_all (\<lambda>i. bit v i = bit w i) [0..<32] \<Longrightarrow> v = (w :: u32)"
  by (rule bit_word_eqI) (simp add: list_all_iff)

lemma bits16: "[0..<16] = [0, 1, 2, 3, 4, 5, 6, 7, 8, 9, 10, 11, 12, 13, 14, 15]"
  by code_simp

lemma bits21: "[0..<21] = [0, 1, 2, 3, 4, 5, 6, 7, 8, 9, 10, 11, 12, 13, 14, 15, 16, 17, 18, 19, 20]"
  by code_simp

lemma word16_eqI: "list_all (\<lambda>i. bit v i = bit w i) [0..<16] \<Longrightarrow> v = (w :: u16)"
  by (rule bit_word_eqI) (simp add: list_all_iff)

lemma take_bit_21_eqI:
  "list_all (\<lambda>i. bit v i = bit w i) [0..<21] \<Longrightarrow> take_bit 21 v = take_bit 21 (w :: u64)"
  by (rule bit_word_eqI) (auto simp: list_all_iff bit_take_bit_iff)

lemma bit16: "16 \<le> i \<Longrightarrow> \<not> bit (imm :: u16) i"
  using bit_imp_le_length [of imm i] by auto

section \<open>Byte order\<close>

lemma unat_word_of_nat_small [simp]:
  "n < 2 ^ LENGTH('a) \<Longrightarrow> unat (word_of_nat n :: 'a::len word) = n"
  by (simp add: unat_of_nat)

lemma unat_ucast_mod: "unat (ucast w :: 'b::len word) = unat (w :: 'a::len word) mod 2 ^ LENGTH('b)"
  by (simp add: unsigned_ucast_eq take_bit_eq_mod)

text \<open>\<^verbatim>\<open>binary.LittleEndian.PutUint16/32/64\<close> and \<^verbatim>\<open>Uint16/32/64\<close>, by the number of bytes.\<close>

fun le_bytes :: "nat \<Rightarrow> 'a::len word \<Rightarrow> bytes" where
  "le_bytes 0 w = []"
| "le_bytes (Suc n) w = ucast w # le_bytes n (drop_bit 8 w)"

fun le_word :: "bytes \<Rightarrow> 'a::len word" where
  "le_word [] = 0"
| "le_word (b # bs) = ucast b OR push_bit 8 (le_word bs)"

text \<open>\<^verbatim>\<open>binary.BigEndian\<close>: the same bytes, most significant first.\<close>

definition be_bytes :: "nat \<Rightarrow> 'a::len word \<Rightarrow> bytes" where
  "be_bytes n w = rev (le_bytes n w)"

definition be_word :: "bytes \<Rightarrow> 'a::len word" where
  "be_word bs = le_word (rev bs)"

lemma length_le_bytes [simp, codec_simps]: "length (le_bytes n w) = n"
  by (induction n arbitrary: w) auto

lemma length_be_bytes [simp, codec_simps]: "length (be_bytes n w) = n"
  by (simp add: be_bytes_def)

lemma le_word_le_bytes: "le_word (le_bytes n w) = take_bit (8 * n) (w :: 'a::len word)"
proof (induction n arbitrary: w)
  case 0
  then show ?case by simp
next
  case (Suc n)
  show ?case
    by (rule bit_eqI) (auto simp: Suc bit_simps not_le)
qed

lemma le_bytes_le_word:
  "8 * length bs \<le> LENGTH('a) \<Longrightarrow> le_bytes (length bs) (le_word bs :: 'a::len word) = bs"
proof (induction bs)
  case Nil
  then show ?case by simp
next
  case (Cons b bs)
  have "ucast (ucast b OR push_bit 8 (le_word bs :: 'a word)) = b"
    using Cons.prems by (intro bit_eqI) (auto simp: bit_simps)
  moreover have "drop_bit 8 (ucast b OR push_bit 8 (le_word bs :: 'a word)) =
      take_bit (LENGTH('a) - 8) (le_word bs :: 'a word)"
    using Cons.prems by (intro bit_eqI) (auto simp: bit_simps dest: bit_imp_le_length)
  moreover have "le_bytes (length bs) (take_bit (LENGTH('a) - 8) (w :: 'a word)) = le_bytes (length bs) w" for w
  proof -
    have "le_bytes n (take_bit k w) = le_bytes n w" if "8 * n \<le> k" for n k and w :: "'a word"
      using that
    proof (induction n arbitrary: k w)
      case (Suc n)
      have "ucast (take_bit k w) = (ucast w :: u8)"
        using Suc.prems by (intro bit_eqI) (auto simp: bit_simps)
      then show ?case using Suc.IH [of "k - 8"] Suc.prems by (simp add: drop_bit_take_bit)
    qed simp
    then show ?thesis using Cons.prems by simp
  qed
  ultimately show ?case using Cons by simp
qed

text \<open>What a fixed-width field codec promises, and what follows for fields inside a buffer.\<close>

locale wire_codec =
  fixes enc :: "'w \<Rightarrow> bytes" and dec :: "bytes \<Rightarrow> 'w" and width :: nat
  assumes enc_length: "length (enc w) = width"
    and dec_enc: "dec (enc w) = w"
    and enc_dec: "length bs = width \<Longrightarrow> enc (dec bs) = bs"
begin

lemma enc_inject: "enc v = enc w \<longleftrightarrow> v = w"
  by (metis dec_enc)

lemma dec_inject:
  "length bs = width \<Longrightarrow> length cs = width \<Longrightarrow> dec bs = dec cs \<longleftrightarrow> bs = cs"
  by (metis enc_dec)

lemma dec_field: "dec (slice (xs @ enc w @ ys) (length xs) (length xs + width)) = w"
  by (simp add: slice_def enc_length dec_enc)

lemma dec_stored:
  "off + width \<le> length buf \<Longrightarrow> m = off + width \<Longrightarrow> dec (slice (copy_at buf off (enc w)) off m) = w"
  by (simp add: slice_copy_at_same enc_length dec_enc)

end

lemma le_codec: "8 * n = LENGTH('a) \<Longrightarrow>
    wire_codec (le_bytes n :: 'a::len word \<Rightarrow> bytes) le_word n"
  using le_bytes_le_word [where 'a = 'a]
  by unfold_locales (auto simp: le_word_le_bytes take_bit_word_eq_self)

lemma be_bytes_be_word:
  "8 * length bs \<le> LENGTH('a) \<Longrightarrow> be_bytes (length bs) (be_word bs :: 'a::len word) = bs"
  using le_bytes_le_word [of "rev bs", where 'a = 'a] by (simp add: be_bytes_def be_word_def)

lemma be_codec: "8 * n = LENGTH('a) \<Longrightarrow>
    wire_codec (be_bytes n :: 'a::len word \<Rightarrow> bytes) be_word n"
  using be_bytes_be_word [where 'a = 'a]
  by unfold_locales
    (auto simp: be_bytes_def be_word_def le_word_le_bytes take_bit_word_eq_self)

interpretation le16: wire_codec "le_bytes 2 :: u16 \<Rightarrow> bytes" le_word 2
  by (rule le_codec) simp

interpretation le32: wire_codec "le_bytes 4 :: u32 \<Rightarrow> bytes" le_word 4
  by (rule le_codec) simp

interpretation le64: wire_codec "le_bytes 8 :: u64 \<Rightarrow> bytes" le_word 8
  by (rule le_codec) simp

interpretation be16: wire_codec "be_bytes 2 :: u16 \<Rightarrow> bytes" be_word 2
  by (rule be_codec) simp

interpretation be32: wire_codec "be_bytes 4 :: u32 \<Rightarrow> bytes" be_word 4
  by (rule be_codec) simp

lemmas [simp] = le16.dec_enc le32.dec_enc le64.dec_enc be16.dec_enc be32.dec_enc

section \<open>Go maps\<close>

text \<open>
  A Go \<^verbatim>\<open>map[k]v\<close> as an association list without repeated keys. Its iteration order is
  unspecified in Go, so an operation that ranges over a map takes the order as an argument.
\<close>

type_synonym ('k, 'v) go_map = "('k \<times> 'v) list"

abbreviation go_lookup :: "('k, 'v) go_map \<Rightarrow> 'k \<Rightarrow> 'v option" where
  "go_lookup m k \<equiv> map_of m k"

abbreviation go_put :: "'k \<Rightarrow> 'v \<Rightarrow> ('k, 'v) go_map \<Rightarrow> ('k, 'v) go_map" where
  "go_put k v m \<equiv> AList.update k v m"

abbreviation go_delete :: "'k \<Rightarrow> ('k, 'v) go_map \<Rightarrow> ('k, 'v) go_map" where
  "go_delete k m \<equiv> AList.delete k m"

abbreviation go_map_ok :: "('k, 'v) go_map \<Rightarrow> bool" where
  "go_map_ok m \<equiv> distinct (map fst m)"

lemma go_map_all:
  "go_map_ok m \<Longrightarrow> (\<forall>(k, v) \<in> set m. P k v) \<longleftrightarrow> (\<forall>k v. go_lookup m k = Some v \<longrightarrow> P k v)"
  by (auto simp: map_of_eq_Some_iff)

text \<open>What the components rely on: the laws of lookup, store, delete and \<^verbatim>\<open>len\<close>.\<close>

locale map_contract =
  fixes lookup :: "'m \<Rightarrow> 'k \<Rightarrow> 'v option"
    and put :: "'k \<Rightarrow> 'v \<Rightarrow> 'm \<Rightarrow> 'm"
    and delete :: "'k \<Rightarrow> 'm \<Rightarrow> 'm"
    and count :: "'m \<Rightarrow> nat"
    and ok :: "'m \<Rightarrow> bool"
  assumes lookup_put: "lookup (put k v m) j = (if j = k then Some v else lookup m j)"
    and lookup_delete: "lookup (delete k m) j = (if j = k then None else lookup m j)"
    and ok_put: "ok m \<Longrightarrow> ok (put k v m)"
    and ok_delete: "ok m \<Longrightarrow> ok (delete k m)"
    and count_put: "ok m \<Longrightarrow>
      count (put k v m) = (if lookup m k = None then Suc (count m) else count m)"
    and count_delete: "ok m \<Longrightarrow> count (delete k m) \<le> count m"
begin

lemma all_put:
  assumes "\<And>j w. lookup m j = Some w \<Longrightarrow> P j w" and "P k v" and "lookup (put k v m) i = Some u"
  shows "P i u"
  using assms by (auto simp: lookup_put split: if_splits)

lemma all_delete:
  assumes "\<And>j w. lookup m j = Some w \<Longrightarrow> P j w" and "lookup (delete k m) i = Some u"
  shows "P i u"
  using assms by (auto simp: lookup_delete split: if_splits)

lemma count_overwrite: "ok m \<Longrightarrow> lookup m k = Some u \<Longrightarrow> count (put k v m) = count m"
  by (simp add: count_put)

lemma count_insert_bound: "ok m \<Longrightarrow> count m < n \<Longrightarrow> count (put k v m) \<le> n"
  by (simp add: count_put)

end

lemma length_update:
  "length (go_put k v m) = (if go_lookup m k = None then Suc (length m) else length m)"
  by (induction m) auto

lemma delete_update [simp]: "go_delete k (go_put k v m) = go_delete k m"
  by (induction m) (auto simp: AList.delete_eq)

interpretation gm: map_contract map_of AList.update AList.delete length go_map_ok
proof
  show "length (go_put k v m) = (if go_lookup m k = None then Suc (length m) else length m)"
    for k :: 'a and v :: 'b and m by (rule length_update)
qed (auto simp: AList.update_conv' AList.delete_conv' distinct_update distinct_delete length_delete_le)

section \<open>Searching\<close>

text \<open>\<^verbatim>\<open>bytes.Index\<close> / \<^verbatim>\<open>strings.Index\<close>: the offset of the first occurrence.\<close>

fun index_of :: "'a list \<Rightarrow> 'a list \<Rightarrow> nat option" where
  "index_of pat [] = (if pat = [] then Some 0 else None)"
| "index_of pat (x # xs) =
     (if prefix pat (x # xs) then Some 0 else map_option Suc (index_of pat xs))"

text \<open>\<^verbatim>\<open>bytes.Contains\<close>.\<close>

definition contains :: "'a list \<Rightarrow> 'a list \<Rightarrow> bool" where
  "contains xs pat \<longleftrightarrow> index_of pat xs \<noteq> None"

lemma index_of_None_iff: "index_of pat xs = None \<longleftrightarrow> \<not> sublist pat xs"
  by (induction xs) (auto simp: sublist_Cons_right)

lemma contains_iff_sublist: "contains xs pat \<longleftrightarrow> sublist pat xs"
  by (simp add: contains_def index_of_None_iff)

lemma index_of_Some:
  "index_of pat xs = Some i \<Longrightarrow> i + length pat \<le> length xs \<and> slice xs i (i + length pat) = pat"
proof (induction xs arbitrary: i)
  case Nil
  then show ?case by (simp split: if_splits)
next
  case (Cons x xs)
  show ?case
  proof (cases "prefix pat (x # xs)")
    case True
    then show ?thesis using Cons.prems prefix_length_le [OF True]
      by (auto simp: slice_def prefix_def)
  next
    case False
    then show ?thesis using Cons by (auto simp: slice_def)
  qed
qed

lemma contains_append: "contains xs pat \<Longrightarrow> contains (xs @ ys) pat"
  by (meson contains_iff_sublist sublist_appendI sublist_order.order_trans sublist_append_leftI sublist_append_rightI)

section \<open>Strings as bytes\<close>

text \<open>The bytes of an ASCII string literal of the source.\<close>

definition ascii :: "string \<Rightarrow> bytes" where
  "ascii s = map of_char s"

lemma length_ascii [simp]: "length (ascii s) = length s"
  by (simp add: ascii_def)

lemma ascii_append [simp]: "ascii (s @ t) = ascii s @ ascii t"
  by (simp add: ascii_def)

section \<open>Go failures\<close>

text \<open>
  What stops a Go computation: a returned error, or a run-time panic (an index or slice out of
  range). A result is a sum with the failure on the left.
\<close>

datatype 'e failure = Panic | Err 'e

type_synonym ('e, 'a) result = "'e failure + 'a"

fun and_then :: "('e, 'a) result \<Rightarrow> ('a \<Rightarrow> ('e, 'b) result) \<Rightarrow> ('e, 'b) result" where
  "and_then (Inl e) f = Inl e"
| "and_then (Inr x) f = f x"

lemma and_then_Inr_iff: "and_then r f = Inr y \<longleftrightarrow> (\<exists>x. r = Inr x \<and> f x = Inr y)"
  by (cases r) auto

lemma and_then_Inl_iff: "and_then r f = Inl e \<longleftrightarrow> r = Inl e \<or> (\<exists>x. r = Inr x \<and> f x = Inl e)"
  by (cases r) auto

lemma no_panicI:
  "r \<noteq> Inl Panic \<Longrightarrow> (\<And>x. r = Inr x \<Longrightarrow> f x \<noteq> Inl Panic) \<Longrightarrow> and_then r f \<noteq> Inl Panic"
  by (cases r) auto

lemma and_then_cong [fundef_cong]:
  "r = s \<Longrightarrow> (\<And>x. s = Inr x \<Longrightarrow> f x = g x) \<Longrightarrow> and_then r f = and_then s g"
  by (cases s) auto

text \<open>\<^verbatim>\<open>xs[i]\<close> and \<^verbatim>\<open>xs[i:j]\<close> with their bounds checks.\<close>

definition go_index :: "'a list \<Rightarrow> nat \<Rightarrow> ('e, 'a) result" where
  "go_index xs i = (if i < length xs then Inr (xs ! i) else Inl Panic)"

definition go_slice :: "'a list \<Rightarrow> nat \<Rightarrow> nat \<Rightarrow> ('e, 'a list) result" where
  "go_slice xs i j = (if i \<le> j \<and> j \<le> length xs then Inr (slice xs i j) else Inl Panic)"

lemma go_index_ok [simp]: "i < length xs \<Longrightarrow> go_index xs i = Inr (xs ! i)"
  by (simp add: go_index_def)

lemma go_slice_ok [simp]: "i \<le> j \<Longrightarrow> j \<le> length xs \<Longrightarrow> go_slice xs i j = Inr (slice xs i j)"
  by (simp add: go_slice_def)

section \<open>Calls that fail\<close>

text \<open>
  A step over the world, which returns an error or a value. \<open>go_bind\<close> goes on with a value;
  \<open>go_onError\<close> is the block under \<^verbatim>\<open>if err != nil\<close>: it releases what it lists and wraps the error.
\<close>

type_synonym ('w, 'e, 'a) step = "'w \<Rightarrow> ('e + 'a) \<times> 'w"

definition go_bind :: "('w, 'e, 'a) step \<Rightarrow> ('a \<Rightarrow> ('w, 'e, 'b) step) \<Rightarrow> ('w, 'e, 'b) step" where
  "go_bind m f w = (case m w of (Inl e, w) \<Rightarrow> (Inl e, w) | (Inr x, w) \<Rightarrow> f x w)"

definition go_call :: "('w \<Rightarrow> 'a \<times> 'w) \<Rightarrow> ('w, 'e, 'a) step" where
  "go_call m w = (let (x, w) = m w in (Inr x, w))"

definition go_act :: "('w \<Rightarrow> 'w) \<Rightarrow> ('w, 'e, unit) step" where
  "go_act f w = (Inr (), f w)"

definition go_onError :: "('w, 'e, 'a) step \<Rightarrow> ('w \<Rightarrow> 'w) \<Rightarrow> ('e \<Rightarrow> 'f) \<Rightarrow> ('w, 'f, 'a) step" where
  "go_onError m cleanup wrap w = (case m w of (Inl e, w) \<Rightarrow> (Inl (wrap e), cleanup w) | (Inr x, w) \<Rightarrow> (Inr x, w))"

definition go_fail :: "('w \<Rightarrow> 'w) \<Rightarrow> 'f \<Rightarrow> ('w, 'f, 'a) step" where
  "go_fail cleanup err w = (Inl err, cleanup w)"

definition go_give :: "'a \<Rightarrow> ('w, 'f, 'a) step" where
  "go_give x w = (Inr x, w)"

lemmas step_defs = go_bind_def go_call_def go_act_def go_onError_def go_fail_def go_give_def

section \<open>Decimal numbers\<close>

text \<open>\<^verbatim>\<open>strconv.Itoa\<close> and \<^verbatim>\<open>%d\<close> of a non-negative number.\<close>

fun decimal :: "nat \<Rightarrow> string" where
  "decimal n = (if n < 10 then [char_of (48 + n)] else decimal (n div 10) @ [char_of (48 + n mod 10)])"

declare decimal.simps [simp del]

lemma digit_chars [simp]:
  "char_of (48 :: nat) = CHR ''0''" "char_of (49 :: nat) = CHR ''1''" "char_of (50 :: nat) = CHR ''2''"
  "char_of (51 :: nat) = CHR ''3''" "char_of (52 :: nat) = CHR ''4''" "char_of (53 :: nat) = CHR ''5''"
  "char_of (54 :: nat) = CHR ''6''" "char_of (55 :: nat) = CHR ''7''" "char_of (56 :: nat) = CHR ''8''"
  "char_of (57 :: nat) = CHR ''9''"
  by (simp_all add: char_of_def bit_0)

definition undecimal :: "string \<Rightarrow> nat" where
  "undecimal s = foldl (\<lambda>n c. 10 * n + (of_char c - 48)) 0 s"

lemma undecimal_decimal: "undecimal (decimal n) = n"
proof (induction n rule: decimal.induct)
  case (1 n)
  have "of_char (char_of (48 + m) :: char) - 48 = m" if "m < 10" for m :: nat
    using that by (simp add: of_char_of)
  with 1 show ?case
    by (subst decimal.simps) (simp add: undecimal_def)
qed

lemma decimal_inject: "decimal m = decimal n \<longleftrightarrow> m = n"
  by (metis undecimal_decimal)

lemma decimal_nonempty: "decimal n \<noteq> []"
  by (subst decimal.simps) simp

lemma decimal_digits: "c \<in> set (decimal n) \<Longrightarrow> 48 \<le> (of_char c :: nat) \<and> (of_char c :: nat) \<le> 57"
proof (induction n rule: decimal.induct)
  case (1 n)
  then show ?case by (subst (asm) (2) decimal.simps) (auto simp: of_char_of split: if_splits)
qed

end
