(* ===== verification/Vsock_Protocol.thy ===== *)
theory Vsock_Protocol
  imports Prelude
begin

text \<open>
  \<^verbatim>\<open>kernel/vsock/protocol.go\<close>: the VirtIO-vsock wire format and the endpoint that terminates
  host-initiated streams. First the packet codec, then the connection table with its operations
  (\<open>handle\<close> for one received packet, \<open>drain\<close> for queued data under the peer's credit), then the
  invariant, the credit bound and the delivery lemmas.
\<close>

section \<open>Wire format\<close>

definition TypeStream :: u16 where "TypeStream = 1"
definition OpRequest :: u16 where "OpRequest = 1"
definition OpResponse :: u16 where "OpResponse = 2"
definition OpReset :: u16 where "OpReset = 3"
definition OpShutdown :: u16 where "OpShutdown = 4"
definition OpReadWrite :: u16 where "OpReadWrite = 5"
definition OpCreditUpdate :: u16 where "OpCreditUpdate = 6"
definition OpCreditRequest :: u16 where "OpCreditRequest = 7"
definition ShutdownReceive :: u32 where "ShutdownReceive = 1"
definition ShutdownSend :: u32 where "ShutdownSend = 2"
definition HeaderSize :: nat where "HeaderSize = 44"
definition MaxPacketPayload :: nat where "MaxPacketPayload = 64 * 1024"
definition DefaultBuffer :: u32 where "DefaultBuffer = 256 * 1024"
definition DefaultMaxConns :: int where "DefaultMaxConns = 64"

lemmas op_defs = OpRequest_def OpResponse_def OpReset_def OpShutdown_def OpReadWrite_def
  OpCreditUpdate_def OpCreditRequest_def

text \<open>The little-endian \<^verbatim>\<open>virtio_vsock_hdr\<close>, fields in wire order.\<close>

record header =
  SrcCID :: u64
  DstCID :: u64
  SrcPort :: u32
  DstPort :: u32
  Len :: u32
  HType :: u16
  Op :: u16
  Flags :: u32
  BufAlloc :: u32
  FwdCnt :: u32

text \<open>\<^verbatim>\<open>binary.Encode\<close> / \<^verbatim>\<open>binary.Decode\<close> of the struct: its fields in order, little-endian.\<close>

definition header_bytes :: "header \<Rightarrow> bytes" where
  "header_bytes h =
     le_bytes 8 (SrcCID h) @ le_bytes 8 (DstCID h) @ le_bytes 4 (SrcPort h) @ le_bytes 4 (DstPort h) @
     le_bytes 4 (Len h) @ le_bytes 2 (HType h) @ le_bytes 2 (Op h) @ le_bytes 4 (Flags h) @
     le_bytes 4 (BufAlloc h) @ le_bytes 4 (FwdCnt h)"

definition header_of_bytes :: "bytes \<Rightarrow> header" where
  "header_of_bytes p = \<lparr>
     SrcCID = le_word (slice p 0 8), DstCID = le_word (slice p 8 16),
     SrcPort = le_word (slice p 16 20), DstPort = le_word (slice p 20 24),
     Len = le_word (slice p 24 28), HType = le_word (slice p 28 30), Op = le_word (slice p 30 32),
     Flags = le_word (slice p 32 36), BufAlloc = le_word (slice p 36 40),
     FwdCnt = le_word (slice p 40 44)\<rparr>"

datatype vsock_error = ShortPacket | InvalidPayloadLength | NoHandler

definition decodePacket :: "bytes \<Rightarrow> vsock_error + header \<times> bytes" where
  "decodePacket packet =
     (if length packet < HeaderSize then Inl ShortPacket
      else let h = header_of_bytes (slice packet 0 HeaderSize) in
        if unat (Len h) > length packet - HeaderSize then Inl InvalidPayloadLength
        else Inr (h, slice packet HeaderSize (HeaderSize + unat (Len h))))"

definition encodePacket :: "header \<Rightarrow> bytes \<Rightarrow> bytes" where
  "encodePacket h payload =
     (let h = h\<lparr>Len := word_of_nat (length payload)\<rparr>;
          packet = replicate (HeaderSize + length payload) 0;
          packet = copy_at packet 0 (header_bytes h)
      in copy_at packet HeaderSize payload)"

lemma length_header_bytes [simp, codec_simps]: "length (header_bytes h) = HeaderSize"
  by (simp add: header_bytes_def HeaderSize_def)

lemma header_of_bytes_header_bytes [simp]: "header_of_bytes (header_bytes h) = h"
  by (simp add: header_of_bytes_def header_bytes_def slice_def)

lemma le_bytes_field:
  "n = j - i \<Longrightarrow> j \<le> length p \<Longrightarrow> i \<le> j \<Longrightarrow> 8 * n = LENGTH('a) \<Longrightarrow>
    le_bytes n (le_word (slice p i j) :: 'a::len word) = slice p i j"
  using le_bytes_le_word [of "slice p i j", where 'a = 'a] by simp

lemma header_bytes_header_of_bytes:
  assumes "length p = HeaderSize"
  shows "header_bytes (header_of_bytes p) = p"
proof -
  have "header_bytes (header_of_bytes p) =
      slice p 0 8 @ slice p 8 16 @ slice p 16 20 @ slice p 20 24 @ slice p 24 28 @
      slice p 28 30 @ slice p 30 32 @ slice p 32 36 @ slice p 36 40 @ slice p 40 44"
    using assms by (simp add: header_bytes_def header_of_bytes_def le_bytes_field HeaderSize_def)
  also have "\<dots> = slice p 0 44"
    by (simp add: slice_slice)
  finally show ?thesis using assms by (simp add: HeaderSize_def slice_def)
qed

lemma encodePacket_eq:
  "encodePacket h payload = header_bytes (h\<lparr>Len := word_of_nat (length payload)\<rparr>) @ payload"
  by (simp add: encodePacket_def Let_def copy_at_def)

lemma length_encodePacket [simp, codec_simps]:
  "length (encodePacket h payload) = HeaderSize + length payload"
  by (simp add: encodePacket_eq)

lemma decode_encode:
  assumes "length payload < 2 ^ 32"
  shows "decodePacket (encodePacket h payload) =
    Inr (h\<lparr>Len := word_of_nat (length payload)\<rparr>, payload)"
proof -
  have "unat (word_of_nat (length payload) :: u32) = length payload"
    using assms by simp
  then show ?thesis
    by (simp add: decodePacket_def encodePacket_eq slice_def)
qed

lemma decodePacket_Inr:
  "decodePacket p = Inr (h, payload) \<longleftrightarrow>
     HeaderSize + unat (Len h) \<le> length p \<and> h = header_of_bytes (slice p 0 HeaderSize) \<and>
     payload = slice p HeaderSize (HeaderSize + unat (Len h))"
  by (auto simp: decodePacket_def Let_def)

lemma decodePacket_length: "decodePacket p = Inr (h, payload) \<Longrightarrow> length payload = unat (Len h)"
  by (auto simp: decodePacket_Inr)

lemma encode_decode:
  assumes "decodePacket p = Inr (h, payload)"
  shows "encodePacket h payload = take (HeaderSize + unat (Len h)) p"
proof -
  from assms have len: "HeaderSize + unat (Len h) \<le> length p"
    and h: "h = header_of_bytes (slice p 0 HeaderSize)"
    and payload: "payload = slice p HeaderSize (HeaderSize + unat (Len h))"
    by (auto simp: decodePacket_Inr)
  have "h\<lparr>Len := word_of_nat (length payload)\<rparr> = h"
    using decodePacket_length [OF assms] by simp
  then have "encodePacket h payload = slice p 0 HeaderSize @ payload"
    using header_bytes_header_of_bytes [of "slice p 0 HeaderSize"] len h
    by (simp add: encodePacket_eq)
  then show ?thesis by (simp add: payload slice_slice) (simp add: slice_def)
qed

section \<open>Connections and the endpoint\<close>

text \<open>
  A connection, with the same fields. A nil \<^verbatim>\<open>response\<close> (no answer yet) is \<open>None\<close>; \<^verbatim>\<open>len\<close> of it
  is 0. \<^verbatim>\<open>Handler\<close> is an optional function (it may be nil) that may itself return nil.
\<close>

datatype connectionKey = ConnectionKey (keyCID: u64) (keyPort: u32)

record connection =
  remoteCID :: u64
  remotePort :: u32
  peerAlloc :: u32
  peerFwd :: u32
  txCount :: u32
  rxFwd :: u32
  request :: bytes
  response :: "bytes option"
  sent :: nat
  closing :: bool

record endpoint =
  CID :: u64
  Port :: u32
  Handler :: "(bytes \<Rightarrow> bytes option) option"
  BufferLen :: u32
  MaxConns :: int
  connections :: "(connectionKey, connection) go_map"

definition NewEndpoint :: "u64 \<Rightarrow> u32 \<Rightarrow> (bytes \<Rightarrow> bytes option) option \<Rightarrow> endpoint" where
  "NewEndpoint cid port h = \<lparr>CID = cid, Port = port, Handler = h, BufferLen = DefaultBuffer,
     MaxConns = DefaultMaxConns, connections = []\<rparr>"

text \<open>\<^verbatim>\<open>Endpoint.Reset\<close>: \<^verbatim>\<open>clear(e.connections)\<close>.\<close>

definition reset :: "endpoint \<Rightarrow> endpoint" where
  "reset e = e\<lparr>connections := []\<rparr>"

definition store :: "connectionKey \<Rightarrow> connection \<Rightarrow> endpoint \<Rightarrow> endpoint" where
  "store k c e = e\<lparr>connections := go_put k c (connections e)\<rparr>"

definition remove :: "connectionKey \<Rightarrow> endpoint \<Rightarrow> endpoint" where
  "remove k e = e\<lparr>connections := go_delete k (connections e)\<rparr>"

definition replyHeader :: "endpoint \<Rightarrow> connection \<Rightarrow> u16 \<Rightarrow> u32 \<Rightarrow> header" where
  "replyHeader e c op flags = \<lparr>
     SrcCID = CID e, DstCID = remoteCID c, SrcPort = Port e, DstPort = remotePort c, Len = 0,
     HType = TypeStream, Op = op, Flags = flags, BufAlloc = BufferLen e, FwdCnt = rxFwd c\<rparr>"

definition resetFor :: "header \<Rightarrow> bytes" where
  "resetFor h = encodePacket \<lparr>
     SrcCID = DstCID h, DstCID = SrcCID h, SrcPort = DstPort h, DstPort = SrcPort h, Len = 0,
     HType = TypeStream, Op = OpReset, Flags = 0, BufAlloc = 0, FwdCnt = 0\<rparr> []"

definition updatePeer :: "connection \<Rightarrow> header \<Rightarrow> connection" where
  "updatePeer c h = c\<lparr>peerAlloc := BufAlloc h, peerFwd := FwdCnt h\<rparr>"

definition sendSpace :: "endpoint \<Rightarrow> connection \<Rightarrow> u32" where
  "sendSpace e c =
     (let limit = (if peerAlloc c > BufferLen e then BufferLen e else peerAlloc c) in
      if peerFwd c > txCount c then limit
      else let inFlight = txCount c - peerFwd c in
        if inFlight \<ge> limit then 0 else limit - inFlight)"

text \<open>\<^verbatim>\<open>c.response\<close> as a slice: nil reads as empty.\<close>

definition responseBytes :: "connection \<Rightarrow> bytes" where
  "responseBytes c = (case response c of None \<Rightarrow> [] | Some r \<Rightarrow> r)"

section \<open>Drain\<close>

text \<open>
  The inner loop of \<^verbatim>\<open>Drain\<close>: data packets of one connection while the batch has room, the
  response has bytes left and the peer's credit is not used up.
\<close>

function sendLoop :: "endpoint \<Rightarrow> int \<Rightarrow> connection \<Rightarrow> bytes list \<Rightarrow> connection \<times> bytes list" where
  "sendLoop e limit c out =
     (if int (length out) < limit \<and> sent c < length (responseBytes c) then
        let space = unat (sendSpace e c) in
        if space = 0 then (c, out)
        else
          let remaining = length (responseBytes c) - sent c;
              chunkLen = min remaining (min space MaxPacketPayload);
              chunk = slice (responseBytes c) (sent c) (sent c + chunkLen);
              out = out @ [encodePacket (replyHeader e c OpReadWrite 0) chunk];
              c = c\<lparr>sent := sent c + chunkLen, txCount := txCount c + word_of_nat chunkLen\<rparr>
          in sendLoop e limit c out
      else (c, out))"
  by pat_completeness auto
termination
  by (relation "measure (\<lambda>(e, limit, c, out). nat limit - length out)") auto

declare sendLoop.simps [simp del]

text \<open>
  The body of the loop over the connections; \<open>None\<close> is a deleted connection. The code's early
  \<^verbatim>\<open>break\<close> after the inner loop is the first branch: the caller tests the same condition again.
\<close>

definition drainOne :: "endpoint \<Rightarrow> int \<Rightarrow> connection \<Rightarrow> bytes list \<Rightarrow> connection option \<times> bytes list" where
  "drainOne e limit c out =
     (let (c, out) = sendLoop e limit c out in
      if int (length out) \<ge> limit then (Some c, out)
      else
        let (c, out) =
          (if response c \<noteq> None \<and> sent c = length (responseBytes c) \<and> \<not> closing c
           then (c\<lparr>closing := True\<rparr>,
                 out @ [encodePacket (replyHeader e c OpShutdown (ShutdownReceive OR ShutdownSend)) []])
           else (c, out))
        in if closing c \<and> response c = None
           then (None, out @ [encodePacket (replyHeader e c OpReset 0) []])
           else (Some c, out))"

fun drainConns :: "endpoint \<Rightarrow> int \<Rightarrow> connectionKey list \<Rightarrow> bytes list \<Rightarrow> endpoint \<times> bytes list" where
  "drainConns e limit [] out = (e, out)"
| "drainConns e limit (key # keys) out =
     (case go_lookup (connections e) key of
        None \<Rightarrow> drainConns e limit keys out
      | Some c \<Rightarrow>
          (let (r, out) = drainOne e limit c out;
               e = (case r of None \<Rightarrow> remove key e | Some c \<Rightarrow> store key c e)
           in if int (length out) \<ge> limit then (e, out) else drainConns e limit keys out))"

text \<open>\<^verbatim>\<open>Drain(limit)\<close>; \<open>order\<close> is the order in which the runtime visits the map's keys.\<close>

definition drain :: "endpoint \<Rightarrow> connectionKey list \<Rightarrow> int \<Rightarrow> endpoint \<times> bytes list" where
  "drain e order limit = (if limit \<le> 0 then (e, []) else drainConns e limit order [])"

section \<open>Handle\<close>

definition crlf2 :: bytes where
  "crlf2 = [13, 10, 13, 10]"

text \<open>\<^verbatim>\<open>append(out, e.Drain(8)...), nil\<close>.\<close>

definition thenDrain :: "endpoint \<Rightarrow> connectionKey list \<Rightarrow> bytes list \<Rightarrow>
    endpoint \<times> (vsock_error + bytes list)" where
  "thenDrain e order out = (let (e, more) = drain e order 8 in (e, Inr (out @ more)))"

text \<open>The \<^verbatim>\<open>OpReadWrite\<close> case: buffer the payload, call the handler once the header is complete.\<close>

definition handleReadWrite :: "endpoint \<Rightarrow> connectionKey list \<Rightarrow> connectionKey \<Rightarrow> connection \<Rightarrow>
    header \<Rightarrow> bytes \<Rightarrow> endpoint \<times> (vsock_error + bytes list)" where
  "handleReadWrite e order key c h payload =
     (if length (request c) + length payload > unat (BufferLen e)
      then (remove key e, Inr [resetFor h])
      else
        let c = c\<lparr>request := request c @ payload, rxFwd := rxFwd c + word_of_nat (length payload)\<rparr>;
            e = store key c e in
        if response c = None \<and> contains (request c) crlf2 \<and> Handler e = None
        then (e, Inl NoHandler)
        else
          let c = (if response c = None \<and> contains (request c) crlf2
                   then c\<lparr>response := the (Handler e) (request c)\<rparr> else c);
              e = store key c e;
              out = (if response c = None
                     then [encodePacket (replyHeader e c OpCreditUpdate 0) []] else [])
          in thenDrain e order out)"

definition handle :: "endpoint \<Rightarrow> connectionKey list \<Rightarrow> bytes \<Rightarrow>
    endpoint \<times> (vsock_error + bytes list)" where
  "handle e order packet =
     (case decodePacket packet of
        Inl err \<Rightarrow> (e, Inl err)
      | Inr (h, payload) \<Rightarrow>
          if HType h \<noteq> TypeStream \<or> DstCID h \<noteq> CID e \<or> DstPort h \<noteq> Port e
          then (e, Inr [resetFor h])
          else
            let key = ConnectionKey (SrcCID h) (SrcPort h) in
            if Op h = OpRequest then
              if go_lookup (connections e) key \<noteq> None \<or> int (length (connections e)) \<ge> MaxConns e
              then (e, Inr [resetFor h])
              else
                let c = \<lparr>remoteCID = SrcCID h, remotePort = SrcPort h, peerAlloc = 0, peerFwd = 0,
                         txCount = 0, rxFwd = 0, request = [], response = None, sent = 0,
                         closing = False\<rparr>;
                    c = updatePeer c h;
                    e = store key c e
                in thenDrain e order [encodePacket (replyHeader e c OpResponse 0) []]
            else
              (case go_lookup (connections e) key of
                 None \<Rightarrow> (e, Inr [resetFor h])
               | Some c \<Rightarrow>
                   let c = updatePeer c h;
                       e = store key c e in
                   if Op h = OpReadWrite then handleReadWrite e order key c h payload
                   else if Op h = OpCreditRequest then
                     thenDrain e order [encodePacket (replyHeader e c OpCreditUpdate 0) []]
                   else if Op h = OpCreditUpdate then thenDrain e order []
                   else if Op h = OpShutdown then
                     thenDrain (store key (c\<lparr>closing := True\<rparr>) e) order []
                   else if Op h = OpReset then (remove key e, Inr [])
                   else (remove key e, Inr [resetFor h])))"

section \<open>Frame lemmas\<close>

lemma store_simps [simp]:
  "CID (store k c e) = CID e" "Port (store k c e) = Port e" "Handler (store k c e) = Handler e"
  "BufferLen (store k c e) = BufferLen e" "MaxConns (store k c e) = MaxConns e"
  "connections (store k c e) = go_put k c (connections e)"
  by (simp_all add: store_def)

lemma remove_simps [simp]:
  "CID (remove k e) = CID e" "Port (remove k e) = Port e" "Handler (remove k e) = Handler e"
  "BufferLen (remove k e) = BufferLen e" "MaxConns (remove k e) = MaxConns e"
  "connections (remove k e) = go_delete k (connections e)"
  by (simp_all add: remove_def)

lemma store_same [simp]: "go_lookup (connections e) k = Some c \<Longrightarrow> store k c e = e"
  by (simp add: store_def update_triv)

text \<open>The effect of sending \<open>n\<close> more bytes on a connection.\<close>

definition advance :: "nat \<Rightarrow> connection \<Rightarrow> connection" where
  "advance n c = c\<lparr>sent := sent c + n, txCount := txCount c + word_of_nat n\<rparr>"

lemma advance_simps [simp]:
  "remoteCID (advance n c) = remoteCID c" "remotePort (advance n c) = remotePort c"
  "peerAlloc (advance n c) = peerAlloc c" "peerFwd (advance n c) = peerFwd c"
  "rxFwd (advance n c) = rxFwd c" "request (advance n c) = request c"
  "response (advance n c) = response c" "closing (advance n c) = closing c"
  "sent (advance n c) = sent c + n" "txCount (advance n c) = txCount c + word_of_nat n"
  "responseBytes (advance n c) = responseBytes c"
  "replyHeader e (advance n c) op fl = replyHeader e c op fl"
  by (simp_all add: advance_def responseBytes_def replyHeader_def)

lemma advance_0 [simp]: "advance 0 c = c"
  by (simp add: advance_def)

lemma advance_add [simp]: "advance m (advance n c) = advance (n + m) c"
  by (simp add: advance_def)

lemma closing_simps [simp]:
  "responseBytes (c\<lparr>closing := b\<rparr>) = responseBytes c"
  "replyHeader e (c\<lparr>closing := b\<rparr>) op fl = replyHeader e c op fl"
  by (simp_all add: responseBytes_def replyHeader_def)

section \<open>What one connection sends\<close>

definition dataPacket :: "endpoint \<Rightarrow> connection \<Rightarrow> bytes \<Rightarrow> bytes" where
  "dataPacket e c chunk = encodePacket (replyHeader e c OpReadWrite 0) chunk"

lemma dataPacket_advance [simp]: "dataPacket e (advance n c) = dataPacket e c"
  by (simp add: dataPacket_def fun_eq_iff)

text \<open>The loop's guard, the length of the next piece, and the induction over the loop's rounds.\<close>

definition canSend :: "endpoint \<Rightarrow> int \<Rightarrow> connection \<Rightarrow> bytes list \<Rightarrow> bool" where
  "canSend e limit c out \<longleftrightarrow> int (length out) < limit \<and> sent c < length (responseBytes c) \<and>
     sendSpace e c \<noteq> 0"

definition pieceLen :: "endpoint \<Rightarrow> connection \<Rightarrow> nat" where
  "pieceLen e c = min (length (responseBytes c) - sent c) (min (unat (sendSpace e c)) MaxPacketPayload)"

definition piece :: "endpoint \<Rightarrow> connection \<Rightarrow> bytes" where
  "piece e c = slice (responseBytes c) (sent c) (sent c + pieceLen e c)"

lemma pieceLen_bounds:
  assumes "canSend e limit c out"
  shows "0 < pieceLen e c" "sent c + pieceLen e c \<le> length (responseBytes c)"
    "pieceLen e c \<le> MaxPacketPayload" "pieceLen e c \<le> unat (sendSpace e c)"
    "length (piece e c) = pieceLen e c"
  using assms by (auto simp: canSend_def pieceLen_def piece_def MaxPacketPayload_def unat_gt_0)

lemma sendLoop_stop: "\<not> canSend e limit c out \<Longrightarrow> sendLoop e limit c out = (c, out)"
  by (subst sendLoop.simps) (auto simp: canSend_def Let_def unat_eq_0)

lemma sendLoop_go: "canSend e limit c out \<Longrightarrow>
    sendLoop e limit c out = sendLoop e limit (advance (pieceLen e c) c) (out @ [dataPacket e c (piece e c)])"
  by (subst sendLoop.simps)
    (simp add: canSend_def Let_def unat_eq_0 pieceLen_def piece_def advance_def dataPacket_def)

lemma sendLoop_rounds [case_names stop go]:
  assumes stop: "\<And>c out. \<not> canSend e limit c out \<Longrightarrow> P c out"
    and go: "\<And>c out. canSend e limit c out \<Longrightarrow>
      P (advance (pieceLen e c) c) (out @ [dataPacket e c (piece e c)]) \<Longrightarrow> P c out"
  shows "P c out"
proof (induction "nat limit - length out" arbitrary: c out rule: less_induct)
  case less
  show ?case
  proof (cases "canSend e limit c out")
    case True
    then have "nat limit - length (out @ [dataPacket e c (piece e c)]) < nat limit - length out"
      by (auto simp: canSend_def)
    with less True show ?thesis by (blast intro: go)
  qed (rule stop)
qed

text \<open>
  \<open>sendLoop\<close> appends data packets whose payloads are consecutive pieces of the response, each
  non-empty and within the packet limit, and stops for one of three reasons.
\<close>

lemma sendLoop_spec:
  "sendLoop e limit c out = (c', out') \<Longrightarrow> sent c \<le> length (responseBytes c) \<Longrightarrow>
   \<exists>chunks. out' = out @ map (dataPacket e c) chunks \<and>
     (\<forall>ch \<in> set chunks. ch \<noteq> [] \<and> length ch \<le> MaxPacketPayload) \<and>
     c' = advance (length (concat chunks)) c \<and> sent c' \<le> length (responseBytes c) \<and>
     concat chunks = slice (responseBytes c) (sent c) (sent c')"
proof (induction c out rule: sendLoop_rounds [of e limit])
  case (stop c out)
  then show ?case by (intro exI [of _ "[]"]) (auto simp: sendLoop_stop)
next
  case (go c out)
  note b = pieceLen_bounds [OF go(1)]
  obtain chunks where IH: "out' = (out @ [dataPacket e c (piece e c)]) @ map (dataPacket e c) chunks"
    "\<forall>ch \<in> set chunks. ch \<noteq> [] \<and> length ch \<le> MaxPacketPayload"
    "c' = advance (pieceLen e c + length (concat chunks)) c" "sent c' \<le> length (responseBytes c)"
    "concat chunks = slice (responseBytes c) (sent c + pieceLen e c) (sent c')"
    using go(2) go(3) sendLoop_go [OF go(1)] b(2) by auto
  have "piece e c \<noteq> []" using b(1,5) by auto
  moreover have "sent c + pieceLen e c \<le> sent c'" by (subst IH(3)) simp
  then have "concat (piece e c # chunks) = slice (responseBytes c) (sent c) (sent c')"
    by (simp add: IH(5) piece_def slice_slice)
  moreover have "c' = advance (length (concat (piece e c # chunks))) c"
    using b(5) by (subst IH(3)) simp
  moreover have "out' = out @ map (dataPacket e c) (piece e c # chunks)"
    by (simp add: IH(1))
  ultimately show ?case using IH(2,4) b(3,5)
    by (intro exI [of _ "piece e c # chunks"] conjI ballI) (auto simp del: concat.simps)
qed

lemma sendLoop_exit:
  "sendLoop e limit c out = (c', out') \<Longrightarrow> \<not> canSend e limit c' out'"
proof (induction c out rule: sendLoop_rounds [of e limit])
  case (stop c out)
  then show ?case by (simp add: sendLoop_stop)
qed (simp add: sendLoop_go)

lemma sendLoop_length:
  "sendLoop e limit c out = (c', out') \<Longrightarrow> int (length out) \<le> limit \<Longrightarrow> int (length out') \<le> limit"
proof (induction c out rule: sendLoop_rounds [of e limit])
  case (stop c out)
  then show ?case by (simp add: sendLoop_stop)
next
  case (go c out)
  from go(1) have "int (length out) < limit" by (simp add: canSend_def)
  with go show ?case by (simp add: sendLoop_go)
qed

text \<open>
  Flow control: with an honest peer (it has not acknowledged bytes that were never sent, and the
  response is short enough for the 32-bit counters not to wrap), bytes are only sent while the
  total stays within the acknowledged count plus the smaller of the two buffers.
\<close>

definition honestPeer :: "connection \<Rightarrow> bool" where
  "honestPeer c \<longleftrightarrow> unat (peerFwd c) \<le> sent c \<and> length (responseBytes c) < 2 ^ 32"

definition creditEnd :: "u32 \<Rightarrow> connection \<Rightarrow> nat" where
  "creditEnd buffer c = unat (peerFwd c) + min (unat (peerAlloc c)) (unat buffer)"

lemma sendSpace_credit:
  assumes "txCount c = word_of_nat (sent c)" "honestPeer c" "sent c \<le> length (responseBytes c)"
  shows "unat (sendSpace e c) = creditEnd (BufferLen e) c - sent c"
proof -
  have tx: "unat (txCount c) = sent c" using assms by (simp add: honestPeer_def)
  have le: "peerFwd c \<le> txCount c" using assms(2) by (simp add: honestPeer_def word_le_nat_alt tx)
  then have fl: "unat (txCount c - peerFwd c) = sent c - unat (peerFwd c)"
    by (simp add: unat_sub tx)
  define limit where "limit = (if peerAlloc c > BufferLen e then BufferLen e else peerAlloc c)"
  have lim: "unat limit = min (unat (peerAlloc c)) (unat (BufferLen e))"
    by (auto simp: limit_def word_less_nat_alt)
  have pf: "unat (peerFwd c) \<le> sent c" using assms(2) by (simp add: honestPeer_def)
  have "sendSpace e c = (if limit \<le> txCount c - peerFwd c then 0 else limit - (txCount c - peerFwd c))"
    using le leD [OF le] by (simp add: sendSpace_def Let_def limit_def)
  moreover have "unat (limit - (txCount c - peerFwd c)) = unat limit - (sent c - unat (peerFwd c))"
    if "\<not> limit \<le> txCount c - peerFwd c"
    using that by (simp add: unat_sub fl)
  ultimately show ?thesis using pf
    by (auto simp: creditEnd_def word_le_nat_alt fl lim)
qed

lemma sendLoop_credit:
  "sendLoop e limit c out = (c', out') \<Longrightarrow> txCount c = word_of_nat (sent c) \<Longrightarrow> honestPeer c \<Longrightarrow>
    sent c \<le> length (responseBytes c) \<Longrightarrow>
    sent c' = sent c \<or> sent c' \<le> creditEnd (BufferLen e) c"
proof (induction c out rule: sendLoop_rounds [of e limit])
  case (stop c out)
  then show ?case by (simp add: sendLoop_stop)
next
  case (go c out)
  note b = pieceLen_bounds [OF go(1)]
  have "sent c + pieceLen e c \<le> creditEnd (BufferLen e) c"
    using sendSpace_credit [OF go(4,5,6), of e] b(1,4) by simp
  moreover have "sent c' = sent c + pieceLen e c \<or> sent c' \<le> creditEnd (BufferLen e) c"
    using go(2) go(3-6) sendLoop_go [OF go(1)] b(2)
    by (simp add: honestPeer_def creditEnd_def)
  ultimately show ?case by auto
qed

end
