(* ===== verification/Vsock_Endpoint.thy ===== *)
theory Vsock_Endpoint
  imports Vsock_Protocol
begin

text \<open>
  The endpoint of \<^verbatim>\<open>kernel/vsock/protocol.go\<close> verified: its invariant and that every operation
  keeps it, the credit and batch bounds of \<open>drain\<close>, what each packet does to the state, and the
  integrity of the byte stream a connection receives over a whole run.
\<close>

section \<open>The invariant\<close>

definition connOk :: "endpoint \<Rightarrow> connectionKey \<Rightarrow> connection \<Rightarrow> bool" where
  "connOk e k c \<longleftrightarrow>
     ConnectionKey (remoteCID c) (remotePort c) = k \<and>
     length (request c) \<le> unat (BufferLen e) \<and> rxFwd c = word_of_nat (length (request c)) \<and>
     sent c \<le> length (responseBytes c) \<and> txCount c = word_of_nat (sent c)"

definition endpointOk :: "endpoint \<Rightarrow> bool" where
  "endpointOk e \<longleftrightarrow>
     go_map_ok (connections e) \<and> length (connections e) \<le> nat (MaxConns e) \<and>
     (\<forall>(k, c) \<in> set (connections e). connOk e k c)"

definition sameConfig :: "endpoint \<Rightarrow> endpoint \<Rightarrow> bool" where
  "sameConfig e e' \<longleftrightarrow> CID e' = CID e \<and> Port e' = Port e \<and> Handler e' = Handler e \<and>
     BufferLen e' = BufferLen e \<and> MaxConns e' = MaxConns e"

lemma sameConfig_refl [simp]: "sameConfig e e"
  by (simp add: sameConfig_def)

lemma sameConfig_trans: "sameConfig a b \<Longrightarrow> sameConfig b c \<Longrightarrow> sameConfig a c"
  by (simp add: sameConfig_def)

lemma sameConfig_store [simp]: "sameConfig e (store k c e')  = sameConfig e e'"
  by (simp add: sameConfig_def)

lemma sameConfig_remove [simp]: "sameConfig e (remove k e') = sameConfig e e'"
  by (simp add: sameConfig_def)

lemma connOk_cong: "sameConfig e e' \<Longrightarrow> connOk e' = connOk e"
  by (auto simp: fun_eq_iff connOk_def sameConfig_def)

lemma connOk_store [simp]: "connOk (store k c e) = connOk e"
  by (rule connOk_cong) simp

lemma connOk_remove [simp]: "connOk (remove k e) = connOk e"
  by (rule connOk_cong) simp

lemma endpointOk_iff:
  "endpointOk e \<longleftrightarrow> go_map_ok (connections e) \<and> length (connections e) \<le> nat (MaxConns e) \<and>
     (\<forall>k c. go_lookup (connections e) k = Some c \<longrightarrow> connOk e k c)"
  unfolding endpointOk_def using go_map_all [of "connections e" "connOk e"] by blast

lemma endpointOk_conn: "endpointOk e \<Longrightarrow> go_lookup (connections e) k = Some c \<Longrightarrow> connOk e k c"
  by (simp add: endpointOk_iff)

lemma endpointOk_store:
  assumes "endpointOk e" "connOk e k c"
    and "go_lookup (connections e) k \<noteq> None \<or> int (length (connections e)) < MaxConns e"
  shows "endpointOk (store k c e)"
  using assms gm.count_put [of "connections e" k c]
  by (auto simp: endpointOk_iff gm.lookup_put gm.ok_put)

lemma endpointOk_remove: "endpointOk e \<Longrightarrow> endpointOk (remove k e)"
  using gm.count_delete [of "connections e" k]
  by (auto simp: endpointOk_iff gm.lookup_delete gm.ok_delete)

lemma endpointOk_new: "endpointOk (NewEndpoint cid port h)"
  by (simp add: endpointOk_def NewEndpoint_def)

lemma endpointOk_reset: "endpointOk (reset e)"
  by (simp add: endpointOk_def reset_def)

section \<open>One connection in one batch\<close>

text \<open>The payload a data packet carries to a host peer, and the stream of a list of packets.\<close>

definition dataTo :: "connectionKey \<Rightarrow> bytes \<Rightarrow> bytes" where
  "dataTo k p = (case decodePacket p of Inl _ \<Rightarrow> []
     | Inr (h, payload) \<Rightarrow> if Op h = OpReadWrite \<and> ConnectionKey (DstCID h) (DstPort h) = k then payload else [])"

definition streamTo :: "connectionKey \<Rightarrow> bytes list \<Rightarrow> bytes" where
  "streamTo k pkts = concat (map (dataTo k) pkts)"

lemma streamTo_simps [simp]:
  "streamTo k [] = []" "streamTo k (p # ps) = dataTo k p @ streamTo k ps"
  "streamTo k (ps @ qs) = streamTo k ps @ streamTo k qs"
  by (simp_all add: streamTo_def)

lemma replyHeader_simps [simp]:
  "SrcCID (replyHeader e c op fl) = CID e" "DstCID (replyHeader e c op fl) = remoteCID c"
  "SrcPort (replyHeader e c op fl) = Port e" "DstPort (replyHeader e c op fl) = remotePort c"
  "HType (replyHeader e c op fl) = TypeStream" "Op (replyHeader e c op fl) = op"
  "Flags (replyHeader e c op fl) = fl" "BufAlloc (replyHeader e c op fl) = BufferLen e"
  "FwdCnt (replyHeader e c op fl) = rxFwd c"
  by (simp_all add: replyHeader_def)

lemma dataTo_reply [simp]:
  "length pl < 2 ^ 32 \<Longrightarrow> dataTo k (encodePacket (replyHeader e c op fl) pl) =
     (if op = OpReadWrite \<and> ConnectionKey (remoteCID c) (remotePort c) = k then pl else [])"
  by (simp add: dataTo_def decode_encode)

lemma dataTo_resetFor [simp]: "dataTo k (resetFor h) = []"
  by (simp add: dataTo_def resetFor_def decode_encode op_defs)

lemma streamTo_data:
  assumes "\<forall>ch \<in> set chunks. length ch \<le> MaxPacketPayload"
  shows "streamTo k (map (dataPacket e c) chunks) =
    (if ConnectionKey (remoteCID c) (remotePort c) = k then concat chunks else [])"
  using assms
proof (induction chunks)
  case (Cons ch chunks)
  then have "length ch < 2 ^ 32" by (auto simp: MaxPacketPayload_def)
  with Cons show ?case by (simp add: dataPacket_def)
qed simp

text \<open>
  One connection's turn: it advances by exactly the bytes it sent; it is deleted only when it was
  closing with no response; \<open>closing\<close> is only ever set, and only once everything is sent.
\<close>

definition turn :: "u32 \<Rightarrow> connection \<Rightarrow> nat \<Rightarrow> bool" where
  "turn buffer c n \<longleftrightarrow> sent c + n \<le> length (responseBytes c) \<and>
     (honestPeer c \<longrightarrow> n = 0 \<or> sent c + n \<le> creditEnd buffer c)"

definition finishes :: "connection \<Rightarrow> nat \<Rightarrow> bool" where
  "finishes c n \<longleftrightarrow> response c \<noteq> None \<and> sent c + n = length (responseBytes c)"

lemma turn_0 [simp]: "turn buffer c 0 \<longleftrightarrow> sent c \<le> length (responseBytes c)"
  by (simp add: turn_def)

lemma drainOne_spec:
  assumes "drainOne e limit c out = (r, out')" and "sent c \<le> length (responseBytes c)"
    and tx: "txCount c = word_of_nat (sent c)"
  shows "\<exists>new n. out' = out @ new \<and> turn (BufferLen e) c n \<and>
    (\<forall>k. streamTo k new = (if ConnectionKey (remoteCID c) (remotePort c) = k
      then slice (responseBytes c) (sent c) (sent c + n) else [])) \<and>
    (r = Some (advance n c) \<or> finishes c n \<and> r = Some ((advance n c)\<lparr>closing := True\<rparr>) \<or>
     r = None \<and> response c = None \<and> closing c)"
proof -
  obtain c1 out1 where sl: "sendLoop e limit c out = (c1, out1)" by fastforce
  from sendLoop_spec [OF sl assms(2)] obtain chunks where
    out1: "out1 = out @ map (dataPacket e c) chunks" and
    small: "\<forall>ch \<in> set chunks. length ch \<le> MaxPacketPayload" and
    c1: "c1 = advance (length (concat chunks)) c" and le: "sent c1 \<le> length (responseBytes c)" and
    conc: "concat chunks = slice (responseBytes c) (sent c) (sent c1)"
    by blast
  define n where "n = length (concat chunks)"
  have sent1: "sent c1 = sent c + n" by (simp add: c1 n_def)
  have str: "streamTo k (map (dataPacket e c) chunks) = (if ConnectionKey (remoteCID c) (remotePort c) = k
      then slice (responseBytes c) (sent c) (sent c + n) else [])" for k
    using conc by (simp add: streamTo_data [OF small] sent1)
  have bound: "turn (BufferLen e) c n" using le sendLoop_credit [OF sl tx _ assms(2)]
    by (auto simp: turn_def sent1)
  define new where "new = drop (length out) out'"
  have c1n: "c1 = advance n c" by (simp add: c1 n_def)
  have "out' = out @ new \<and> (\<forall>k. streamTo k new = streamTo k (map (dataPacket e c) chunks)) \<and>
    (r = Some (advance n c) \<or> finishes c n \<and> r = Some ((advance n c)\<lparr>closing := True\<rparr>) \<or>
     r = None \<and> response c = None \<and> closing c)"
    using assms(1) unfolding drainOne_def sl new_def finishes_def
    by (auto simp: Let_def out1 c1n op_defs split: if_splits)
  with str bound show ?thesis by metis
qed

lemma drainOne_length:
  assumes "drainOne e limit c out = (r, out')" "int (length out) \<le> limit"
  shows "int (length out') \<le> limit"
proof -
  obtain c1 out1 where sl: "sendLoop e limit c out = (c1, out1)" by fastforce
  show ?thesis
    using assms(1) sendLoop_length [OF sl assms(2)] unfolding drainOne_def sl
    by (auto simp: Let_def split: if_splits)
qed

lemma connOk_advance:
  "connOk e k c \<Longrightarrow> sent c + n \<le> length (responseBytes c) \<Longrightarrow> connOk e k (advance n c)"
  by (auto simp: connOk_def)

lemma connOk_closing [simp]: "connOk e k (c\<lparr>closing := b\<rparr>) = connOk e k c"
  by (auto simp: connOk_def)

section \<open>A whole batch\<close>

lemma drainConns_length:
  "drainConns e limit keys out = (e', out') \<Longrightarrow> int (length out) \<le> limit \<Longrightarrow> int (length out') \<le> limit"
proof (induction e limit keys out rule: drainConns.induct)
  case (2 e limit key keys out)
  show ?case
  proof (cases "go_lookup (connections e) key")
    case None
    with 2 show ?thesis by simp
  next
    case (Some c)
    obtain r out1 where d: "drainOne e limit c out = (r, out1)" by fastforce
    from drainOne_length [OF d "2.prems"(2)] "2.IH"(2) [OF Some d [symmetric] refl refl] "2.prems"(1) Some d
    show ?thesis by (auto simp: Let_def split: if_splits)
  qed
qed simp

text \<open>
  The relation between the table before and after a batch, seen from one key: the stream the
  batch sends to it, and what became of its connection.
\<close>

definition drained :: "u32 \<Rightarrow> connectionKey \<Rightarrow> connection option \<Rightarrow> bytes list \<Rightarrow> connection option \<Rightarrow> bool" where
  "drained buffer k before new after \<longleftrightarrow> (case before of
     None \<Rightarrow> after = None \<and> streamTo k new = []
   | Some c \<Rightarrow> (\<exists>n. turn buffer c n \<and>
       streamTo k new = slice (responseBytes c) (sent c) (sent c + n) \<and>
       (after = Some (advance n c) \<or> finishes c n \<and> after = Some ((advance n c)\<lparr>closing := True\<rparr>) \<or>
        after = None \<and> response c = None \<and> closing c)))"

lemma drained_trivial [simp]: "(\<And>c. m = Some c \<Longrightarrow> sent c \<le> length (responseBytes c)) \<Longrightarrow> drained b k m [] m"
  by (auto simp: drained_def split: option.split intro: exI [of _ 0])

lemma drained_same: "drained b k m new m \<Longrightarrow> streamTo k new = []"
proof (cases m)
  case (Some c)
  assume "drained b k m new m"
  then obtain n where "streamTo k new = slice (responseBytes c) (sent c) (sent c + n)"
    and "c = advance n c \<or> c = (advance n c)\<lparr>closing := True\<rparr>"
    by (auto simp: drained_def Some)
  moreover from this(2) have "sent c = sent c + n"
    by (metis advance_simps(9) connection.ext_inject connection.surjective connection.update_convs(10))
  ultimately show ?thesis by simp
qed (simp add: drained_def)

lemma drained_append:
  "streamTo k xs = [] \<Longrightarrow> drained b k m (xs @ ys) m' = drained b k m ys m'"
  "streamTo k ys = [] \<Longrightarrow> drained b k m (xs @ ys) m' = drained b k m xs m'"
  by (simp_all add: drained_def split: option.split)

text \<open>One connection's turn, on the table.\<close>

lemma drainOne_table:
  assumes ok: "endpointOk e" and c: "go_lookup (connections e) key = Some c"
    and d: "drainOne e limit c out = (r, out')"
    and e': "e' = (case r of None \<Rightarrow> remove key e | Some c \<Rightarrow> store key c e)"
  shows "endpointOk e' \<and> sameConfig e e' \<and> (\<exists>new. out' = out @ new \<and>
    (\<forall>k. drained (BufferLen e) k (go_lookup (connections e) k) new (go_lookup (connections e') k)) \<and>
    (\<forall>k. k \<noteq> key \<longrightarrow> streamTo k new = [] \<and>
       go_lookup (connections e') k = go_lookup (connections e) k))"
proof -
  have cok: "connOk e key c" using ok c by (rule endpointOk_conn)
  then have key: "ConnectionKey (remoteCID c) (remotePort c) = key" and le: "sent c \<le> length (responseBytes c)"
    and tx: "txCount c = word_of_nat (sent c)"
    by (auto simp: connOk_def)
  obtain new n where out': "out' = out @ new" and n: "turn (BufferLen e) c n"
    and str: "\<And>k. streamTo k new = (if key = k then slice (responseBytes c) (sent c) (sent c + n) else [])"
    and r: "r = Some (advance n c) \<or> finishes c n \<and> r = Some ((advance n c)\<lparr>closing := True\<rparr>) \<or>
      r = None \<and> response c = None \<and> closing c"
    using drainOne_spec [OF d le tx] by (auto simp: key)
  have "sent c + n \<le> length (responseBytes c)" using n by (simp add: turn_def)
  then have "endpointOk e'"
    using r ok c connOk_advance [OF cok] by (auto simp: e' endpointOk_store endpointOk_remove)
  moreover have "sameConfig e e'" by (auto simp: e' split: option.split)
  moreover have "drained (BufferLen e) k (go_lookup (connections e) k) new (go_lookup (connections e') k)" for k
  proof (cases "k = key")
    case True
    have "go_lookup (connections e') key = r"
      by (simp add: e' gm.lookup_put gm.lookup_delete split: option.split)
    moreover have "streamTo k new = slice (responseBytes c) (sent c) (sent c + n)"
      using str True by simp
    ultimately show ?thesis using r n c True by (simp add: drained_def) blast
  next
    case False
    then have "go_lookup (connections e') k = go_lookup (connections e) k"
      by (auto simp: e' gm.lookup_put gm.lookup_delete split: option.split)
    with False str show ?thesis using endpointOk_conn [OF ok]
      by (auto simp: drained_def connOk_def split: option.split intro!: exI [of _ 0])
  qed
  moreover have "\<forall>k. k \<noteq> key \<longrightarrow> streamTo k new = [] \<and>
       go_lookup (connections e') k = go_lookup (connections e) k"
    using str by (auto simp: e' gm.lookup_put gm.lookup_delete split: option.split)
  ultimately show ?thesis using out' by blast
qed

lemma drainConns_spec:
  "drainConns e limit keys out = (e', out') \<Longrightarrow> endpointOk e \<Longrightarrow> distinct keys \<Longrightarrow>
   endpointOk e' \<and> sameConfig e e' \<and> (\<exists>new. out' = out @ new \<and>
     (\<forall>k. drained (BufferLen e) k (go_lookup (connections e) k) new (go_lookup (connections e') k)) \<and>
     (\<forall>k. k \<notin> set keys \<longrightarrow> go_lookup (connections e') k = go_lookup (connections e) k))"
proof (induction e limit keys out rule: drainConns.induct)
  case (1 e limit out)
  then show ?case
    by (auto intro!: drained_trivial dest: endpointOk_conn simp: connOk_def)
next
  case (2 e limit key keys out)
  show ?case
  proof (cases "go_lookup (connections e) key")
    case None
    with "2.prems" "2.IH"(1) [OF None] show ?thesis by fastforce
  next
    case (Some c)
    obtain r out1 where d: "drainOne e limit c out = (r, out1)" by fastforce
    define e1 where "e1 = (case r of None \<Rightarrow> remove key e | Some c \<Rightarrow> store key c e)"
    from drainOne_table [OF "2.prems"(2) Some d e1_def] obtain new1 where
      e1: "endpointOk e1" "sameConfig e e1" and out1: "out1 = out @ new1" and
      dr1: "\<And>k. drained (BufferLen e) k (go_lookup (connections e) k) new1 (go_lookup (connections e1) k)" and
      other: "\<And>k. k \<noteq> key \<Longrightarrow> streamTo k new1 = [] \<and>
        go_lookup (connections e1) k = go_lookup (connections e) k" by blast
    show ?thesis
    proof (cases "int (length out1) \<ge> limit")
      case True
      then have "e' = e1" "out' = out1" using "2.prems"(1) Some d by (simp_all add: e1_def Let_def)
      with e1 out1 dr1 other show ?thesis by auto
    next
      case False
      then have rest: "drainConns e1 limit keys out1 = (e', out')"
        using "2.prems"(1) Some d by (simp add: e1_def Let_def)
      from "2.IH"(2) [OF Some d [symmetric] refl e1_def False rest e1(1)] "2.prems"(3)
      obtain new2 where e': "endpointOk e'" "sameConfig e1 e'" and out': "out' = out1 @ new2" and
        dr2': "\<And>k. drained (BufferLen e1) k (go_lookup (connections e1) k) new2 (go_lookup (connections e') k)" and
        left: "\<And>k. k \<notin> set keys \<Longrightarrow> go_lookup (connections e') k = go_lookup (connections e1) k"
        by auto
      have dr2: "drained (BufferLen e) k (go_lookup (connections e1) k) new2 (go_lookup (connections e') k)"
        for k using dr2' e1(2) by (simp add: sameConfig_def)
      have "drained (BufferLen e) k (go_lookup (connections e) k) (new1 @ new2) (go_lookup (connections e') k)" for k
      proof (cases "k = key")
        case True
        then have same: "go_lookup (connections e') k = go_lookup (connections e1) k"
          using left "2.prems"(3) by simp
        with dr2 [of k] have "streamTo k new2 = []" by (metis drained_same)
        with dr1 [of k] same show ?thesis by (simp add: drained_append)
      next
        case False
        with dr2 [of k] other show ?thesis by (simp add: drained_append)
      qed
      moreover have "\<forall>k. k \<notin> set (key # keys) \<longrightarrow>
          go_lookup (connections e') k = go_lookup (connections e) k"
        using left other by auto
      ultimately show ?thesis
        using e' e1(2) out1 out' sameConfig_trans by (intro conjI exI [of _ "new1 @ new2"]) auto
    qed
  qed
qed

lemma drain_spec:
  assumes "drain e order limit = (e', out)" "endpointOk e" "distinct order"
  shows "endpointOk e' \<and> sameConfig e e' \<and>
    (\<forall>k. drained (BufferLen e) k (go_lookup (connections e) k) out (go_lookup (connections e') k))"
proof (cases "limit \<le> 0")
  case True
  with assms have "e' = e" "out = []" by (simp_all add: drain_def)
  with assms(2) show ?thesis by (auto intro!: drained_trivial dest: endpointOk_conn simp: connOk_def)
next
  case False
  then have "drainConns e limit order [] = (e', out)" using assms(1) by (simp add: drain_def)
  from drainConns_spec [OF this assms(2,3)] show ?thesis by auto
qed

lemma thenDrain_spec:
  assumes "thenDrain e order out = (e', r)" "endpointOk e" "distinct order"
  shows "endpointOk e' \<and> sameConfig e e' \<and> (\<exists>extra. r = Inr (out @ extra) \<and>
    (\<forall>k. drained (BufferLen e) k (go_lookup (connections e) k) extra (go_lookup (connections e') k)))"
proof -
  obtain e1 extra where d: "drain e order 8 = (e1, extra)" by fastforce
  with assms(1) have "e' = e1" "r = Inr (out @ extra)" by (simp_all add: thenDrain_def)
  with drain_spec [OF d assms(2,3)] show ?thesis by blast
qed

section \<open>What a packet does to its connection\<close>

lemma updatePeer_simps [simp]:
  "remoteCID (updatePeer c h) = remoteCID c" "remotePort (updatePeer c h) = remotePort c"
  "request (updatePeer c h) = request c" "response (updatePeer c h) = response c"
  "responseBytes (updatePeer c h) = responseBytes c"
  "sent (updatePeer c h) = sent c" "closing (updatePeer c h) = closing c"
  "peerAlloc (updatePeer c h) = BufAlloc h" "peerFwd (updatePeer c h) = FwdCnt h"
  "txCount (updatePeer c h) = txCount c" "rxFwd (updatePeer c h) = rxFwd c"
  by (simp_all add: updatePeer_def responseBytes_def)

lemma connOk_updatePeer [simp]: "connOk e k (updatePeer c h) = connOk e k c"
  by (simp add: connOk_def)

text \<open>Buffering a payload, and asking the handler.\<close>

definition received :: "bytes \<Rightarrow> connection \<Rightarrow> connection" where
  "received payload c =
     c\<lparr>request := request c @ payload, rxFwd := rxFwd c + word_of_nat (length payload)\<rparr>"

lemma received_simps [simp]:
  "remoteCID (received pl c) = remoteCID c" "remotePort (received pl c) = remotePort c"
  "request (received pl c) = request c @ pl" "response (received pl c) = response c"
  "responseBytes (received pl c) = responseBytes c" "sent (received pl c) = sent c"
  "closing (received pl c) = closing c" "txCount (received pl c) = txCount c"
  "peerAlloc (received pl c) = peerAlloc c" "peerFwd (received pl c) = peerFwd c"
  by (simp_all add: received_def responseBytes_def)

lemma connOk_received:
  "connOk e k c \<Longrightarrow> length (request c) + length pl \<le> unat (BufferLen e) \<Longrightarrow> connOk e k (received pl c)"
  by (auto simp: connOk_def received_def responseBytes_def)

lemma connOk_answer:
  assumes "connOk e k c" "response c = None"
  shows "connOk e k (c\<lparr>response := r\<rparr>)"
proof -
  have "sent c = 0" using assms by (simp add: connOk_def responseBytes_def)
  then show ?thesis using assms by (simp add: connOk_def responseBytes_def)
qed

text \<open>
  The effect of one call on the connection of a key, under a handler: it keeps its identity, its
  response stays as it was or is the handler's answer to a request with a complete header, and the
  stream of the packets returned is exactly the piece of the response between the old and the new
  \<open>sent\<close>.
\<close>

definition newAnswer :: "(bytes \<Rightarrow> bytes option) option \<Rightarrow> connection \<Rightarrow> connection \<Rightarrow> bool" where
  "newAnswer H c c' \<longleftrightarrow> response c = None \<and>
     (\<exists>f. H = Some f \<and> contains (request c') crlf2 \<and> response c' = f (request c'))"

definition continues :: "(bytes \<Rightarrow> bytes option) option \<Rightarrow> bytes \<Rightarrow> connectionKey \<Rightarrow> connection option \<Rightarrow>
    bytes list \<Rightarrow> connection \<Rightarrow> bool" where
  "continues H inp k before out c' \<longleftrightarrow> (case before of
     None \<Rightarrow> sent c' = 0 \<and> streamTo k out = [] \<and> response c' = None \<and> request c' = []
   | Some c \<Rightarrow> sent c \<le> sent c' \<and> streamTo k out = slice (responseBytes c') (sent c) (sent c') \<and>
       (response c' = response c \<or> newAnswer H c c') \<and> request c' = request c @ inp)"

text \<open>A change that sends nothing, followed by a batch.\<close>

lemma continues_drained:
  assumes "drained b k (Some c1) extra (Some c')" and "continues H inp k before out c1"
    and "streamTo k out = []" and "before = None \<Longrightarrow> response c1 = None"
    and "\<And>c. before = Some c \<Longrightarrow> sent c = sent c1"
  shows "continues H inp k before (out @ extra) c'"
proof -
  obtain n where n: "turn b c1 n" "streamTo k extra = slice (responseBytes c1) (sent c1) (sent c1 + n)"
    and c': "c' = advance n c1 \<or> c' = (advance n c1)\<lparr>closing := True\<rparr>"
    using assms(1) by (auto simp: drained_def)
  have "before = None \<Longrightarrow> n = 0"
    using n(1) assms(4) by (simp add: turn_def responseBytes_def)
  moreover have "sent c' = sent c1 + n" "responseBytes c' = responseBytes c1"
      "response c' = response c1" "request c' = request c1"
    using c' by auto
  ultimately show ?thesis using n(2) assms(2,3,5)
    by (auto simp: continues_def newAnswer_def split: option.splits)
qed

text \<open>A change to the table that sends nothing, seen from one key.\<close>

definition quiet :: "(bytes \<Rightarrow> bytes option) option \<Rightarrow> bytes \<Rightarrow> connection option \<Rightarrow> connection \<Rightarrow> bool" where
  "quiet H inp before c1 \<longleftrightarrow> (case before of
     None \<Rightarrow> sent c1 = 0 \<and> response c1 = None \<and> request c1 = []
   | Some c \<Rightarrow> sent c1 = sent c \<and> (response c1 = response c \<or> newAnswer H c c1) \<and>
       request c1 = request c @ inp)"

definition stepOk :: "(connectionKey \<Rightarrow> bytes) \<Rightarrow> endpoint \<Rightarrow> endpoint \<Rightarrow> vsock_error + bytes list \<Rightarrow> bool" where
  "stepOk inp e e' r \<longleftrightarrow> endpointOk e' \<and> sameConfig e e' \<and>
     (\<forall>out k c'. r = Inr out \<longrightarrow> go_lookup (connections e') k = Some c' \<longrightarrow>
        continues (Handler e) (inp k) k (go_lookup (connections e) k) out c')"

lemma quiet_continues: "quiet H inp before c1 \<Longrightarrow> streamTo k out = [] \<Longrightarrow> continues H inp k before out c1"
  by (auto simp: quiet_def continues_def split: option.splits)

lemma quiet_refl [simp]: "quiet H inp (Some c) c \<longleftrightarrow> inp = []"
  by (simp add: quiet_def)

lemma stepOk_quiet:
  assumes "endpointOk e1" "sameConfig e e1"
    and "\<And>k c1. go_lookup (connections e1) k = Some c1 \<Longrightarrow> quiet (Handler e) (inp k) (go_lookup (connections e) k) c1"
    and "\<And>k out. r = Inr out \<Longrightarrow> streamTo k out = []"
  shows "stepOk inp e e1 r"
  using assms by (auto simp: stepOk_def intro: quiet_continues)

lemma stepOk_thenDrain:
  assumes t: "thenDrain e1 order out = (e', r)" and "distinct order"
    and "endpointOk e1" "sameConfig e e1"
    and q: "\<And>k c1. go_lookup (connections e1) k = Some c1 \<Longrightarrow> quiet (Handler e) (inp k) (go_lookup (connections e) k) c1"
    and s: "\<And>k. streamTo k out = []"
  shows "stepOk inp e e' r"
proof -
  from thenDrain_spec [OF t assms(3,2)] obtain extra where
    e': "endpointOk e'" "sameConfig e1 e'" and r: "r = Inr (out @ extra)" and
    d: "\<And>k. drained (BufferLen e1) k (go_lookup (connections e1) k) extra (go_lookup (connections e') k)"
    by blast
  have "continues (Handler e) (inp k) k (go_lookup (connections e) k) (out @ extra) c'"
    if c': "go_lookup (connections e') k = Some c'" for k c'
  proof -
    obtain c1 where c1: "go_lookup (connections e1) k = Some c1"
      using d [of k] c' by (auto simp: drained_def split: option.splits)
    from q [OF c1] have "continues (Handler e) (inp k) k (go_lookup (connections e) k) out c1"
      and "go_lookup (connections e) k = None \<Longrightarrow> response c1 = None"
      and "\<And>c. go_lookup (connections e) k = Some c \<Longrightarrow> sent c = sent c1"
      by (auto simp: quiet_continues s) (auto simp: quiet_def)
    with d [of k] c1 c' s show ?thesis by (auto intro: continues_drained)
  qed
  with e' r assms(4) show ?thesis by (auto simp: stepOk_def intro: sameConfig_trans)
qed

lemma stepOk_remove [simp]:
  "endpointOk e \<Longrightarrow> (\<And>j. j \<noteq> k \<Longrightarrow> inp j = []) \<Longrightarrow> stepOk inp e (remove k e) (Inr [resetFor h])"
  "endpointOk e \<Longrightarrow> (\<And>j. j \<noteq> k \<Longrightarrow> inp j = []) \<Longrightarrow> stepOk inp e (remove k e) (Inr [])"
  by (auto intro!: stepOk_quiet endpointOk_remove simp: gm.lookup_delete split: if_splits)

lemma stepOk_unchanged [simp]:
  "endpointOk e \<Longrightarrow> (\<And>j. go_lookup (connections e) j \<noteq> None \<Longrightarrow> inp j = []) \<Longrightarrow>
    stepOk inp e e (Inr [resetFor h])"
  "endpointOk e \<Longrightarrow> stepOk inp e e (Inl err)"
  by (fastforce intro!: stepOk_quiet) (simp add: stepOk_def)

lemma stepOk_store_thenDrain:
  assumes "thenDrain (store k c1 e) order out = (e', r)" "distinct order" "endpointOk e" "connOk e k c1"
    and "go_lookup (connections e) k \<noteq> None \<or> int (length (connections e)) < MaxConns e"
    and "quiet (Handler e) (inp k) (go_lookup (connections e) k) c1" and "\<And>k. streamTo k out = []"
    and "\<And>j. j \<noteq> k \<Longrightarrow> inp j = []"
  shows "stepOk inp e e' r"
  using assms
  by (intro stepOk_thenDrain [OF assms(1,2)]) (auto simp: endpointOk_store gm.lookup_put split: if_splits)

lemma store_store [simp]: "store k c (store k d e) = store k c e"
  by (simp add: store_def update_triv)

lemma remove_store [simp]: "remove k (store k c e) = remove k e"
  by (simp add: remove_def store_def)

lemma replyHeader_store [simp]: "replyHeader (store k c e) = replyHeader e"
  by (simp add: replyHeader_def fun_eq_iff)

definition creditReply :: "endpoint \<Rightarrow> connection \<Rightarrow> bytes list" where
  "creditReply e c =
     (if response c = None then [encodePacket (replyHeader e c OpCreditUpdate 0) []] else [])"

lemma streamTo_creditReply [simp]: "streamTo k (creditReply e c) = []"
  by (simp add: creditReply_def op_defs)

lemma creditReply_store [simp]: "creditReply (store k c e) = creditReply e"
  by (simp add: creditReply_def fun_eq_iff)

text \<open>The \<^verbatim>\<open>OpReadWrite\<close> case by its four outcomes.\<close>

lemma handleReadWrite_eq:
  "handleReadWrite e order k c h pl =
     (if length (request c) + length pl > unat (BufferLen e) then (remove k e, Inr [resetFor h])
      else if response c = None \<and> contains (request c @ pl) crlf2 then
        (case Handler e of
           None \<Rightarrow> (store k (received pl c) e, Inl NoHandler)
         | Some f \<Rightarrow>
             let c2 = (received pl c)\<lparr>response := f (request c @ pl)\<rparr> in
             thenDrain (store k c2 e) order (creditReply e c2))
      else thenDrain (store k (received pl c) e) order (creditReply e (received pl c)))"
  unfolding handleReadWrite_def received_def [symmetric]
  by (auto simp: Let_def creditReply_def split: option.split)

lemma handleReadWrite_step:
  assumes "handleReadWrite (store k (updatePeer c h) e) order k (updatePeer c h) h pl = (e', r)"
    and "endpointOk e" "distinct order" and c: "go_lookup (connections e) k = Some c"
  shows "stepOk (\<lambda>j. if j = k then pl else []) e e' r"
proof -
  have cok: "connOk e k c" using assms(2) c by (rule endpointOk_conn)
  define c1 where "c1 = received pl (updatePeer c h)"
  have q1: "quiet (Handler e) pl (Some c) c1" by (simp add: c1_def quiet_def)
  show ?thesis
  proof (cases "length (request c) + length pl > unat (BufferLen e)")
    case True
    then show ?thesis using assms by (auto simp: handleReadWrite_def)
  next
    case False
    then have c1: "connOk e k c1" using cok by (simp add: c1_def connOk_received)
    show ?thesis
    proof (cases "response c = None \<and> contains (request c @ pl) crlf2")
      case noReply: False
      then have t: "thenDrain (store k c1 e) order (creditReply e c1) = (e', r)"
        using assms(1) False by (simp add: handleReadWrite_eq c1_def if_not_P [OF noReply])
      show ?thesis
        by (rule stepOk_store_thenDrain [OF t assms(3,2) c1]) (auto simp: c q1)
    next
      case ask: True
      show ?thesis
      proof (cases "Handler e")
        case None
        then have "e' = store k c1 e" "r = Inl NoHandler"
          using assms(1) False ask by (simp_all add: handleReadWrite_eq c1_def)
        then show ?thesis using assms(2) c1 c q1
          by (simp add: stepOk_def endpointOk_store)
      next
        case (Some f)
        define c2 where "c2 = c1\<lparr>response := f (request c1)\<rparr>"
        have ok2: "connOk e k c2"
          using connOk_answer [OF c1] ask by (simp add: c2_def c1_def)
        have q2: "quiet (Handler e) pl (Some c) c2"
          using ask Some by (simp add: c2_def c1_def quiet_def newAnswer_def)
        have t: "thenDrain (store k c2 e) order (creditReply e c2) = (e', r)"
          using assms(1) False ask Some
          by (simp add: handleReadWrite_eq c2_def c1_def Let_def)
        show ?thesis
          by (rule stepOk_store_thenDrain [OF t assms(3,2) ok2]) (auto simp: c q2)
      qed
    qed
  qed
qed

text \<open>What a packet adds to the request of a connection.\<close>

definition dataFrom :: "endpoint \<Rightarrow> bytes \<Rightarrow> connectionKey \<Rightarrow> bytes" where
  "dataFrom e p k = (case decodePacket p of Inl _ \<Rightarrow> []
     | Inr (h, payload) \<Rightarrow>
         if HType h = TypeStream \<and> DstCID h = CID e \<and> DstPort h = Port e \<and> Op h = OpReadWrite \<and>
           ConnectionKey (SrcCID h) (SrcPort h) = k then payload else [])"

text \<open>Every packet: the invariant is kept, and every surviving connection continues its stream.\<close>

lemma handle_step:
  assumes hd: "handle e order p = (e', r)" and ok: "endpointOk e" and ord: "distinct order"
  shows "stepOk (dataFrom e p) e e' r"
proof (cases "decodePacket p")
  case (Inl err)
  then show ?thesis using hd ok by (auto simp: handle_def)
next
  case (Inr hp)
  obtain h pl where hp: "hp = (h, pl)" by fastforce
  define k where "k = ConnectionKey (SrcCID h) (SrcPort h)"
  have inp: "dataFrom e p = (\<lambda>j. if HType h = TypeStream \<and> DstCID h = CID e \<and> DstPort h = Port e \<and>
      Op h = OpReadWrite \<and> j = k then pl else [])"
    by (auto simp: dataFrom_def Inr hp k_def fun_eq_iff)
  note hd = hd [unfolded handle_def Inr hp, simplified, folded k_def]
  show ?thesis
  proof (cases "HType h \<noteq> TypeStream \<or> DstCID h \<noteq> CID e \<or> DstPort h \<noteq> Port e")
    case True
    then show ?thesis using hd ok unfolding inp by auto
  next
    case addr: False
    show ?thesis
    proof (cases "Op h = OpRequest")
      case True
      define c where "c = updatePeer \<lparr>remoteCID = SrcCID h, remotePort = SrcPort h, peerAlloc = 0,
        peerFwd = 0, txCount = 0, rxFwd = 0, request = [], response = None, sent = 0,
        closing = False\<rparr> h"
      have c: "connOk e k c" "response c = None" "sent c = 0" "request c = []"
        by (simp_all add: connOk_def c_def k_def responseBytes_def)
      show ?thesis unfolding inp using hd ok ord addr True c
        by (auto simp: Let_def op_defs split: if_splits simp flip: c_def
            intro!: stepOk_store_thenDrain [of k c e order _ e' r] simp: quiet_def)
    next
      case noReq: False
      show ?thesis
      proof (cases "go_lookup (connections e) k")
        case None
        then show ?thesis unfolding inp using hd ok addr noReq
          by (auto intro!: stepOk_unchanged(1) split: if_splits)
      next
        case (Some c)
        have cok: "connOk e k (updatePeer c h)" using endpointOk_conn [OF ok Some] by simp
        have q: "quiet (Handler e) [] (Some c) ((updatePeer c h)\<lparr>closing := True\<rparr>)" "quiet (Handler e) [] (Some c) (updatePeer c h)"
          by (simp_all add: quiet_def)
        note store = stepOk_store_thenDrain [OF _ ord ok, of k]
        show ?thesis unfolding inp using hd addr noReq Some cok q ok
          by (auto simp: Let_def op_defs split: if_splits intro: store
              dest!: handleReadWrite_step [OF _ ok ord Some])
      qed
    qed
  qed
qed

end
