(* ===== verification/Vsock_Run.thy ===== *)
theory Vsock_Run
  imports Vsock_Endpoint
begin

text \<open>
  Runs of the vsock endpoint: how much a batch may send, when an endpoint falls silent, what
  byte stream a peer has received in any reachable state, and the answers to the packets the
  endpoint refuses.
\<close>

section \<open>Backlog\<close>

text \<open>The packets a connection may still cause without new input, and the total over the table.\<close>

definition due :: "connection \<Rightarrow> nat" where
  "due c = (length (responseBytes c) - sent c) + (if (response c = None) = closing c then 1 else 0)"

definition backlog :: "endpoint \<Rightarrow> nat" where
  "backlog e = sum_list (map (due \<circ> snd) (connections e))"

text \<open>A connection with nothing to send: out of credit, or waiting for the request, or finished.\<close>

definition settled :: "endpoint \<Rightarrow> connection \<Rightarrow> bool" where
  "settled e c \<longleftrightarrow> (if sent c < length (responseBytes c) then sendSpace e c = 0
     else response c = None \<longleftrightarrow> \<not> closing c)"

lemma sum_update:
  "go_lookup m k = Some c \<Longrightarrow>
    sum_list (map (f \<circ> snd) (go_put k c' m)) + f c = sum_list (map (f \<circ> snd) m) + (f c' :: nat)"
  by (induction m) (auto split: if_splits)

lemma sum_delete:
  "go_map_ok m \<Longrightarrow> go_lookup m k = Some c \<Longrightarrow>
    sum_list (map (f \<circ> snd) (go_delete k m)) + (f c :: nat) = sum_list (map (f \<circ> snd) m)"
proof (induction m)
  case (Cons a m)
  then show ?case
    by (cases a) (force simp: AList.delete_id split: if_splits)
qed simp

lemma due_advance:
  "n \<le> length (responseBytes c) - sent c \<Longrightarrow> due (advance n c) + n = due c"
  by (simp add: due_def)

lemma sum_pieces: "\<forall>ch \<in> set chunks. ch \<noteq> [] \<Longrightarrow> length chunks \<le> length (concat chunks)"
proof (induction chunks)
  case (Cons ch chunks)
  then have "0 < length ch" and "length chunks \<le> length (concat chunks)" by simp_all
  then show ?case by (simp only: list.size concat.simps length_append)
qed simp

lemma drainOne_due:
  assumes "drainOne e limit c out = (r, out')" "sent c \<le> length (responseBytes c)"
  shows "length out' + (case r of None \<Rightarrow> 0 | Some c' \<Rightarrow> due c') \<le> length out + due c"
proof -
  obtain c1 out1 where sl: "sendLoop e limit c out = (c1, out1)" by fastforce
  obtain chunks where
    out1: "out1 = out @ map (dataPacket e c) chunks" and ne: "\<forall>ch \<in> set chunks. ch \<noteq> []" and
    c1: "c1 = advance (length (concat chunks)) c" and le: "sent c1 \<le> length (responseBytes c)"
    using sendLoop_spec [OF sl assms(2)] by blast
  have "length out1 + due c1 \<le> length out + due c"
    using due_advance [of "length (concat chunks)" c] le sum_pieces [OF ne] assms(2)
    by (simp add: out1 c1 le_diff_conv2)
  moreover have "due c1 = 0 + (if (response c1 = None) = closing c1 then 1 else 0)"
    if "sent c1 = length (responseBytes c1)" using that by (simp add: due_def)
  ultimately show ?thesis
    using assms(1) unfolding drainOne_def sl
    by (auto simp: Let_def due_def split: if_splits)
qed

lemma drainOne_silent:
  assumes d: "drainOne e limit c out = (r, out)" and "sent c \<le> length (responseBytes c)"
    and lim: "int (length out) < limit"
  shows "r = Some c \<and> settled e c"
proof -
  obtain c1 out1 where sl: "sendLoop e limit c out = (c1, out1)" by fastforce
  obtain chunks where out1: "out1 = out @ map (dataPacket e c) chunks"
    and c1: "c1 = advance (length (concat chunks)) c"
    using sendLoop_spec [OF sl assms(2)] by blast
  have "length out1 \<le> length out"
    using d unfolding drainOne_def sl by (auto simp: Let_def split: if_splits)
  then have "chunks = []" by (simp add: out1)
  then have same: "c1 = c" "out1 = out" by (simp_all add: c1 out1)
  have "\<not> canSend e limit c out" using sendLoop_exit [OF sl] by (simp add: same)
  moreover have "r = Some c" "\<not> (response c \<noteq> None \<and> sent c = length (responseBytes c) \<and> \<not> closing c)"
    "\<not> (closing c \<and> response c = None)"
    using d lim unfolding drainOne_def sl same by (auto simp: Let_def split: if_splits)
  ultimately show ?thesis using lim assms(2) by (auto simp: settled_def canSend_def)
qed

lemma drainConns_backlog:
  "drainConns e limit keys out = (e', out') \<Longrightarrow> endpointOk e \<Longrightarrow>
    length out' + backlog e' \<le> length out + backlog e"
proof (induction e limit keys out rule: drainConns.induct)
  case (2 e limit key keys out)
  show ?case
  proof (cases "go_lookup (connections e) key")
    case None
    with "2.prems" "2.IH"(1) [OF None] show ?thesis by simp
  next
    case (Some c)
    obtain r out1 where d: "drainOne e limit c out = (r, out1)" by fastforce
    define e1 where "e1 = (case r of None \<Rightarrow> remove key e | Some c \<Rightarrow> store key c e)"
    have le: "sent c \<le> length (responseBytes c)"
      using endpointOk_conn [OF "2.prems"(2) Some] by (simp add: connOk_def)
    have e1: "endpointOk e1" using drainOne_table [OF "2.prems"(2) Some d e1_def] by blast
    have "backlog e1 + due c = backlog e + (case r of None \<Rightarrow> 0 | Some c' \<Rightarrow> due c')"
      using sum_update [OF Some, of due] sum_delete [OF _ Some, of due] "2.prems"(2)
      by (auto simp: e1_def backlog_def endpointOk_def split: option.split)
    with drainOne_due [OF d le] have step: "length out1 + backlog e1 \<le> length out + backlog e"
      by simp
    show ?thesis
    proof (cases "int (length out1) \<ge> limit")
      case True
      then have "e' = e1" "out' = out1" using "2.prems"(1) Some d by (simp_all add: e1_def Let_def)
      with step show ?thesis by simp
    next
      case False
      then have "drainConns e1 limit keys out1 = (e', out')"
        using "2.prems"(1) Some d by (simp add: e1_def Let_def)
      from "2.IH"(2) [OF Some d [symmetric] refl e1_def False this e1] step show ?thesis by simp
    qed
  qed
qed simp

lemma drainConns_found:
  "go_lookup (connections e) key = Some c \<Longrightarrow> drainOne e limit c out = (r, out1) \<Longrightarrow>
   e1 = (case r of None \<Rightarrow> remove key e | Some c \<Rightarrow> store key c e) \<Longrightarrow>
   drainConns e limit (key # keys) out =
     (if int (length out1) \<ge> limit then (e1, out1) else drainConns e1 limit keys out1)"
  by (simp add: Let_def)

lemma drainConns_silent:
  "drainConns e limit keys out = (e', out) \<Longrightarrow> endpointOk e \<Longrightarrow> distinct keys \<Longrightarrow>
    int (length out) < limit \<Longrightarrow>
    e' = e \<and> (\<forall>k \<in> set keys. \<forall>c. go_lookup (connections e) k = Some c \<longrightarrow> settled e c)"
proof (induction e limit keys out rule: drainConns.induct)
  case (2 e limit key keys out)
  show ?case
  proof (cases "go_lookup (connections e) key")
    case None
    with "2.prems" "2.IH"(1) [OF None] show ?thesis by auto
  next
    case (Some c)
    obtain r out1 where d: "drainOne e limit c out = (r, out1)" by fastforce
    define e1 where "e1 = (case r of None \<Rightarrow> remove key e | Some c \<Rightarrow> store key c e)"
    have le: "sent c \<le> length (responseBytes c)"
      using endpointOk_conn [OF "2.prems"(2) Some] by (simp add: connOk_def)
    from drainOne_table [OF "2.prems"(2) Some d e1_def] obtain new1 where
      e1: "endpointOk e1" and out1: "out1 = out @ new1" by blast
    have run: "(if int (length out1) \<ge> limit then (e1, out1) else drainConns e1 limit keys out1) = (e', out)"
      using "2.prems"(1) drainConns_found [OF Some d e1_def] by simp
    have "out1 = out"
    proof (cases "int (length out1) \<ge> limit")
      case False
      then have "drainConns e1 limit keys out1 = (e', out)" using run by simp
      from drainConns_spec [OF this e1] "2.prems"(3) show ?thesis by (auto simp: out1)
    qed (use run in simp)
    with d have d: "drainOne e limit c out = (r, out)" by simp
    from drainOne_silent [OF d le "2.prems"(4)] have r: "r = Some c" and s: "settled e c" by simp_all
    have "e1 = e" using Some by (simp add: e1_def r)
    then have rest: "drainConns e limit keys out = (e', out)"
      using run "2.prems"(4) \<open>out1 = out\<close> by simp
    have "\<not> int (length out) \<ge> limit" using "2.prems"(4) by simp
    from "2.IH"(2) [OF Some d [symmetric] refl _ this] rest "2.prems" Some r s
    show ?thesis by auto
  qed
qed simp

section \<open>Batches\<close>

lemma drain_length:
  assumes "drain e order limit = (e', out)"
  shows "int (length out) \<le> max 0 limit"
  using assms drainConns_length [of e limit order "[]" e' out]
  by (auto simp: drain_def split: if_splits)

lemma drain_backlog:
  assumes "drain e order limit = (e', out)" "endpointOk e"
  shows "length out + backlog e' \<le> backlog e"
  using assms drainConns_backlog [of e limit order "[]" e' out]
  by (auto simp: drain_def split: if_splits)

lemma drain_silent:
  assumes "drain e order limit = (e', [])" "endpointOk e" "distinct order" "0 < limit"
  shows "e' = e \<and> (\<forall>k \<in> set order. \<forall>c. go_lookup (connections e) k = Some c \<longrightarrow> settled e c)"
  using assms drainConns_silent [of e limit order "[]" e'] by (simp add: drain_def)

text \<open>Draining repeatedly; \<open>orders\<close> is the runtime's choice of iteration order in each table.\<close>

fun drains :: "(endpoint \<Rightarrow> connectionKey list) \<Rightarrow> int \<Rightarrow> nat \<Rightarrow> endpoint \<Rightarrow> endpoint" where
  "drains orders limit 0 e = e"
| "drains orders limit (Suc n) e = drains orders limit n (fst (drain e (orders e) limit))"

definition mapOrder :: "(endpoint \<Rightarrow> connectionKey list) \<Rightarrow> bool" where
  "mapOrder orders \<longleftrightarrow> (\<forall>e. distinct (orders e) \<and> set (orders e) = fst ` set (connections e))"

lemma drains_settle:
  "endpointOk e \<Longrightarrow> mapOrder orders \<Longrightarrow> 0 < limit \<Longrightarrow>
   \<exists>n \<le> backlog e. \<forall>(k, c) \<in> set (connections (drains orders limit n e)).
     settled (drains orders limit n e) c"
proof (induction "backlog e" arbitrary: e rule: less_induct)
  case less
  obtain e' out where d: "drain e (orders e) limit = (e', out)" by fastforce
  have ord: "distinct (orders e)" "set (orders e) = fst ` set (connections e)"
    using less.prems(2) by (auto simp: mapOrder_def)
  show ?case
  proof (cases out)
    case Nil
    have "settled e c" if "(k, c) \<in> set (connections e)" for k c
    proof -
      have "go_lookup (connections e) k = Some c"
        using that less.prems(1) by (simp add: endpointOk_def map_of_eq_Some_iff)
      moreover have "k \<in> set (orders e)" using that ord(2) by force
      ultimately show ?thesis
        using drain_silent [OF d [unfolded Nil] less.prems(1) ord(1) less.prems(3)] by blast
    qed
    then show ?thesis by (intro exI [of _ 0]) auto
  next
    case (Cons p ps)
    then have dec: "backlog e' < backlog e" using drain_backlog [OF d less.prems(1)] by simp
    have "endpointOk e'" using drain_spec [OF d less.prems(1) ord(1)] by blast
    from less.hyps [OF dec this less.prems(2,3)] obtain n where "n \<le> backlog e'"
      "\<forall>(k, c) \<in> set (connections (drains orders limit n e')). settled (drains orders limit n e') c"
      by blast
    with dec d show ?thesis by (intro exI [of _ "Suc n"]) auto
  qed
qed

lemma honestPeer_advance: "honestPeer c \<Longrightarrow> honestPeer (advance n c)"
  by (auto simp: honestPeer_def)

lemma turn_add:
  assumes "turn b c n" "turn b (advance n c) m"
  shows "turn b c (n + m)"
  using assms honestPeer_advance [of c n] by (auto simp: turn_def creditEnd_def)

text \<open>Two batches are to a connection what one longer batch is.\<close>

lemma drained_trans:
  assumes "drained b k m xs m1" "drained b k m1 ys m2"
  shows "drained b k m (xs @ ys) m2"
proof (cases m)
  case None
  then show ?thesis using assms by (auto simp: drained_def)
next
  case (Some c)
  from assms(1) obtain n where n: "turn b c n" "streamTo k xs = slice (responseBytes c) (sent c) (sent c + n)"
    and m1: "m1 = Some (advance n c) \<or> finishes c n \<and> m1 = Some ((advance n c)\<lparr>closing := True\<rparr>) \<or>
        m1 = None \<and> response c = None \<and> closing c"
    by (auto simp: drained_def Some)
  show ?thesis
  proof (cases m1)
    case None
    then show ?thesis using assms n m1 Some by (auto simp: drained_def)
  next
    case (Some c1)
    from assms(2) obtain n2 where n2: "turn b c1 n2" "streamTo k ys = slice (responseBytes c1) (sent c1) (sent c1 + n2)"
      and m2: "m2 = Some (advance n2 c1) \<or> finishes c1 n2 \<and> m2 = Some ((advance n2 c1)\<lparr>closing := True\<rparr>) \<or>
        m2 = None \<and> response c1 = None \<and> closing c1"
      by (auto simp: drained_def Some)
    have c1: "responseBytes c1 = responseBytes c" "response c1 = response c" "sent c1 = sent c + n"
      "honestPeer c1 = honestPeer (advance n c)" "creditEnd b c1 = creditEnd b c"
      using m1 Some by (auto simp: honestPeer_def creditEnd_def)
    have t: "turn b c (n + n2)"
    proof (rule turn_add [OF n(1)])
      show "turn b (advance n c) n2" using n2(1) c1 by (simp add: turn_def creditEnd_def)
    qed
    have str: "streamTo k (xs @ ys) = slice (responseBytes c) (sent c) (sent c + (n + n2))"
      using n(2) n2(2) slice_slice [of "sent c" "sent c + n" "sent c + n + n2" "responseBytes c"]
      by (simp add: c1 add.assoc)
    have after: "m2 = Some (advance (n + n2) c) \<or> finishes c (n + n2) \<and> m2 = Some ((advance (n + n2) c)\<lparr>closing := True\<rparr>) \<or>
        m2 = None \<and> response c = None \<and> closing c"
    proof -
      consider "c1 = advance n c" | "finishes c n" "c1 = (advance n c)\<lparr>closing := True\<rparr>"
        using m1 Some by auto
      then show ?thesis
      proof cases
        case 1
        then show ?thesis using m2 by (auto simp: finishes_def add.assoc)
      next
        case 2
        then have "n2 = 0" using t by (simp add: finishes_def turn_def)
        have "(advance n c)\<lparr>closing := True\<rparr> = advance 0 ((advance n c)\<lparr>closing := True\<rparr>)" by simp
        then show ?thesis using 2 m2 \<open>n2 = 0\<close> by (auto simp: finishes_def)
      qed
    qed
    show ?thesis unfolding \<open>m = Some c\<close> drained_def using t str after by auto
  qed
qed

text \<open>The packets of the repeated drains.\<close>

fun drainsOut :: "(endpoint \<Rightarrow> connectionKey list) \<Rightarrow> int \<Rightarrow> nat \<Rightarrow> endpoint \<Rightarrow> bytes list" where
  "drainsOut orders limit 0 e = []"
| "drainsOut orders limit (Suc n) e =
     snd (drain e (orders e) limit) @ drainsOut orders limit n (fst (drain e (orders e) limit))"

lemma drains_spec:
  "endpointOk e \<Longrightarrow> mapOrder orders \<Longrightarrow> e' = drains orders limit n e \<Longrightarrow>
    endpointOk e' \<and> sameConfig e e' \<and> (\<forall>k. drained (BufferLen e) k (go_lookup (connections e) k)
      (drainsOut orders limit n e) (go_lookup (connections e') k))"
proof (induction n arbitrary: e)
  case 0
  then show ?case by (auto intro!: drained_trivial dest: endpointOk_conn simp: connOk_def)
next
  case (Suc n)
  obtain e1 out where d: "drain e (orders e) limit = (e1, out)" by fastforce
  have "distinct (orders e)" using Suc.prems(2) by (simp add: mapOrder_def)
  from drain_spec [OF d Suc.prems(1) this] have e1: "endpointOk e1" "sameConfig e e1"
    "\<And>k. drained (BufferLen e) k (go_lookup (connections e) k) out (go_lookup (connections e1) k)" by blast+
  from Suc.IH [OF e1(1) Suc.prems(2)] Suc.prems(3) d have e': "endpointOk e'" "sameConfig e1 e'"
    "\<And>k. drained (BufferLen e1) k (go_lookup (connections e1) k) (drainsOut orders limit n e1) (go_lookup (connections e') k)"
    by auto
  have "BufferLen e1 = BufferLen e" using e1(2) by (simp add: sameConfig_def)
  with drained_trans [OF e1(3)] e'(3) have "drained (BufferLen e) k (go_lookup (connections e) k)
      (drainsOut orders limit (Suc n) e) (go_lookup (connections e') k)" for k
    by (simp add: d)
  then show ?case using e' e1(2) by (blast intro: sameConfig_trans)
qed

text \<open>A connection that has nothing more to send: everything is sent, or the peer's credit is used up.\<close>

lemma settled_credit:
  assumes "settled e c" "connOk e k c" "honestPeer c"
  shows "sent c = length (responseBytes c) \<or> creditEnd (BufferLen e) c \<le> sent c"
proof -
  have "sent c \<le> length (responseBytes c)" "txCount c = word_of_nat (sent c)"
    using assms(2) by (simp_all add: connOk_def)
  with sendSpace_credit [of c e] assms(1,3) show ?thesis
    by (auto simp: settled_def split: if_splits)
qed

lemma settled_drained:
  assumes d: "drained (BufferLen e) k (Some c) out m" and e': "endpointOk e'" "sameConfig e e'"
    and m: "m = go_lookup (connections e') k" and s: "\<And>c'. m = Some c' \<Longrightarrow> settled e' c'"
  shows "case m of
      None \<Rightarrow> response c = None \<and> closing c
    | Some c' \<Rightarrow> (response c = None \<longrightarrow> \<not> closing c) \<and>
        response c' = response c \<and> request c' = request c \<and>
        sent c \<le> sent c' \<and> sent c' \<le> length (responseBytes c) \<and>
        streamTo k out = slice (responseBytes c) (sent c) (sent c') \<and>
        (if sent c' < length (responseBytes c) then sendSpace e' c' = 0
         else closing c' = (response c \<noteq> None)) \<and>
        (honestPeer c \<longrightarrow>
           sent c' = max (sent c) (min (length (responseBytes c)) (creditEnd (BufferLen e) c)))"
proof (cases m)
  case None
  then show ?thesis using d by (auto simp: drained_def)
next
  case (Some c')
  from d Some obtain n where n: "turn (BufferLen e) c n" "streamTo k out = slice (responseBytes c) (sent c) (sent c + n)"
    and c': "c' = advance n c \<or> finishes c n \<and> c' = (advance n c)\<lparr>closing := True\<rparr>"
    by (auto simp: drained_def)
  have f: "sent c' = sent c + n" "response c' = response c" "request c' = request c" "responseBytes c' = responseBytes c"
    "creditEnd (BufferLen e) c' = creditEnd (BufferLen e) c" "closing c \<Longrightarrow> closing c'"
    "honestPeer c \<Longrightarrow> honestPeer c'"
    using c' by (auto simp: creditEnd_def honestPeer_def)
  have le: "sent c + n \<le> length (responseBytes c)" using n(1) by (simp add: turn_def)
  have st: "settled e' c'" using s Some by simp
  have ok: "connOk e' k c'" using e'(1) m Some by (metis endpointOk_conn)
  have b: "BufferLen e' = BufferLen e" using e'(2) by (simp add: sameConfig_def)
  have rb: "response c = None \<Longrightarrow> length (responseBytes c) = 0" by (simp add: responseBytes_def)
  have "sent c' = max (sent c) (min (length (responseBytes c)) (creditEnd (BufferLen e) c))" if h: "honestPeer c"
  proof -
    have "n = 0 \<or> sent c + n \<le> creditEnd (BufferLen e) c" using n(1) h by (simp add: turn_def)
    moreover have "sent c + n = length (responseBytes c) \<or> creditEnd (BufferLen e) c \<le> sent c + n"
      using settled_credit [OF st ok f(7) [OF h]] by (simp add: f b)
    ultimately show ?thesis using le f(1) by linarith
  qed
  moreover have "if sent c' < length (responseBytes c) then sendSpace e' c' = 0 else closing c' = (response c \<noteq> None)"
    using st f by (auto simp: settled_def split: if_splits)
  moreover have "response c = None \<longrightarrow> \<not> closing c"
    using st f rb le by (auto simp: settled_def split: if_splits)
  ultimately show ?thesis using n(2) f le Some by simp
qed

section \<open>Runs\<close>

text \<open>
  A run of the endpoint as the device drives it: received packets, batches and resets, in any
  order. Beside the endpoint the run keeps, for every key, the bytes the peer has sent to its
  current connection (\<open>got\<close>) and the bytes it has been sent (\<open>delivered\<close>). A packet that
  \<open>handle\<close> refuses with an error ends \<^verbatim>\<open>Serve\<close>, so no step follows it.
\<close>

record run =
  ep :: endpoint
  got :: "connectionKey \<Rightarrow> bytes"
  delivered :: "connectionKey \<Rightarrow> bytes"

definition extend :: "endpoint \<Rightarrow> (connectionKey \<Rightarrow> bytes) \<Rightarrow> (connectionKey \<Rightarrow> bytes) \<Rightarrow> connectionKey \<Rightarrow> bytes" where
  "extend e old new k = (if go_lookup (connections e) k = None then [] else old k @ new k)"

inductive vsockStep :: "run \<Rightarrow> run \<Rightarrow> bool" where
  packet: "handle (ep s) order p = (e', Inr out) \<Longrightarrow> distinct order \<Longrightarrow>
    vsockStep s \<lparr>ep = e', got = extend (ep s) (got s) (dataFrom (ep s) p),
      delivered = extend (ep s) (delivered s) (\<lambda>k. streamTo k out)\<rparr>"
| batch: "drain (ep s) order limit = (e', out) \<Longrightarrow> distinct order \<Longrightarrow>
    vsockStep s \<lparr>ep = e', got = got s,
      delivered = extend (ep s) (delivered s) (\<lambda>k. streamTo k out)\<rparr>"
| clear: "vsockStep s (s\<lparr>ep := reset (ep s)\<rparr>)"

inductive vsockReach :: "u64 \<Rightarrow> u32 \<Rightarrow> (bytes \<Rightarrow> bytes option) option \<Rightarrow> run \<Rightarrow> bool"
  for cid port h where
  start: "vsockReach cid port h \<lparr>ep = NewEndpoint cid port h, got = (\<lambda>_. []), delivered = (\<lambda>_. [])\<rparr>"
| step: "vsockReach cid port h s \<Longrightarrow> vsockStep s t \<Longrightarrow> vsockReach cid port h t"

inductive_cases vsockStepE: "vsockStep s t"

text \<open>
  A response is always a handler's answer to a prefix of the received bytes that holds a complete
  request header.
\<close>

definition answered :: "(bytes \<Rightarrow> bytes option) option \<Rightarrow> connection \<Rightarrow> bool" where
  "answered H c \<longleftrightarrow> response c \<noteq> None \<and> (\<exists>h p. H = Some h \<and> prefix p (request c) \<and> contains p crlf2 \<and> h p = response c)"

lemma continues_answered:
  assumes "continues H inp k before out c'" "response c' \<noteq> None"
  shows "answered H c' \<or>
    (\<exists>c. before = Some c \<and> response c \<noteq> None \<and> (\<forall>H'. answered H' c \<longrightarrow> answered H' c'))"
  using assms by (auto simp: continues_def newAnswer_def answered_def split: option.splits)

text \<open>The invariant of a run in which the endpoint had the handlers \<open>Hs\<close>.\<close>

definition historyOk :: "(bytes \<Rightarrow> bytes option) option set \<Rightarrow> run \<Rightarrow> bool" where
  "historyOk Hs s \<longleftrightarrow> endpointOk (ep s) \<and>
     (\<forall>k c. go_lookup (connections (ep s)) k = Some c \<longrightarrow>
        got s k = request c \<and> delivered s k = take (sent c) (responseBytes c) \<and>
        (response c \<noteq> None \<longrightarrow> (\<exists>H \<in> Hs. answered H c)))"

definition runOk :: "u64 \<Rightarrow> u32 \<Rightarrow> (bytes \<Rightarrow> bytes option) option \<Rightarrow> run \<Rightarrow> bool" where
  "runOk cid port h s \<longleftrightarrow> sameConfig (NewEndpoint cid port h) (ep s) \<and> historyOk {h} s"

lemma take_slice: "i \<le> j \<Longrightarrow> take i xs @ slice xs i j = take j xs"
  using slice_slice [of 0 i j xs] by (simp add: slice_def)

lemma continues_run:
  assumes "continues H inp k (go_lookup (connections e) k) out c'"
    and "\<And>c. go_lookup (connections e) k = Some c \<Longrightarrow>
      g k = request c \<and> d k = take (sent c) (responseBytes c) \<and> sent c \<le> length (responseBytes c)"
  shows "extend e g (\<lambda>_. inp) k = request c' \<and>
    extend e d (\<lambda>k. streamTo k out) k = take (sent c') (responseBytes c')"
proof (cases "go_lookup (connections e) k")
  case None
  with assms(1) show ?thesis by (simp add: continues_def extend_def)
next
  case (Some c)
  have c': "sent c \<le> sent c'" "streamTo k out = slice (responseBytes c') (sent c) (sent c')"
    "response c \<noteq> None \<longrightarrow> response c' = response c" "request c' = request c @ inp"
    using assms(1) Some by (auto simp: continues_def newAnswer_def)
  have "take (sent c) (responseBytes c) = take (sent c) (responseBytes c')"
    using c'(3) assms(2) [OF Some] by (cases "response c") (auto simp: responseBytes_def)
  then show ?thesis using Some assms(2) [OF Some] c' by (simp add: extend_def take_slice)
qed

lemma drained_continues:
  "drained b k m out (Some c') \<Longrightarrow> continues H [] k m out c'"
  by (auto simp: drained_def continues_def split: option.splits)

lemma vsockStep_history:
  assumes "vsockStep s t" "historyOk Hs s" "Handler (ep s) \<in> Hs"
  shows "historyOk Hs t \<and> sameConfig (ep s) (ep t)"
proof -
  have ok: "endpointOk (ep s)"
    and hist: "\<And>k c. go_lookup (connections (ep s)) k = Some c \<Longrightarrow>
      got s k = request c \<and> delivered s k = take (sent c) (responseBytes c) \<and>
      sent c \<le> length (responseBytes c)"
    and ans: "\<And>k c. go_lookup (connections (ep s)) k = Some c \<Longrightarrow> response c \<noteq> None \<Longrightarrow> \<exists>H \<in> Hs. answered H c"
    using assms(2) endpointOk_conn by (auto simp: historyOk_def connOk_def)
  note cont = continues_run [where e = "ep s" and g = "got s" and d = "delivered s", OF _ hist]
  have new: "\<exists>H \<in> Hs. answered H c'"
    if "continues (Handler (ep s)) inp k (go_lookup (connections (ep s)) k) out c'" "response c' \<noteq> None" for inp k out c'
    using continues_answered [OF that] ans assms(3) by blast
  show ?thesis using assms(1)
  proof (elim vsockStepE, goal_cases)
    case (1 order p e' out)
    from handle_step [OF 1(2) ok 1(3)] have e': "endpointOk e'" "sameConfig (ep s) e'"
      "\<And>k c'. go_lookup (connections e') k = Some c' \<Longrightarrow>
        continues (Handler (ep s)) (dataFrom (ep s) p k) k (go_lookup (connections (ep s)) k) out c'"
      by (simp_all add: stepOk_def)
    with cont [OF e'(3)] new [OF e'(3)] 1(1) show ?thesis
      by (auto simp: historyOk_def extend_def)
  next
    case (2 order limit e' out)
    from drain_spec [OF 2(2) ok 2(3)] have e': "endpointOk e'" "sameConfig (ep s) e'"
      "\<And>k. drained (BufferLen (ep s)) k (go_lookup (connections (ep s)) k) out (go_lookup (connections e') k)"
      by simp_all
    have c: "continues (Handler (ep s)) [] k (go_lookup (connections (ep s)) k) out c'"
      if "go_lookup (connections e') k = Some c'" for k c'
      using e'(3) [of k] that by (auto intro: drained_continues)
    have g: "got s k = request c'" if l: "go_lookup (connections e') k = Some c'" for k c'
      using cont [OF c [OF l]] e'(3) [of k] l by (auto simp: extend_def drained_def split: if_splits)
    from e' cont [OF c] new [OF c] g 2(1) show ?thesis
      by (auto simp: historyOk_def)
  next
    case 3
    then show ?thesis
      by (simp add: historyOk_def endpointOk_reset) (simp add: reset_def sameConfig_def)
  qed
qed

lemma history_start: "historyOk Hs \<lparr>ep = NewEndpoint cid port h, got = (\<lambda>_. []), delivered = (\<lambda>_. [])\<rparr>"
  by (simp add: historyOk_def endpointOk_new) (simp add: NewEndpoint_def)

lemma vsockReach_ok: "vsockReach cid port h s \<Longrightarrow> runOk cid port h s"
proof (induction rule: vsockReach.induct)
  case start
  then show ?case by (simp add: runOk_def history_start)
next
  case (step s t)
  then have "Handler (ep s) = h" by (simp add: runOk_def sameConfig_def NewEndpoint_def)
  with step vsockStep_history [of s t "{h}"] show ?case by (auto simp: runOk_def intro: sameConfig_trans)
qed

section \<open>Errors and packet sizes\<close>

lemma thenDrain_Inr: "snd (thenDrain e order out) \<noteq> Inl err"
  by (simp add: thenDrain_def split: prod.split)

lemma handle_error_iff:
  assumes "Handler e \<noteq> None"
  shows "(snd (handle e order p) = Inl err \<longleftrightarrow>
      (err = ShortPacket \<and> length p < HeaderSize \<or>
       err = InvalidPayloadLength \<and> HeaderSize \<le> length p \<and>
         length p < HeaderSize + unat (Len (header_of_bytes (slice p 0 HeaderSize))))) \<and>
    (snd (handle e order p) = Inl err \<longrightarrow> fst (handle e order p) = e)"
proof -
  have rw: "snd (handleReadWrite e' order k c h pl) \<noteq> Inl err"
    if "Handler e' \<noteq> None" for e' k c h pl
    using that thenDrain_Inr by (auto simp: handleReadWrite_eq Let_def split: option.split)
  have dec: "snd (handle e order p) = Inl err \<longleftrightarrow> decodePacket p = Inl err"
  proof (cases "decodePacket p")
    case (Inr hp)
    obtain h pl where "hp = (h, pl)" by fastforce
    with Inr assms have "snd (handle e order p) \<noteq> Inl err"
      by (simp add: handle_def Let_def thenDrain_Inr rw split: option.split)
    with Inr show ?thesis by simp
  qed (simp add: handle_def)
  moreover have "decodePacket p = Inl err \<longleftrightarrow> err = ShortPacket \<and> length p < HeaderSize \<or>
       err = InvalidPayloadLength \<and> HeaderSize \<le> length p \<and>
         length p < HeaderSize + unat (Len (header_of_bytes (slice p 0 HeaderSize)))"
    by (auto simp: decodePacket_def Let_def)
  moreover have "snd (handle e order p) = Inl err \<longrightarrow> fst (handle e order p) = e"
    unfolding dec by (simp add: handle_def)
  ultimately show ?thesis by blast
qed

text \<open>Every packet fits the device's packet buffer, whatever the state.\<close>

definition fitsBuffer :: "bytes \<Rightarrow> bool" where
  "fitsBuffer p \<longleftrightarrow> length p \<le> HeaderSize + MaxPacketPayload"

lemma fitsBuffer_empty [simp]: "fitsBuffer (encodePacket h [])" "fitsBuffer (resetFor h)"
  by (simp_all add: fitsBuffer_def resetFor_def)

lemma sendLoop_fits:
  "sendLoop e limit c out = (c', out') \<Longrightarrow> \<forall>p \<in> set out. fitsBuffer p \<Longrightarrow> \<forall>p \<in> set out'. fitsBuffer p"
proof (induction c out rule: sendLoop_rounds [of e limit])
  case (stop c out)
  then show ?case by (simp add: sendLoop_stop)
next
  case (go c out)
  have "fitsBuffer (dataPacket e c (piece e c))"
    using pieceLen_bounds(3,5) [OF go(1)] by (simp add: fitsBuffer_def dataPacket_def)
  with go show ?case by (simp add: sendLoop_go)
qed

lemma drainOne_fits:
  assumes "drainOne e limit c out = (r, out')" "\<forall>p \<in> set out. fitsBuffer p"
  shows "\<forall>p \<in> set out'. fitsBuffer p"
proof -
  obtain c1 out1 where sl: "sendLoop e limit c out = (c1, out1)" by fastforce
  show ?thesis
    using assms(1) sendLoop_fits [OF sl assms(2)] unfolding drainOne_def sl
    by (auto simp: Let_def split: if_splits)
qed

lemma drainConns_fits:
  "drainConns e limit keys out = (e', out') \<Longrightarrow> \<forall>p \<in> set out. fitsBuffer p \<Longrightarrow> \<forall>p \<in> set out'. fitsBuffer p"
proof (induction e limit keys out rule: drainConns.induct)
  case (2 e limit key keys out)
  show ?case
  proof (cases "go_lookup (connections e) key")
    case None
    with "2.prems" "2.IH"(1) [OF None] show ?thesis by simp
  next
    case (Some c)
    obtain r out1 where d: "drainOne e limit c out = (r, out1)" by fastforce
    define e1 where "e1 = (case r of None \<Rightarrow> remove key e | Some c \<Rightarrow> store key c e)"
    have f: "\<forall>p \<in> set out1. fitsBuffer p" using drainOne_fits [OF d "2.prems"(2)] .
    show ?thesis
    proof (cases "int (length out1) \<ge> limit")
      case True
      with "2.prems"(1) drainConns_found [OF Some d e1_def] f show ?thesis by simp
    next
      case False
      then have "drainConns e1 limit keys out1 = (e', out')"
        using "2.prems"(1) drainConns_found [OF Some d e1_def] by simp
      from "2.IH"(2) [OF Some d [symmetric] refl e1_def False this f] show ?thesis .
    qed
  qed
qed simp

lemma drain_fits: "drain e order limit = (e', out) \<Longrightarrow> p \<in> set out \<Longrightarrow> fitsBuffer p"
  using drainConns_fits [of e limit order "[]" e' out] by (auto simp: drain_def split: if_splits)

lemma thenDrain_fits:
  "thenDrain e order out = (e', Inr out') \<Longrightarrow> \<forall>p \<in> set out. fitsBuffer p \<Longrightarrow> \<forall>p \<in> set out'. fitsBuffer p"
  by (auto simp: thenDrain_def split: prod.splits dest: drain_fits)

lemma handleReadWrite_fits:
  "handleReadWrite e order k c h pl = (e', Inr out) \<Longrightarrow> \<forall>p \<in> set out. fitsBuffer p"
  by (auto simp: handleReadWrite_eq creditReply_def Let_def split: if_splits option.splits
      dest: thenDrain_fits)

lemma handle_fits:
  assumes "handle e order p = (e', Inr out)"
  shows "\<forall>p \<in> set out. fitsBuffer p"
proof (cases "decodePacket p")
  case (Inr hp)
  obtain h pl where "hp = (h, pl)" by fastforce
  with assms Inr show ?thesis
    by (auto simp: handle_def Let_def split: if_splits option.splits
        dest: thenDrain_fits handleReadWrite_fits)
qed (use assms in \<open>simp add: handle_def\<close>)

end
