(* ===== verification/Vsock_Properties.thy ===== *)
theory Vsock_Properties
  imports Vsock_Run
begin

text \<open>
  The properties of the vsock endpoint (\<^verbatim>\<open>kernel/vsock/protocol.go\<close>), each with a concrete
  run of it: the host peer of \<^verbatim>\<open>kernel/vsock/protocol_test.go\<close> opens a stream and sends a request.
\<close>

section \<open>Packets the endpoint emits\<close>

text \<open>A packet of this endpoint: a stream packet from its address, within the device's buffer.\<close>

definition wellFormed :: "endpoint \<Rightarrow> bytes \<Rightarrow> bool" where
  "wellFormed e p \<longleftrightarrow> (case decodePacket p of Inl _ \<Rightarrow> False
     | Inr (h, payload) \<Rightarrow> HType h = TypeStream \<and> SrcCID h = CID e \<and> SrcPort h = Port e \<and>
         length payload \<le> MaxPacketPayload \<and> p = encodePacket h payload)"

lemma wellFormed_reply:
  "length pl \<le> MaxPacketPayload \<Longrightarrow> wellFormed e (encodePacket (replyHeader e c op fl) pl)"
proof -
  assume len: "length pl \<le> MaxPacketPayload"
  then have "length pl < 2 ^ 32" by (simp add: MaxPacketPayload_def)
  with len show ?thesis
    by (simp add: wellFormed_def decode_encode) (simp add: encodePacket_eq)
qed

lemma wellFormed_cong: "sameConfig e e' \<Longrightarrow> wellFormed e' = wellFormed e"
  by (auto simp: fun_eq_iff wellFormed_def sameConfig_def split: sum.split)

lemma drainOne_wellFormed:
  assumes "drainOne e limit c out = (r, out')" "sent c \<le> length (responseBytes c)"
    and "\<forall>p \<in> set out. wellFormed e p"
  shows "\<forall>p \<in> set out'. wellFormed e p"
proof -
  obtain c1 out1 where sl: "sendLoop e limit c out = (c1, out1)" by fastforce
  obtain chunks where out1: "out1 = out @ map (dataPacket e c) chunks"
    and len: "\<forall>ch \<in> set chunks. length ch \<le> MaxPacketPayload"
    using sendLoop_spec [OF sl assms(2)] by blast
  have "\<forall>p \<in> set out1. wellFormed e p"
    using assms(3) len by (auto simp: out1 dataPacket_def intro: wellFormed_reply)
  moreover have "wellFormed e (encodePacket (replyHeader e x op fl) [])" for x op fl
    by (rule wellFormed_reply) simp
  ultimately show ?thesis
    using assms(1) unfolding drainOne_def sl by (auto simp: Let_def split: if_splits)
qed

lemma drainConns_wellFormed:
  "drainConns e limit keys out = (e', out') \<Longrightarrow> endpointOk e \<Longrightarrow>
    \<forall>p \<in> set out. wellFormed e p \<Longrightarrow> \<forall>p \<in> set out'. wellFormed e p"
proof (induction e limit keys out rule: drainConns.induct)
  case (2 e limit key keys out)
  show ?case
  proof (cases "go_lookup (connections e) key")
    case None
    with "2.prems" "2.IH"(1) [OF None] show ?thesis by simp
  next
    case (Some c)
    obtain r out1 where d: "drainOne e limit c out = (r, out1)" by fastforce
    define e1 where "e1 = (case r of None \<Rightarrow> remove key e | Some c \<Rightarrow> store key c e)"
    have "sent c \<le> length (responseBytes c)"
      using endpointOk_conn [OF "2.prems"(2) Some] by (simp add: connOk_def)
    with d "2.prems"(3) have wf: "\<forall>p \<in> set out1. wellFormed e p" by (blast dest: drainOne_wellFormed)
    have e1: "endpointOk e1" "sameConfig e e1"
      using drainOne_table [OF "2.prems"(2) Some d e1_def] by blast+
    show ?thesis
    proof (cases "int (length out1) \<ge> limit")
      case True
      with "2.prems"(1) drainConns_found [OF Some d e1_def] wf show ?thesis by simp
    next
      case False
      then have "drainConns e1 limit keys out1 = (e', out')"
        using "2.prems"(1) drainConns_found [OF Some d e1_def] by simp
      from "2.IH"(2) [OF Some d [symmetric] refl e1_def False this e1(1)] wf
      show ?thesis by (simp add: wellFormed_cong [OF e1(2)])
    qed
  qed
qed simp

section \<open>What one call returns\<close>

lemma wellFormed_fits: "wellFormed e p \<Longrightarrow> length p \<le> HeaderSize + MaxPacketPayload"
  by (auto simp: wellFormed_def split: sum.splits dest!: arg_cong [where f = length])

lemma drain_wellFormed: "drain e order limit = (e', out) \<Longrightarrow> endpointOk e \<Longrightarrow> \<forall>p \<in> set out. wellFormed e p"
  using drainConns_wellFormed [of e limit order "[]" e' out] by (auto simp: drain_def split: if_splits)

text \<open>What \<open>handle\<close> returns: at most one packet of its own, then a batch. Its own packet is from the
  endpoint's address, or resets the sender of the packet.\<close>

definition oneThenBatch :: "endpoint \<Rightarrow> connectionKey list \<Rightarrow> endpoint \<times> (vsock_error + bytes list) \<Rightarrow> bytes list \<Rightarrow> bool" where
  "oneThenBatch e order r resets \<longleftrightarrow> (\<forall>e' out. r = (e', Inr out) \<longrightarrow> (\<exists>reply batch e1. out = reply @ batch \<and> length reply \<le> 1 \<and>
     (batch = [] \<or> drain e1 order 8 = (e', batch)) \<and> length batch \<le> 8 \<and>
     (\<forall>q \<in> set reply. wellFormed e q \<or> q \<in> set resets) \<and> (\<forall>q \<in> set batch. wellFormed e q)))"

lemma oneThenBatch_thenDrain:
  assumes "endpointOk e1" "sameConfig e e1" "out = [] \<or> (\<exists>c op fl. out = [encodePacket (replyHeader e c op fl) []])"
  shows "oneThenBatch e order (thenDrain e1 order out) resets"
proof -
  obtain e' batch where d: "drain e1 order 8 = (e', batch)" by fastforce
  have "length batch \<le> 8" using drain_length [OF d] by simp
  moreover have "\<forall>q \<in> set batch. wellFormed e q"
    using drain_wellFormed [OF d assms(1)] wellFormed_cong [OF assms(2)] by simp
  moreover have "length out \<le> 1" "\<forall>q \<in> set out. wellFormed e q"
    using assms(3) wellFormed_reply [of "[]" e] by auto
  ultimately show ?thesis unfolding oneThenBatch_def thenDrain_def d
    by (intro allI impI exI [of _ out] exI [of _ batch] exI [of _ e1]) (auto simp: d)
qed

lemma oneThenBatch_one: "set out \<subseteq> set resets \<Longrightarrow> length out \<le> 1 \<Longrightarrow> oneThenBatch e order (e', Inr out) resets"
  unfolding oneThenBatch_def by (intro allI impI exI [of _ out] exI [of _ "[]"]) auto

lemma oneThenBatch_error: "oneThenBatch e order (e', Inl err) resets"
  by (simp add: oneThenBatch_def)

lemma creditReply_cases: "creditReply e c = [] \<or> (\<exists>c' op fl. creditReply e c = [encodePacket (replyHeader e c' op fl) []])"
  by (auto simp: creditReply_def)

lemma handleReadWrite_batch:
  assumes "endpointOk e" "connOk e k c" "go_lookup (connections e) k \<noteq> None"
  shows "oneThenBatch e order (handleReadWrite (store k c e) order k c h pl) [resetFor h]"
proof -
  note [simp] = replyHeader_store
  have ok: "endpointOk (store k c1 e)" if "connOk e k c1" for c1 using assms(1,3) that by (simp add: endpointOk_store)
  have step: "oneThenBatch e order (thenDrain (store k c1 e) order (creditReply e c2)) [resetFor h]" if "connOk e k c1" for c1 c2
    using ok [OF that] creditReply_cases [of e c2] by (intro oneThenBatch_thenDrain) simp_all
  show ?thesis
  proof (cases "length (request c) + length pl > unat (BufferLen e)")
    case True
    then show ?thesis by (simp add: handleReadWrite_eq oneThenBatch_one)
  next
    case False
    then have r: "connOk e k (received pl c)" using connOk_received [OF assms(2)] by simp
    moreover have "connOk e k ((received pl c)\<lparr>response := x\<rparr>)" if "response c = None" for x
      using connOk_answer [OF r] that by simp
    ultimately show ?thesis using False step
      by (auto simp: handleReadWrite_eq Let_def oneThenBatch_error split: option.split)
  qed
qed

lemma handle_batch:
  assumes "endpointOk e"
  shows "oneThenBatch e order (handle e order p)
    (case decodePacket p of Inl _ \<Rightarrow> [] | Inr (h, pl) \<Rightarrow> [resetFor h])"
proof (cases "decodePacket p")
  case (Inl err)
  then show ?thesis by (simp add: handle_def oneThenBatch_error)
next
  case (Inr hp)
  obtain h pl where hp: "hp = (h, pl)" by fastforce
  define k where "k = ConnectionKey (SrcCID h) (SrcPort h)"
  have ok: "endpointOk (store k c1 e)"
    if "connOk e k c1" "go_lookup (connections e) k \<noteq> None \<or> int (length (connections e)) < MaxConns e" for c1
    using assms that by (simp add: endpointOk_store)
  have new: "connOk e k (updatePeer \<lparr>remoteCID = SrcCID h, remotePort = SrcPort h, peerAlloc = 0, peerFwd = 0,
     txCount = 0, rxFwd = 0, request = [], response = None, sent = 0, closing = False\<rparr> h)"
    by (simp add: connOk_def k_def responseBytes_def)
  have old: "connOk e k (updatePeer c h)" if "go_lookup (connections e) k = Some c" for c
    using endpointOk_conn [OF assms that] by simp
  have td: "oneThenBatch e order (thenDrain (store k c1 e) order out) [resetFor h]"
    if "connOk e k c1" "go_lookup (connections e) k \<noteq> None \<or> int (length (connections e)) < MaxConns e"
      "out = [] \<or> (\<exists>c op fl. out = [encodePacket (replyHeader e c op fl) []])" for c1 out
    using ok [OF that(1,2)] that(3) by (intro oneThenBatch_thenDrain) auto
  have goal: "oneThenBatch e order (handle e order p) [resetFor h]"
  proof (cases "HType h \<noteq> TypeStream \<or> DstCID h \<noteq> CID e \<or> DstPort h \<noteq> Port e")
    case True
    then show ?thesis by (simp add: handle_def Inr hp oneThenBatch_one)
  next
    case addr: False
    show ?thesis
    proof (cases "go_lookup (connections e) k")
      case None
      then show ?thesis using addr new
        by (auto simp: handle_def Inr hp Let_def simp flip: k_def intro!: oneThenBatch_one td)
    next
      case (Some c)
      then show ?thesis using addr old [OF Some] td [OF old [OF Some]] td [of "(updatePeer c h)\<lparr>closing := True\<rparr>"]
          handleReadWrite_batch [OF assms old [OF Some]]
        by (auto simp: handle_def Inr hp Let_def simp flip: k_def intro!: oneThenBatch_one)
    qed
  qed
  then show ?thesis by (simp add: Inr hp)
qed

section \<open>A host peer\<close>

text \<open>The packets and the fixed answer of \<^verbatim>\<open>protocol_test.go\<close>, used as concrete inputs.\<close>

definition hostPacket :: "u16 \<Rightarrow> bytes \<Rightarrow> bytes" where
  "hostPacket op payload = encodePacket \<lparr>SrcCID = 2, DstCID = 3, SrcPort = 49152, DstPort = 4040,
     Len = 0, HType = TypeStream, Op = op, Flags = 0, BufAlloc = DefaultBuffer, FwdCnt = 0\<rparr> payload"

definition hostKey :: connectionKey where
  "hostKey = ConnectionKey 2 49152"

definition testHandler :: "bytes \<Rightarrow> bytes option" where
  "testHandler req = Some (ascii ''HTTP/1.1 204 No Content'' @ crlf2)"

definition testEndpoint :: endpoint where
  "testEndpoint = NewEndpoint 3 4040 (Some testHandler)"

definition openConn :: connection where
  "openConn = \<lparr>remoteCID = 2, remotePort = 49152, peerAlloc = DefaultBuffer, peerFwd = 0, txCount = 0,
     rxFwd = 0, request = [], response = None, sent = 0, closing = False\<rparr>"

lemmas eval_endpoint = handle_def hostPacket_def decode_encode NewEndpoint_def op_defs TypeStream_def
  thenDrain_def drain_def store_def remove_def drainOne_def responseBytes_def
  updatePeer_def DefaultMaxConns_def testEndpoint_def hostKey_def openConn_def

lemma open_test:
  "handle testEndpoint [hostKey] (hostPacket OpRequest []) =
     (testEndpoint\<lparr>connections := [(hostKey, openConn)]\<rparr>,
      Inr [encodePacket (replyHeader testEndpoint openConn OpResponse 0) []])"
  by (simp add: eval_endpoint sendLoop.simps Let_def replyHeader_def)

lemma length_crlf2 [simp]: "length crlf2 = 4"
  by (simp add: crlf2_def)

lemma contains_crlf2: "contains crlf2 crlf2"
  by (simp add: contains_def crlf2_def)

definition readyConn :: connection where
  "readyConn = openConn\<lparr>request := crlf2, rxFwd := 4, response := testHandler crlf2\<rparr>"

lemma handle_ready:
  "handle (testEndpoint\<lparr>connections := [(hostKey, openConn)]\<rparr>) [hostKey] (hostPacket OpReadWrite crlf2) =
     thenDrain (testEndpoint\<lparr>connections := [(hostKey, readyConn)]\<rparr>) [hostKey] []"
  by (simp add: handle_def hostPacket_def decode_encode op_defs TypeStream_def updatePeer_def store_def
      testEndpoint_def NewEndpoint_def hostKey_def openConn_def readyConn_def handleReadWrite_eq
      contains_crlf2 received_def creditReply_def testHandler_def DefaultBuffer_def Let_def)

lemma sendLoop_ready:
  "sendLoop e 8 readyConn [] = (advance 27 readyConn, [dataPacket e readyConn (the (testHandler crlf2))])"
  if "BufferLen e = DefaultBuffer"
proof -
  have "sendSpace e readyConn = DefaultBuffer"
    using that by (simp add: sendSpace_def readyConn_def openConn_def Let_def DefaultBuffer_def)
  then have "canSend e 8 readyConn []" and "pieceLen e readyConn = 27"
    by (simp_all add: canSend_def pieceLen_def readyConn_def openConn_def responseBytes_def
        testHandler_def MaxPacketPayload_def DefaultBuffer_def)
  then have "sendLoop e 8 readyConn [] =
      sendLoop e 8 (advance 27 readyConn) [dataPacket e readyConn (piece e readyConn)]"
    by (simp add: sendLoop_go)
  also have "\<dots> = (advance 27 readyConn, [dataPacket e readyConn (piece e readyConn)])"
    by (rule sendLoop_stop)
      (simp add: canSend_def readyConn_def openConn_def responseBytes_def testHandler_def)
  finally show ?thesis
    using \<open>pieceLen e readyConn = 27\<close>
    by (simp add: piece_def readyConn_def openConn_def responseBytes_def testHandler_def slice_def)
qed

definition answeredConn :: connection where
  "answeredConn = (advance 27 readyConn)\<lparr>closing := True\<rparr>"

definition readyEndpoint :: endpoint where
  "readyEndpoint = testEndpoint\<lparr>connections := [(hostKey, readyConn)]\<rparr>"

definition answerPackets :: "bytes list" where
  "answerPackets = [encodePacket (replyHeader testEndpoint readyConn OpReadWrite 0) (the (testHandler crlf2)),
     encodePacket (replyHeader testEndpoint readyConn OpShutdown 3) []]"

lemma drain_ready:
  "drain readyEndpoint [hostKey] 8 = (testEndpoint\<lparr>connections := [(hostKey, answeredConn)]\<rparr>, answerPackets)"
proof -
  have r: "response readyConn = testHandler crlf2" "closing readyConn = False" "sent readyConn = 0"
    "length (responseBytes readyConn) = 27" "testHandler crlf2 \<noteq> None"
    by (simp_all add: readyConn_def openConn_def responseBytes_def testHandler_def)
  have "drainOne readyEndpoint 8 readyConn [] = (Some answeredConn, answerPackets)"
    unfolding drainOne_def by (subst sendLoop_ready)
      (simp_all add: r answeredConn_def dataPacket_def testEndpoint_def NewEndpoint_def Let_def
        ShutdownReceive_def ShutdownSend_def replyHeader_def readyEndpoint_def answerPackets_def)
  then show ?thesis
    by (simp add: readyEndpoint_def answerPackets_def drain_def store_def Let_def)
qed

lemma answer_test:
  "handle (testEndpoint\<lparr>connections := [(hostKey, openConn)]\<rparr>) [hostKey] (hostPacket OpReadWrite crlf2) =
     (testEndpoint\<lparr>connections := [(hostKey, answeredConn)]\<rparr>, Inr answerPackets)"
  using drain_ready by (simp add: handle_ready thenDrain_def readyEndpoint_def)

lemma readyEndpoint_ok: "endpointOk readyEndpoint"
  by (simp add: endpointOk_def readyEndpoint_def testEndpoint_def NewEndpoint_def connOk_def
      readyConn_def openConn_def hostKey_def DefaultBuffer_def DefaultMaxConns_def
      responseBytes_def crlf2_def)

text \<open>Three steps of a run: the handshake, the request, and a batch.\<close>

definition run0 :: run where
  "run0 = \<lparr>ep = testEndpoint, got = (\<lambda>_. []), delivered = (\<lambda>_. [])\<rparr>"

definition run1 :: run where
  "run1 = \<lparr>ep = testEndpoint\<lparr>connections := [(hostKey, openConn)]\<rparr>,
     got = extend testEndpoint (\<lambda>_. []) (dataFrom testEndpoint (hostPacket OpRequest [])),
     delivered = extend testEndpoint (\<lambda>_. []) (\<lambda>k. streamTo k
       [encodePacket (replyHeader testEndpoint openConn OpResponse 0) []])\<rparr>"

definition run2 :: run where
  "run2 = \<lparr>ep = testEndpoint\<lparr>connections := [(hostKey, answeredConn)]\<rparr>,
     got = extend (ep run1) (got run1) (dataFrom (ep run1) (hostPacket OpReadWrite crlf2)),
     delivered = extend (ep run1) (delivered run1) (\<lambda>k. streamTo k answerPackets)\<rparr>"

lemma reach_run2: "vsockReach 3 4040 (Some testHandler) run2"
proof -
  have "vsockReach 3 4040 (Some testHandler) run0"
    using vsockReach.start [of 3 4040 "Some testHandler"] by (simp add: run0_def testEndpoint_def)
  moreover have "vsockStep run0 run1"
    using vsockStep.packet [of run0 "[hostKey]" "hostPacket OpRequest []"] open_test
    by (simp add: run0_def run1_def)
  moreover have "vsockStep run1 run2"
    using vsockStep.packet [of run1 "[hostKey]" "hostPacket OpReadWrite crlf2"] answer_test
    by (simp add: run1_def run2_def)
  ultimately show ?thesis by (blast intro: vsockReach.step)
qed

lemma lookup_run2: "go_lookup (connections (ep run2)) hostKey = Some answeredConn"
  by (simp add: run2_def)

section \<open>Properties\<close>

text \<open>C1: in every reachable state the bytes sent to a connected peer are exactly the first \<open>sent\<close>
  bytes of its response, in order, without loss or repetition, and the response is the handler's
  answer to a prefix of what that peer sent that holds a complete request header.\<close>

theorem vsock_stream_integrity:
  assumes "vsockReach cid port (Some f) s" and "go_lookup (connections (ep s)) k = Some c"
  shows "delivered s k = take (sent c) (responseBytes c) \<and>
    (\<forall>r. response c = Some r \<longrightarrow> (\<exists>p. prefix p (got s k) \<and> contains p crlf2 \<and> f p = Some r))"
proof -
  have ok: "runOk cid port (Some f) s" using assms(1) by (rule vsockReach_ok)
  have "response c = Some r \<Longrightarrow> \<exists>p. prefix p (request c) \<and> contains p crlf2 \<and> f p = Some r" for r
    using ok assms(2) by (force simp: runOk_def historyOk_def answered_def)
  with ok assms(2) show ?thesis by (auto simp: runOk_def historyOk_def)
qed

theorem vsock_stream_integrity_witness:
  "delivered run2 hostKey = take (sent answeredConn) (responseBytes answeredConn) \<and>
    (\<exists>r p. response answeredConn = Some r \<and> prefix p (got run2 hostKey) \<and> contains p crlf2 \<and>
      testHandler p = Some r) \<and> sent answeredConn = 27"
proof -
  have "response answeredConn \<noteq> None" "sent answeredConn = 27"
    by (simp_all add: answeredConn_def readyConn_def openConn_def testHandler_def)
  with vsock_stream_integrity [OF reach_run2 lookup_run2] show ?thesis by auto
qed

text \<open>C3: a reachable endpoint never holds more than 64 connections nor more than 256 KiB of any
  request, its keys are distinct and name their connections, no more is sent than there is, and the
  forwarded-bytes counter it advertises is the number of request bytes taken.\<close>

theorem vsock_bounds:
  assumes "vsockReach cid port h s"
  shows "length (connections (ep s)) \<le> 64 \<and> go_map_ok (connections (ep s)) \<and>
    (\<forall>(k, c) \<in> set (connections (ep s)). k = ConnectionKey (remoteCID c) (remotePort c) \<and>
       length (request c) \<le> 262144 \<and> unat (rxFwd c) = length (request c) \<and>
       sent c \<le> length (responseBytes c))"
proof -
  have "runOk cid port h s" using assms by (rule vsockReach_ok)
  then have ok: "endpointOk (ep s)" and "MaxConns (ep s) = 64" "BufferLen (ep s) = 262144"
    by (auto simp: runOk_def historyOk_def sameConfig_def NewEndpoint_def DefaultMaxConns_def DefaultBuffer_def)
  then show ?thesis by (fastforce simp: endpointOk_def connOk_def)
qed

theorem vsock_bounds_witness:
  "length (connections (ep run2)) \<le> 64 \<and> go_map_ok (connections (ep run2)) \<and>
    list_all (\<lambda>(k, c). k = ConnectionKey (remoteCID c) (remotePort c) \<and>
       length (request c) \<le> 262144 \<and> unat (rxFwd c) = length (request c) \<and>
       sent c \<le> length (responseBytes c)) (connections (ep run2)) \<and> connections (ep run2) \<noteq> []"
  using vsock_bounds [OF reach_run2] by (simp add: run2_def list_all_iff)

text \<open>C4: flow control. With an honest peer (it has acknowledged no more than was sent, and the
  response is shorter than 4 GiB, so the 32-bit counters do not wrap) a batch either sends the
  connection nothing or leaves its total within the acknowledged count plus the smaller of the
  peer's and the endpoint's buffer.\<close>

theorem vsock_credit:
  assumes "drain e order limit = (e', out)" "endpointOk e" "distinct order"
    and "go_lookup (connections e) k = Some c" "go_lookup (connections e') k = Some c'"
    and "honestPeer c"
  shows "sent c' = sent c \<or>
    sent c' \<le> unat (peerFwd c) + min (unat (peerAlloc c)) (unat (BufferLen e))"
proof -
  have "drained (BufferLen e) k (Some c) out (Some c')"
    using drain_spec [OF assms(1-3)] assms(4,5) by metis
  then show ?thesis using assms(6) by (auto simp: drained_def turn_def creditEnd_def)
qed

lemma lookup_ready: "go_lookup (connections readyEndpoint) hostKey = Some readyConn"
  by (simp add: readyEndpoint_def)

lemma lookup_answered:
  "go_lookup (connections (testEndpoint\<lparr>connections := [(hostKey, answeredConn)]\<rparr>)) hostKey = Some answeredConn"
  by simp

theorem vsock_credit_witness:
  "sent answeredConn = 27 \<and> (sent answeredConn = sent readyConn \<or> sent answeredConn \<le>
     unat (peerFwd readyConn) + min (unat (peerAlloc readyConn)) (unat (BufferLen readyEndpoint)))"
proof -
  have "honestPeer readyConn"
    by (simp add: honestPeer_def readyConn_def openConn_def responseBytes_def testHandler_def)
  from vsock_credit [OF drain_ready readyEndpoint_ok _ lookup_ready lookup_answered this]
  show ?thesis by (simp add: answeredConn_def readyConn_def openConn_def)
qed

text \<open>C5: how much one call returns. A batch of \<open>drain\<close> holds at most \<open>limit\<close> packets, each a well-formed
  stream packet from the endpoint's own address. \<open>handle\<close> returns at most one packet of its own, which
  is such a packet or resets the sender, followed by a batch of at most 8: so at most 9 packets. Every
  packet fits the device's 65580-byte packet buffer.\<close>

theorem vsock_batch:
  assumes "endpointOk e"
  shows "(drain e order limit = (e', out) \<longrightarrow> int (length out) \<le> max 0 limit \<and>
      (\<forall>p \<in> set out. wellFormed e p \<and> length p \<le> HeaderSize + MaxPacketPayload)) \<and>
    (handle e order packet = (e', Inr out) \<longrightarrow>
      (\<exists>reply batch e1. out = reply @ batch \<and> length reply \<le> 1 \<and> length batch \<le> 8 \<and>
        (batch = [] \<or> drain e1 order 8 = (e', batch)) \<and>
        (\<forall>p \<in> set reply. wellFormed e p \<or> (\<exists>h pl. decodePacket packet = Inr (h, pl) \<and> p = resetFor h)) \<and>
        (\<forall>p \<in> set batch. wellFormed e p)) \<and>
      (\<forall>p \<in> set out. length p \<le> HeaderSize + MaxPacketPayload))"
proof (intro conjI impI)
  assume d: "drain e order limit = (e', out)"
  show "int (length out) \<le> max 0 limit" using drain_length [OF d] .
  show "\<forall>p \<in> set out. wellFormed e p \<and> length p \<le> HeaderSize + MaxPacketPayload"
    using drain_wellFormed [OF d assms] wellFormed_fits by blast
next
  assume h: "handle e order packet = (e', Inr out)"
  show "\<forall>p \<in> set out. length p \<le> HeaderSize + MaxPacketPayload"
    using handle_fits [OF h] by (simp add: fitsBuffer_def)
  show "\<exists>reply batch e1. out = reply @ batch \<and> length reply \<le> 1 \<and> length batch \<le> 8 \<and>
        (batch = [] \<or> drain e1 order 8 = (e', batch)) \<and>
        (\<forall>p \<in> set reply. wellFormed e p \<or> (\<exists>h pl. decodePacket packet = Inr (h, pl) \<and> p = resetFor h)) \<and>
        (\<forall>p \<in> set batch. wellFormed e p)"
  proof -
    define resets where "resets = (case decodePacket packet of Inl _ \<Rightarrow> [] | Inr (h, pl) \<Rightarrow> [resetFor h])"
    have "oneThenBatch e order (e', Inr out) resets"
      using handle_batch [OF assms, of order packet] by (simp add: h resets_def)
    then obtain reply batch e1 where r: "out = reply @ batch" "length reply \<le> 1" "length batch \<le> 8"
      "batch = [] \<or> drain e1 order 8 = (e', batch)"
      "\<forall>q \<in> set reply. wellFormed e q \<or> q \<in> set resets" "\<forall>q \<in> set batch. wellFormed e q"
      unfolding oneThenBatch_def by blast
    moreover have "q \<in> set resets \<Longrightarrow> \<exists>h pl. decodePacket packet = Inr (h, pl) \<and> q = resetFor h" for q
      by (cases "decodePacket packet") (auto simp: resets_def)
    ultimately show ?thesis by blast
  qed
qed

theorem vsock_batch_witness:
  "int (length answerPackets) \<le> max 0 8 \<and> list_all (\<lambda>p. wellFormed readyEndpoint p \<and>
     length p \<le> HeaderSize + MaxPacketPayload) answerPackets \<and> length answerPackets = 2 \<and>
   (\<exists>reply batch. answerPackets = reply @ batch \<and> length reply \<le> 1 \<and> length batch \<le> 8)"
proof -
  have "endpointOk (testEndpoint\<lparr>connections := [(hostKey, openConn)]\<rparr>)"
    by (simp add: endpointOk_def testEndpoint_def NewEndpoint_def connOk_def
        openConn_def hostKey_def DefaultBuffer_def DefaultMaxConns_def responseBytes_def)
  from vsock_batch [OF this, THEN conjunct2, THEN mp, OF answer_test] have
    "\<exists>reply batch. answerPackets = reply @ batch \<and> length reply \<le> 1 \<and> length batch \<le> 8" by blast
  with vsock_batch [OF readyEndpoint_ok, THEN conjunct1, THEN mp, OF drain_ready] show ?thesis
    by (simp add: answerPackets_def list_all_iff)
qed

text \<open>C6: draining again and again, whatever order the map is visited in, finishes within as many
  batches as there are packets still due, for every connection the table held. A connection is gone
  exactly when it was shut down before it had an answer. Every other one keeps its request and
  response, has been sent exactly the bytes between the old and the new \<open>sent\<close>, and is either out of
  credit or has been sent all of its response and marked closing. With an honest peer it has been sent
  all that the credit allows: the whole response if the credit reaches its end.\<close>

theorem vsock_drains_settle:
  assumes "endpointOk e" "mapOrder orders" "0 < limit"
  shows "\<exists>n e' pkts. n \<le> backlog e \<and> e' = drains orders limit n e \<and> pkts = drainsOut orders limit n e \<and>
    fst ` set (connections e') \<subseteq> fst ` set (connections e) \<and>
    (\<forall>k c. go_lookup (connections e) k = Some c \<longrightarrow>
      (case go_lookup (connections e') k of
         None \<Rightarrow> response c = None \<and> closing c
       | Some c' \<Rightarrow> (response c = None \<longrightarrow> \<not> closing c) \<and>
           response c' = response c \<and> request c' = request c \<and>
           sent c \<le> sent c' \<and> sent c' \<le> length (responseBytes c) \<and>
           streamTo k pkts = slice (responseBytes c) (sent c) (sent c') \<and>
           (if sent c' < length (responseBytes c) then sendSpace e' c' = 0
            else closing c' = (response c \<noteq> None)) \<and>
           (honestPeer c \<longrightarrow>
              sent c' = max (sent c) (min (length (responseBytes c)) (creditEnd (BufferLen e) c)))))"
proof -
  from drains_settle [OF assms] obtain n where n: "n \<le> backlog e"
    "\<forall>(k, c) \<in> set (connections (drains orders limit n e)). settled (drains orders limit n e) c" by blast
  define e' where "e' = drains orders limit n e"
  note sp = drains_spec [OF assms(1,2) e'_def]
  have st: "settled e' c'" if "go_lookup (connections e') k = Some c'" for k c'
    using n(2) that by (auto simp: e'_def dest!: map_of_SomeD)
  have sub: "fst ` set (connections e') \<subseteq> fst ` set (connections e)"
  proof
    fix k assume "k \<in> fst ` set (connections e')"
    then have "go_lookup (connections e') k \<noteq> None" by (simp add: map_of_eq_None_iff)
    then have "go_lookup (connections e) k \<noteq> None" using sp by (auto simp: drained_def split: option.splits)
    then show "k \<in> fst ` set (connections e)" by (simp add: map_of_eq_None_iff)
  qed
  show ?thesis
  proof (intro exI conjI allI impI)
    fix k c assume c: "go_lookup (connections e) k = Some c"
    have d: "drained (BufferLen e) k (Some c) (drainsOut orders limit n e) (go_lookup (connections e') k)"
      using sp c by metis
    have ok: "endpointOk e'" "sameConfig e e'" using sp by blast+
    show "case go_lookup (connections e') k of
         None \<Rightarrow> response c = None \<and> closing c
       | Some c' \<Rightarrow> (response c = None \<longrightarrow> \<not> closing c) \<and>
           response c' = response c \<and> request c' = request c \<and>
           sent c \<le> sent c' \<and> sent c' \<le> length (responseBytes c) \<and>
           streamTo k (drainsOut orders limit n e) = slice (responseBytes c) (sent c) (sent c') \<and>
           (if sent c' < length (responseBytes c) then sendSpace e' c' = 0
            else closing c' = (response c \<noteq> None)) \<and>
           (honestPeer c \<longrightarrow>
              sent c' = max (sent c) (min (length (responseBytes c)) (creditEnd (BufferLen e) c)))"
      by (rule settled_drained [OF d ok refl st])
  qed (fact n(1), fact e'_def, fact refl, fact sub)
qed

theorem vsock_drains_settle_witness:
  "backlog readyEndpoint = 28 \<and> (\<exists>n c'. n \<le> 28 \<and>
     go_lookup (connections (drains (\<lambda>e. remdups (map fst (connections e))) 8 n readyEndpoint)) hostKey = Some c' \<and>
     closing c' \<and> sent c' = 27 \<and>
     streamTo hostKey (drainsOut (\<lambda>e. remdups (map fst (connections e))) 8 n readyEndpoint) = the (testHandler crlf2))"
proof -
  define os where "os = (\<lambda>e :: endpoint. remdups (map fst (connections e)))"
  have mo: "mapOrder os" by (simp add: mapOrder_def os_def)
  have b: "backlog readyEndpoint = 28"
    by (simp add: backlog_def readyEndpoint_def due_def readyConn_def openConn_def
        responseBytes_def testHandler_def)
  have c: "response readyConn = testHandler crlf2" "testHandler crlf2 = Some (responseBytes readyConn)"
    "length (responseBytes readyConn) = 27" "sent readyConn = 0"
    "creditEnd (BufferLen readyEndpoint) readyConn = 262144" "honestPeer readyConn"
    by (simp_all add: honestPeer_def creditEnd_def readyConn_def openConn_def responseBytes_def testHandler_def readyEndpoint_def
        testEndpoint_def NewEndpoint_def DefaultBuffer_def)
  from vsock_drains_settle [OF readyEndpoint_ok mo, of 8] obtain n where n: "n \<le> 28" and
    after: "case go_lookup (connections (drains os 8 n readyEndpoint)) hostKey of
      None \<Rightarrow> response readyConn = None \<and> closing readyConn
    | Some c' \<Rightarrow> sent c' = max 0 (min 27 262144) \<and> (if sent c' < 27 then sendSpace (drains os 8 n readyEndpoint) c' = 0 else closing c') \<and>
        streamTo hostKey (drainsOut os 8 n readyEndpoint) = slice (responseBytes readyConn) 0 (sent c')"
    using lookup_ready by (fastforce simp: b c split: option.splits)
  show ?thesis unfolding os_def [symmetric] using n after b c
    by (intro conjI exI [of _ n]) (auto simp: slice_def split: option.splits)
qed
text \<open>A packet for another type, CID or port, a repeated or over-limit connection request, and
  any other packet on an unknown connection leave the endpoint as it was and are answered by
  exactly one reset, addressed back to the sender.\<close>

theorem vsock_refuses:
  assumes "decodePacket p = Inr (h, pl)"
    and "HType h \<noteq> TypeStream \<or> DstCID h \<noteq> CID e \<or> DstPort h \<noteq> Port e \<or>
      (if Op h = OpRequest
       then go_lookup (connections e) (ConnectionKey (SrcCID h) (SrcPort h)) \<noteq> None \<or>
         MaxConns e \<le> int (length (connections e))
       else go_lookup (connections e) (ConnectionKey (SrcCID h) (SrcPort h)) = None)"
  shows "\<exists>rst r. handle e order p = (e, Inr [rst]) \<and> decodePacket rst = Inr (r, []) \<and>
    Op r = OpReset \<and> HType r = TypeStream \<and>
    SrcCID r = DstCID h \<and> SrcPort r = DstPort h \<and> DstCID r = SrcCID h \<and> DstPort r = SrcPort h"
proof -
  have "handle e order p = (e, Inr [resetFor h])"
    using assms by (auto simp: handle_def Let_def split: if_splits)
  then show ?thesis by (simp add: resetFor_def decode_encode)
qed

theorem vsock_refuses_witness:
  "\<exists>rst r. handle testEndpoint [] (hostPacket OpReadWrite [1]) = (testEndpoint, Inr [rst]) \<and>
    decodePacket rst = Inr (r, []) \<and> Op r = OpReset \<and> DstCID r = 2 \<and> DstPort r = 49152"
proof -
  obtain h where h: "decodePacket (hostPacket OpReadWrite [1]) = Inr (h, [1])"
    "SrcCID h = 2" "SrcPort h = 49152" "Op h = OpReadWrite"
    by (simp add: hostPacket_def decode_encode)
  from vsock_refuses [OF h(1), of testEndpoint "[]"] h(2-4) show ?thesis
    by (auto simp: testEndpoint_def NewEndpoint_def op_defs)
qed

text \<open>A data packet for an open connection.\<close>

definition dataPacketFor :: "endpoint \<Rightarrow> connectionKey \<Rightarrow> bytes \<Rightarrow> bytes \<Rightarrow> bool" where
  "dataPacketFor e k pl p \<longleftrightarrow> (case decodePacket p of Inl _ \<Rightarrow> False
     | Inr (h, payload) \<Rightarrow> payload = pl \<and> HType h = TypeStream \<and> DstCID h = CID e \<and>
         DstPort h = Port e \<and> Op h = OpReadWrite \<and> ConnectionKey (SrcCID h) (SrcPort h) = k)"

lemma handle_data:
  assumes "dataPacketFor e k pl p" "go_lookup (connections e) k = Some c"
  obtains h where "handle e order p =
    handleReadWrite (store k (updatePeer c h) e) order k (updatePeer c h) h pl"
    "decodePacket p = Inr (h, pl)" "k = ConnectionKey (SrcCID h) (SrcPort h)"
proof -
  from assms(1) obtain h where h: "decodePacket p = Inr (h, pl)" "HType h = TypeStream" "DstCID h = CID e"
    "DstPort h = Port e" "Op h = OpReadWrite" "ConnectionKey (SrcCID h) (SrcPort h) = k"
    by (auto simp: dataPacketFor_def split: sum.splits prod.splits)
  then have "handle e order p = handleReadWrite (store k (updatePeer c h) e) order k (updatePeer c h) h pl"
    using assms(2) by (simp add: handle_def Let_def op_defs)
  then show ?thesis by (rule that [OF _ h(1) h(6) [symmetric]])
qed

lemma handleReadWrite_error:
  "snd (handleReadWrite e order k c h pl) = Inl err \<longleftrightarrow>
     err = NoHandler \<and> Handler e = None \<and> length (request c) + length pl \<le> unat (BufferLen e) \<and>
     response c = None \<and> contains (request c @ pl) crlf2"
  using thenDrain_Inr by (auto simp: handleReadWrite_eq Let_def split: option.split)

lemma handle_error_cases:
  "snd (handle e order p) = Inl err \<longleftrightarrow>
     decodePacket p = Inl err \<or>
     err = NoHandler \<and> Handler e = None \<and> (\<exists>k c pl. dataPacketFor e k pl p \<and> go_lookup (connections e) k = Some c \<and>
       length (request c) + length pl \<le> unat (BufferLen e) \<and> response c = None \<and> contains (request c @ pl) crlf2)"
proof (cases "decodePacket p")
  case (Inl x)
  then show ?thesis by (auto simp: handle_def dataPacketFor_def)
next
  case (Inr hp)
  obtain h pl where hp: "hp = (h, pl)" by fastforce
  show ?thesis
  proof (cases "\<exists>k c. dataPacketFor e k pl p \<and> go_lookup (connections e) k = Some c")
    case True
    then obtain k c where k: "dataPacketFor e k pl p" "go_lookup (connections e) k = Some c" by blast
    obtain h' where hd: "handle e order p =
      handleReadWrite (store k (updatePeer c h') e) order k (updatePeer c h') h' pl"
      using handle_data [OF k] by blast
    have uniq: "dataPacketFor e k' pl' p \<Longrightarrow> k' = k \<and> pl' = pl" for k' pl'
      using k(1) by (auto simp: dataPacketFor_def Inr hp)
    have "snd (handle e order p) = Inl err \<longleftrightarrow> err = NoHandler \<and> Handler e = None \<and>
        length (request c) + length pl \<le> unat (BufferLen e) \<and> response c = None \<and> contains (request c @ pl) crlf2"
      by (simp add: hd handleReadWrite_error)
    also have "\<dots> \<longleftrightarrow> err = NoHandler \<and> Handler e = None \<and> (\<exists>k c pl. dataPacketFor e k pl p \<and>
        go_lookup (connections e) k = Some c \<and> length (request c) + length pl \<le> unat (BufferLen e) \<and>
        response c = None \<and> contains (request c @ pl) crlf2)" (is "_ \<longleftrightarrow> _ \<and> _ \<and> ?ex")
    proof -
      have "?ex \<longleftrightarrow> length (request c) + length pl \<le> unat (BufferLen e) \<and> response c = None \<and> contains (request c @ pl) crlf2"
      proof
        assume ?ex
        then obtain k' c' pl' where 1: "dataPacketFor e k' pl' p" "go_lookup (connections e) k' = Some c'"
          "length (request c') + length pl' \<le> unat (BufferLen e)" "response c' = None" "contains (request c' @ pl') crlf2"
          by blast
        moreover have "c' = c" "pl' = pl" using uniq [OF 1(1)] 1(2) k(2) by simp_all
        ultimately show "length (request c) + length pl \<le> unat (BufferLen e) \<and> response c = None \<and> contains (request c @ pl) crlf2"
          by simp
      qed (use k in blast)
      then show ?thesis by simp
    qed
    finally show ?thesis by (simp add: Inr)
  next
    case False
    then have "\<not> (HType h = TypeStream \<and> DstCID h = CID e \<and> DstPort h = Port e \<and> Op h = OpReadWrite \<and>
        go_lookup (connections e) (ConnectionKey (SrcCID h) (SrcPort h)) \<noteq> None)"
      by (auto simp: dataPacketFor_def Inr hp)
    then have "snd (handle e order p) \<noteq> Inl err"
      using thenDrain_Inr by (auto simp: handle_def Inr hp Let_def split: option.split)
    moreover have "\<not> (dataPacketFor e k pl' p \<and> go_lookup (connections e) k = Some c)" for k pl' c
      using False by (auto simp: dataPacketFor_def Inr hp)
    ultimately show ?thesis using Inr by auto
  qed
qed

lemma decode_error_iff:
  "decodePacket p = Inl err \<longleftrightarrow> err = ShortPacket \<and> length p < HeaderSize \<or>
     err = InvalidPayloadLength \<and> HeaderSize \<le> length p \<and>
       length p < HeaderSize + unat (Len (header_of_bytes (slice p 0 HeaderSize)))"
  by (auto simp: decodePacket_def Let_def)

text \<open>C7: the errors of \<open>handle\<close>, exactly. A packet shorter than its header is short, one that announces
  more payload than it carries has an invalid length, and in both cases nothing changes. The third
  error, a missing handler, arises exactly when there is none and the packet is data for an open,
  unanswered connection that fits the buffer and completes the request header.\<close>

theorem vsock_handle_errors:
  "(snd (handle e order p) = Inl err \<longleftrightarrow>
      (err = ShortPacket \<and> length p < HeaderSize \<or>
       err = InvalidPayloadLength \<and> HeaderSize \<le> length p \<and>
         length p < HeaderSize + unat (Len (header_of_bytes (slice p 0 HeaderSize))) \<or>
       err = NoHandler \<and> Handler e = None \<and> (\<exists>k c pl. dataPacketFor e k pl p \<and>
         go_lookup (connections e) k = Some c \<and> length (request c) + length pl \<le> unat (BufferLen e) \<and>
         response c = None \<and> contains (request c @ pl) crlf2))) \<and>
    (snd (handle e order p) = Inl err \<longrightarrow> err \<noteq> NoHandler \<longrightarrow> fst (handle e order p) = e)"
proof -
  have "decodePacket p = Inl err \<Longrightarrow> fst (handle e order p) = e" by (simp add: handle_def)
  then show ?thesis by (auto simp: handle_error_cases decode_error_iff)
qed

theorem vsock_handle_errors_witness:
  "snd (handle testEndpoint [] [1, 2, 3]) = Inl ShortPacket \<and> fst (handle testEndpoint [] [1, 2, 3]) = testEndpoint \<and>
   snd (handle (testEndpoint\<lparr>Handler := None, connections := [(hostKey, openConn)]\<rparr>) [] (hostPacket OpReadWrite crlf2)) =
     Inl NoHandler"
proof -
  have "dataPacketFor (testEndpoint\<lparr>Handler := None, connections := [(hostKey, openConn)]\<rparr>) hostKey crlf2
      (hostPacket OpReadWrite crlf2)"
    by (simp add: dataPacketFor_def hostPacket_def decode_encode testEndpoint_def NewEndpoint_def hostKey_def)
  moreover have "contains (request openConn @ crlf2) crlf2" "length (request openConn) + length crlf2 \<le> unat (BufferLen testEndpoint)"
    "response openConn = None"
    by (simp_all add: openConn_def contains_crlf2 testEndpoint_def NewEndpoint_def DefaultBuffer_def)
  ultimately have "snd (handle (testEndpoint\<lparr>Handler := None, connections := [(hostKey, openConn)]\<rparr>) [] (hostPacket OpReadWrite crlf2)) =
     Inl NoHandler"
    by (intro vsock_handle_errors [THEN conjunct1, THEN iffD2]) (fastforce simp: hostKey_def)
  then show ?thesis
    using vsock_handle_errors [of testEndpoint "[]" "[1, 2, 3]" ShortPacket] by (simp add: HeaderSize_def)
qed
text \<open>C8: the request is assembled from the data packets in order, and the handler is asked exactly
  when the assembled bytes first hold an empty line: with the whole of them, and at no other time.\<close>

theorem vsock_answers_when_complete:
  assumes "dataPacketFor e k pl p" "go_lookup (connections e) k = Some c"
    and "endpointOk e" "distinct order" "Handler e = Some f"
    and "length (request c) + length pl \<le> unat (BufferLen e)"
    and "handle e order p = (e', Inr out)" "go_lookup (connections e') k = Some c'"
  shows "request c' = request c @ pl \<and> response c' =
    (if response c = None then (if contains (request c @ pl) crlf2 then f (request c @ pl) else None)
     else response c)"
proof -
  obtain h where hd: "handle e order p =
    handleReadWrite (store k (updatePeer c h) e) order k (updatePeer c h) h pl"
    using handle_data [OF assms(1,2)] by blast
  define c1 where "c1 = received pl (updatePeer c h)"
  define c2 where "c2 = (if response c = None \<and> contains (request c @ pl) crlf2
    then c1\<lparr>response := f (request c @ pl)\<rparr> else c1)"
  have cok: "connOk e k c" using assms(3,2) by (rule endpointOk_conn)
  have c1: "connOk e k c1" using cok assms(6) by (simp add: c1_def connOk_received)
  have c2: "connOk e k c2"
    using connOk_answer [OF c1] c1 by (simp add: c2_def c1_def)
  have t: "thenDrain (store k c2 e) order (creditReply e c2) = (e', Inr out)"
    using hd assms(5,6,7) by (auto simp: handleReadWrite_eq c2_def c1_def Let_def split: if_splits)
  have "endpointOk (store k c2 e)" using assms(2,3) c2 by (simp add: endpointOk_store)
  from thenDrain_spec [OF t this assms(4)] obtain extra where
    "drained (BufferLen e) k (Some c2) extra (Some c')"
    using assms(8) by (auto simp: gm.lookup_put) metis
  then have "request c' = request c2" "response c' = response c2" by (auto simp: drained_def)
  then show ?thesis by (simp add: c2_def c1_def)
qed

theorem vsock_answers_when_complete_witness:
  "request answeredConn = crlf2 \<and> response answeredConn = testHandler crlf2"
proof -
  have "endpointOk (testEndpoint\<lparr>connections := [(hostKey, openConn)]\<rparr>)"
    by (simp add: endpointOk_def testEndpoint_def NewEndpoint_def connOk_def
        openConn_def hostKey_def DefaultBuffer_def DefaultMaxConns_def responseBytes_def)
  moreover have "dataPacketFor (testEndpoint\<lparr>connections := [(hostKey, openConn)]\<rparr>) hostKey crlf2
      (hostPacket OpReadWrite crlf2)"
    by (simp add: dataPacketFor_def hostPacket_def decode_encode testEndpoint_def NewEndpoint_def hostKey_def)
  ultimately show ?thesis
    using vsock_answers_when_complete [OF _ _ _ _ _ _ answer_test, of hostKey crlf2 openConn testHandler answeredConn]
    by (simp add: contains_crlf2 testEndpoint_def NewEndpoint_def openConn_def DefaultBuffer_def)
qed

text \<open>C9: a data packet that would take the request past the buffer drops the connection and is
  answered by exactly one reset; every other connection is untouched.\<close>

theorem vsock_overflow:
  assumes "dataPacketFor e k pl p" "go_lookup (connections e) k = Some c"
    and "unat (BufferLen e) < length (request c) + length pl"
  shows "\<exists>e' rst r. handle e order p = (e', Inr [rst]) \<and>
    decodePacket rst = Inr (r, []) \<and> Op r = OpReset \<and> ConnectionKey (DstCID r) (DstPort r) = k \<and>
    (\<forall>j. go_lookup (connections e') j = (if j = k then None else go_lookup (connections e) j))"
proof -
  obtain h where hd: "handle e order p =
    handleReadWrite (store k (updatePeer c h) e) order k (updatePeer c h) h pl"
    and k: "k = ConnectionKey (SrcCID h) (SrcPort h)"
    using handle_data [OF assms(1,2)] by blast
  have "handle e order p = (remove k e, Inr [resetFor h])"
    using hd assms(3) by (simp add: handleReadWrite_eq)
  then show ?thesis by (simp add: resetFor_def decode_encode k gm.lookup_delete)
qed

theorem vsock_overflow_witness:
  "\<exists>e' rst. handle (testEndpoint\<lparr>BufferLen := 3, connections := [(hostKey, openConn)]\<rparr>) []
      (hostPacket OpReadWrite crlf2) = (e', Inr [rst]) \<and> go_lookup (connections e') hostKey = None"
proof -
  have "dataPacketFor (testEndpoint\<lparr>BufferLen := 3, connections := [(hostKey, openConn)]\<rparr>) hostKey crlf2
      (hostPacket OpReadWrite crlf2)"
    by (simp add: dataPacketFor_def hostPacket_def decode_encode testEndpoint_def NewEndpoint_def hostKey_def)
  from vsock_overflow [OF this, of openConn "[]"] show ?thesis by (fastforce simp: openConn_def)
qed

text \<open>A peer's shutdown never removes a connection that has been answered, and no later batch
  does either: the table entry, which counts towards \<open>MaxConns\<close>, stays until the peer resets the
  stream (or breaks the protocol).\<close>

theorem vsock_shutdown_keeps_answered:
  assumes "decodePacket p = Inr (h, pl)" "HType h = TypeStream" "DstCID h = CID e" "DstPort h = Port e"
    and "Op h = OpShutdown" "go_lookup (connections e) (ConnectionKey (SrcCID h) (SrcPort h)) = Some c"
    and "response c \<noteq> None" "endpointOk e" "distinct order" "mapOrder orders"
  shows "\<exists>c'. go_lookup (connections (drains orders limit n (fst (handle e order p))))
      (ConnectionKey (SrcCID h) (SrcPort h)) = Some c' \<and> closing c' \<and> response c' = response c"
proof -
  define k where "k = ConnectionKey (SrcCID h) (SrcPort h)"
  define c1 where "c1 = (updatePeer c h)\<lparr>closing := True\<rparr>"
  have keep: "\<exists>c'. go_lookup (connections e2) k = Some c' \<and> closing c' \<and> response c' = response c"
    if "drained b k (Some c1) out (go_lookup (connections e2) k)" "closing c1" "response c1 = response c"
    for b e2 out c1 using that assms(7) by (auto simp: drained_def)
  have cok: "connOk e k c1"
    using endpointOk_conn [OF assms(8,6)] by (simp add: c1_def k_def)
  have "handle e order p = thenDrain (store k c1 e) order []"
    using assms(1-6) by (simp add: handle_def Let_def op_defs k_def c1_def)
  then obtain e1 r where h1: "handle e order p = (e1, r)" "thenDrain (store k c1 e) order [] = (e1, r)"
    by fastforce
  have "endpointOk (store k c1 e)"
    using assms(6,8) cok by (simp add: endpointOk_store k_def)
  from thenDrain_spec [OF h1(2) this assms(9)] obtain out where e1: "endpointOk e1"
    and "drained (BufferLen e) k (Some c1) out (go_lookup (connections e1) k)"
    by (auto simp: gm.lookup_put) metis
  from keep [OF this(2)] have "\<exists>c'. go_lookup (connections e1) k = Some c' \<and> closing c' \<and> response c' = response c"
    by (simp add: c1_def)
  with e1 have "\<exists>c'. go_lookup (connections (drains orders limit n e1)) k = Some c' \<and>
      closing c' \<and> response c' = response c"
  proof (induction n arbitrary: e1)
    case (Suc n)
    obtain e2 out where d: "drain e1 (orders e1) limit = (e2, out)" by fastforce
    have "distinct (orders e1)" using assms(10) by (simp add: mapOrder_def)
    from drain_spec [OF d Suc.prems(1) this] keep Suc.prems(2)
    have "endpointOk e2" "\<exists>c'. go_lookup (connections e2) k = Some c' \<and> closing c' \<and> response c' = response c"
      by metis+
    with Suc.IH d show ?case by simp
  qed simp
  then show ?thesis by (simp add: h1(1) k_def)
qed

theorem vsock_shutdown_keeps_answered_witness:
  "\<exists>c'. go_lookup (connections (drains (\<lambda>e. remdups (map fst (connections e))) 8 100
      (fst (handle readyEndpoint [hostKey] (hostPacket OpShutdown []))))) hostKey = Some c' \<and>
    closing c' \<and> response c' = testHandler crlf2"
proof -
  obtain h where h: "decodePacket (hostPacket OpShutdown []) = Inr (h, [])"
    "SrcCID h = 2" "SrcPort h = 49152" "Op h = OpShutdown" "HType h = TypeStream" "DstCID h = 3" "DstPort h = 4040"
    by (simp add: hostPacket_def decode_encode)
  have "mapOrder (\<lambda>e. remdups (map fst (connections e)))" by (simp add: mapOrder_def)
  moreover have "go_lookup (connections readyEndpoint) (ConnectionKey (SrcCID h) (SrcPort h)) = Some readyConn"
    by (simp add: h readyEndpoint_def hostKey_def)
  moreover have "CID readyEndpoint = 3" "Port readyEndpoint = 4040" "response readyConn = testHandler crlf2"
    "testHandler crlf2 \<noteq> None"
    by (simp_all add: readyEndpoint_def testEndpoint_def NewEndpoint_def readyConn_def openConn_def testHandler_def)
  ultimately show ?thesis
    using vsock_shutdown_keeps_answered [OF h(1) h(5) _ _ h(4) _ _ readyEndpoint_ok,
        of readyConn "[hostKey]" "\<lambda>e. remdups (map fst (connections e))" 8 100] h
    by (simp add: hostKey_def)
qed

text \<open>C10: packets survive the wire: what is encoded decodes to the same header (with its length
  field set) and payload, and what decodes is, up to trailing bytes, its own encoding.\<close>

theorem vsock_packet_roundtrip:
  "(length payload < 2 ^ 32 \<longrightarrow>
      decodePacket (encodePacket h payload) = Inr (h\<lparr>Len := word_of_nat (length payload)\<rparr>, payload)) \<and>
   (decodePacket p = Inr (h', payload') \<longrightarrow>
      encodePacket h' payload' = take (HeaderSize + unat (Len h')) p \<and> length payload' = unat (Len h'))"
  using decode_encode encode_decode decodePacket_length by blast

theorem vsock_packet_roundtrip_witness:
  "decodePacket (hostPacket OpReadWrite [7]) = Inr (\<lparr>SrcCID = 2, DstCID = 3, SrcPort = 49152, DstPort = 4040,
     Len = 1, HType = TypeStream, Op = OpReadWrite, Flags = 0, BufAlloc = DefaultBuffer, FwdCnt = 0\<rparr>, [7])"
  unfolding hostPacket_def by (simp add: vsock_packet_roundtrip)

end
