(* ===== verification/Vsock_Device.thy ===== *)
theory Vsock_Device
  imports Vsock_Properties
begin

text \<open>
  \<^verbatim>\<open>kernel/vsock/device_tamago.go\<close>: the driver of the VirtIO-vsock device and its polling loop.
  The VirtIO transport and its split queues are TamaGo's (\<^verbatim>\<open>kvm/virtio\<close>), which is not in the
  repository: their operations on a hardware state \<open>'q\<close> are a parameter, the record
  \<open>virtio\<close>. The Go runtime's choice of map order is read from the same state.
\<close>

section \<open>The transport\<close>

record ('q, 'v, 'e) virtio =
  tInit :: "u64 \<Rightarrow> 'q \<Rightarrow> 'e option \<times> 'q"
  tDeviceID :: "'q \<Rightarrow> u32"
  tNegotiatedFeatures :: "'q \<Rightarrow> u64"
  tQueueReady :: "nat \<Rightarrow> 'q \<Rightarrow> bool"
  tConfig :: "nat \<Rightarrow> 'q \<Rightarrow> bytes"
  tMaxQueueSize :: "nat \<Rightarrow> 'q \<Rightarrow> int"
  tNewQueue :: "int \<Rightarrow> nat \<Rightarrow> u16 \<Rightarrow> 'v"
  tSetQueueSize :: "nat \<Rightarrow> int \<Rightarrow> 'q \<Rightarrow> 'q"
  tSetQueue :: "nat \<Rightarrow> 'v \<Rightarrow> 'q \<Rightarrow> 'q"
  tSetReady :: "'q \<Rightarrow> 'q"
  tQueueNotify :: "nat \<Rightarrow> 'q \<Rightarrow> 'q"
  qPop :: "nat \<Rightarrow> 'q \<Rightarrow> ('e + bytes) \<times> 'q"
  qPushTx :: "bytes \<Rightarrow> 'q \<Rightarrow> 'q"
  qUsedTx :: "'q \<Rightarrow> u16"
  goMapOrder :: "'q \<Rightarrow> connectionKey list \<times> 'q"
  goSleep :: "'q \<Rightarrow> 'q"

definition DeviceID :: u32 where "DeviceID = 19"
definition ReceiveQueue :: nat where "ReceiveQueue = 0"
definition TransmitQueue :: nat where "TransmitQueue = 1"
definition EventQueue :: nat where "EventQueue = 2"
definition FeatureVersion1 :: u64 where "FeatureVersion1 = push_bit 32 1"
definition queueDepth :: int where "queueDepth = 32"
definition packetBufferSize :: nat where "packetBufferSize = HeaderSize + MaxPacketPayload"
definition eventBufferSize :: nat where "eventBufferSize = 4"
definition virtioWrite :: u16 where "virtioWrite = 2"

record 'v device =
  rx :: "'v option"
  tx :: "'v option"
  event :: "'v option"
  txDepth :: u16
  txSent :: u16
  devCID :: u64

definition newDevice :: "'v device" where
  "newDevice = \<lparr>rx = None, tx = None, event = None, txDepth = 0, txSent = 0, devCID = 0\<rparr>"

definition deviceCID :: "'v device \<Rightarrow> u64" where "deviceCID d = devCID d"

datatype 'e device_error = TransportInit 'e | IncompatibleDeviceID u32 | NoVersion1
  | QueueInUse nat | InvalidConfiguration | InvalidCID | QueueUnavailable nat
  | NotInitialized | PopFailed 'e | HandleFailed vsock_error

section \<open>Init\<close>

definition initQueue :: "('q, 'v, 'e) virtio \<Rightarrow> nat \<Rightarrow> nat \<Rightarrow> u16 \<Rightarrow> 'q \<Rightarrow>
    ('e device_error + 'v \<times> int) \<times> 'q" where
  "initQueue T index len flags q =
     (let size = tMaxQueueSize T index q in
      if size \<le> 0 then (Inl (QueueUnavailable index), q)
      else let size = (if size > queueDepth then queueDepth else size);
               queue = tNewQueue T size len flags
           in (Inr (queue, size), tSetQueueSize T index size q))"

text \<open>The loop that refuses a transport with a queue already in use.\<close>

fun queueInUse :: "('q, 'v, 'e) virtio \<Rightarrow> 'q \<Rightarrow> nat list \<Rightarrow> nat option" where
  "queueInUse T q [] = None"
| "queueInUse T q (index # rest) = (if tQueueReady T index q then Some index else queueInUse T q rest)"

text \<open>
  \<^verbatim>\<open>Device.Init\<close>. The three queues are set up in order; an error leaves the fields set so far,
  as the code does. The transport is not nil (\<^verbatim>\<open>findVsockDevice\<close> always passes one).
\<close>

definition initQueues :: "('q, 'v, 'e) virtio \<Rightarrow> 'v device \<Rightarrow> 'q \<Rightarrow>
    'e device_error option \<times> 'v device \<times> 'q" where
  "initQueues T d q =
     (case initQueue T ReceiveQueue packetBufferSize virtioWrite q of
        (Inl err, q) \<Rightarrow> (Some err, d\<lparr>rx := None\<rparr>, q)
      | (Inr (v, _), q) \<Rightarrow>
          let d = d\<lparr>rx := Some v\<rparr> in
          (case initQueue T TransmitQueue packetBufferSize 0 q of
             (Inl err, q) \<Rightarrow> (Some err, d\<lparr>tx := None\<rparr>, q)
           | (Inr (v, depth), q) \<Rightarrow>
               let d = d\<lparr>tx := Some v, txDepth := word_of_int depth\<rparr> in
               (case initQueue T EventQueue eventBufferSize virtioWrite q of
                  (Inl err, q) \<Rightarrow> (Some err, d\<lparr>event := None\<rparr>, q)
                | (Inr (v, _), q) \<Rightarrow> (None, d\<lparr>event := Some v\<rparr>, q))))"

definition deviceInit :: "('q, 'v, 'e) virtio \<Rightarrow> 'v device \<Rightarrow> 'q \<Rightarrow>
    'e device_error option \<times> 'v device \<times> 'q" where
  "deviceInit T d q =
     (case tInit T FeatureVersion1 q of
        (Some err, q) \<Rightarrow> (Some (TransportInit err), d, q)
      | (None, q) \<Rightarrow>
          if tDeviceID T q \<noteq> DeviceID then (Some (IncompatibleDeviceID (tDeviceID T q)), d, q)
          else if tNegotiatedFeatures T q AND FeatureVersion1 = 0 then (Some NoVersion1, d, q)
          else (case queueInUse T q [ReceiveQueue, TransmitQueue, EventQueue] of
              Some index \<Rightarrow> (Some (QueueInUse index), d, q)
            | None \<Rightarrow>
                let config = tConfig T 8 q in
                if length config \<noteq> 8 then (Some InvalidConfiguration, d, q)
                else
                  let d = d\<lparr>devCID := le_word config\<rparr> in
                  if devCID d = 0 then (Some InvalidCID, d, q) else initQueues T d q))"

section \<open>The polling loop\<close>

text \<open>
  What the loop calls on the endpoint: \<^verbatim>\<open>Handle\<close>, \<^verbatim>\<open>Drain\<close> and \<^verbatim>\<open>Reset\<close>. The loops take these
  operations as an argument, so that their properties rest on the endpoint's contract only.
\<close>

record 'ep endpointOps =
  opHandle :: "'ep \<Rightarrow> connectionKey list \<Rightarrow> bytes \<Rightarrow> 'ep \<times> (vsock_error + bytes list)"
  opDrain :: "'ep \<Rightarrow> connectionKey list \<Rightarrow> int \<Rightarrow> 'ep \<times> bytes list"
  opReset :: "'ep \<Rightarrow> 'ep"

text \<open>The first inner loop: pop and handle received packets until the queue is empty.\<close>

partial_function (option) rxLoop ::
  "('q, 'v, 'e) virtio \<Rightarrow> 'ep endpointOps \<Rightarrow> 'ep \<Rightarrow> bytes list \<Rightarrow> bool \<Rightarrow> 'q \<Rightarrow>
    ('e device_error + 'ep \<times> bytes list \<times> bool \<times> 'q) option" where
  "rxLoop T E e pending replenished q =
     (case qPop T ReceiveQueue q of
        (Inl err, q) \<Rightarrow> Some (Inl (PopFailed err))
      | (Inr p, q) \<Rightarrow>
          if p = [] then Some (Inr (e, pending, replenished, q))
          else let (order, q) = goMapOrder T q in
            (case opHandle E e order p of
               (e, Inl err) \<Rightarrow> Some (Inl (HandleFailed err))
             | (e, Inr packets) \<Rightarrow> rxLoop T E e (pending @ packets) True q))"

text \<open>The second: a transport-reset event (id 0) clears the connections.\<close>

partial_function (option) eventLoop ::
  "('q, 'v, 'e) virtio \<Rightarrow> 'ep endpointOps \<Rightarrow> 'ep \<Rightarrow> bool \<Rightarrow> 'q \<Rightarrow>
    ('e device_error + 'ep \<times> bool \<times> 'q) option" where
  "eventLoop T E e replenished q =
     (case qPop T EventQueue q of
        (Inl err, q) \<Rightarrow> Some (Inl (PopFailed err))
      | (Inr p, q) \<Rightarrow>
          if p = [] then Some (Inr (e, replenished, q))
          else eventLoop T E
            (if length p \<ge> 4 \<and> (le_word (slice p 0 4) :: u32) = 0 then opReset E e else e) True q)"

definition txAvailable :: "('q, 'v, 'e) virtio \<Rightarrow> 'v device \<Rightarrow> 'q \<Rightarrow> bool" where
  "txAvailable T d q \<longleftrightarrow> txSent d - qUsedTx T q < txDepth d"

text \<open>The third: push pending packets while the ring has a free slot; also returns what it pushed.\<close>

fun txLoop :: "('q, 'v, 'e) virtio \<Rightarrow> 'v device \<Rightarrow> bytes list \<Rightarrow> 'q \<Rightarrow>
    bytes list \<times> bytes list \<times> 'v device \<times> 'q" where
  "txLoop T d [] q = ([], [], d, q)"
| "txLoop T d (p # pending) q =
     (if txAvailable T d q then
        let q = qPushTx T p q;
            d = d\<lparr>txSent := txSent d + 1\<rparr>;
            q = tQueueNotify T TransmitQueue q;
            (pushed, rest, d, q) = txLoop T d pending q
        in (p # pushed, rest, d, q)
      else ([], p # pending, d, q))"

text \<open>
  The state of \<^verbatim>\<open>Serve\<close> between rounds. \<open>pushed\<close> is the history of packets given to the
  transmit queue; the code keeps no such list.
\<close>

record ('q, 'v, 'ep) server =
  sDev :: "'v device"
  sEndpoint :: 'ep
  sPending :: "bytes list"
  sHw :: 'q
  pushed :: "bytes list"

definition serveRound :: "('q, 'v, 'e) virtio \<Rightarrow> 'ep endpointOps \<Rightarrow> ('q, 'v, 'ep) server \<Rightarrow>
    ('e device_error + ('q, 'v, 'ep) server) option" where
  "serveRound T E s =
     (case rxLoop T E (sEndpoint s) (sPending s) False (sHw s) of
        None \<Rightarrow> None
      | Some (Inl err) \<Rightarrow> Some (Inl err)
      | Some (Inr (e, pending, rxReplenished, q)) \<Rightarrow>
          let q = (if rxReplenished then tQueueNotify T ReceiveQueue q else q) in
          (case eventLoop T E e False q of
             None \<Rightarrow> None
           | Some (Inl err) \<Rightarrow> Some (Inl err)
           | Some (Inr (e, eventReplenished, q)) \<Rightarrow>
               let q = (if eventReplenished then tQueueNotify T EventQueue q else q);
                   (order, q) = goMapOrder T q;
                   (e, packets) = opDrain E e order 8;
                   (sentNow, rest, d, q) = txLoop T (sDev s) (pending @ packets) q;
                   progress = (rxReplenished \<or> eventReplenished \<or> sentNow \<noteq> []);
                   q = (if progress then q else goSleep T q)
               in Some (Inr \<lparr>sDev = d, sEndpoint = e, sPending = rest, sHw = q,
                    pushed = pushed s @ sentNow\<rparr>)))"

definition deviceStart :: "('q, 'v, 'e) virtio \<Rightarrow> 'v \<Rightarrow> 'v \<Rightarrow> 'v \<Rightarrow> 'q \<Rightarrow> 'q" where
  "deviceStart T vrx vtx vevent q =
     (let q = tSetQueue T ReceiveQueue vrx q;
          q = tSetQueue T TransmitQueue vtx q;
          q = tSetQueue T EventQueue vevent q;
          q = tSetReady T q;
          q = tQueueNotify T ReceiveQueue q
      in tQueueNotify T EventQueue q)"

definition endpointMethods :: "endpoint endpointOps" where
  "endpointMethods = \<lparr>opHandle = handle, opDrain = drain, opReset = reset\<rparr>"

text \<open>
  \<^verbatim>\<open>Serve\<close>: the state at the first round, or the error; then \<open>n\<close> rounds (the code loops for
  ever; \<open>Inl\<close> is its return, \<open>None\<close> an inner loop that never ends).
\<close>

definition serveStart :: "('q, 'v, 'e) virtio \<Rightarrow> 'v device \<Rightarrow> u32 \<Rightarrow> (bytes \<Rightarrow> bytes option) option \<Rightarrow>
    'q \<Rightarrow> 'e device_error + ('q, 'v, endpoint) server" where
  "serveStart T d port h q =
     (case (rx d, tx d, event d) of
        (Some vrx, Some vtx, Some vevent) \<Rightarrow>
          Inr \<lparr>sDev = d, sEndpoint = NewEndpoint (devCID d) port h, sPending = [],
               sHw = deviceStart T vrx vtx vevent q, pushed = []\<rparr>
      | _ \<Rightarrow> Inl NotInitialized)"

fun serveRounds :: "('q, 'v, 'e) virtio \<Rightarrow> 'ep endpointOps \<Rightarrow> nat \<Rightarrow> ('q, 'v, 'ep) server \<Rightarrow>
    ('e device_error + ('q, 'v, 'ep) server) option" where
  "serveRounds T E 0 s = Some (Inr s)"
| "serveRounds T E (Suc n) s =
     (case serveRound T E s of
        None \<Rightarrow> None
      | Some (Inl err) \<Rightarrow> Some (Inl err)
      | Some (Inr s) \<Rightarrow> serveRounds T E n s)"

section \<open>The transmit loop\<close>

lemma txLoop_split: "txLoop T d pending q = (pu, rest, d', q') \<Longrightarrow> pu @ rest = pending"
  by (induction T d pending q arbitrary: pu rest d' q' rule: txLoop.induct)
    (auto simp: Let_def split: if_splits prod.splits)

text \<open>
  While the device consumes nothing, the loop fills exactly the free slots of the ring; the
  counters are 16 bits wide and wrap.
\<close>

lemma txLoop_window:
  assumes "\<And>p q. qUsedTx T (tQueueNotify T TransmitQueue (qPushTx T p q)) = qUsedTx T q"
    and "txLoop T d pending q = (pu, rest, d', q')" and "unat (txSent d - qUsedTx T q) \<le> unat (txDepth d)"
  shows "length pu = min (length pending) (unat (txDepth d) - unat (txSent d - qUsedTx T q)) \<and>
    txSent d' = txSent d + word_of_nat (length pu) \<and> txDepth d' = txDepth d"
  using assms(2,3)
proof (induction pending arbitrary: d q pu rest d' q')
  case (Cons p pending)
  define u where "u = txSent d - qUsedTx T q"
  show ?case
  proof (cases "txAvailable T d q")
    case True
    then have lt: "unat u < unat (txDepth d)" by (simp add: txAvailable_def u_def word_less_nat_alt)
    then have u1: "unat (u + 1) = Suc (unat u)"
      using unsigned_less [of "txDepth d", where 'a = nat] by (simp add: unat_word_ariths)
    define d1 where "d1 = d\<lparr>txSent := txSent d + 1\<rparr>"
    define q1 where "q1 = tQueueNotify T TransmitQueue (qPushTx T p q)"
    obtain pu1 where rec: "txLoop T d1 pending q1 = (pu1, rest, d', q')" and pu: "pu = p # pu1"
      using Cons.prems(1) True by (auto simp: Let_def d1_def q1_def split: prod.splits)
    have u': "txSent d1 - qUsedTx T q1 = u + 1"
      by (simp add: d1_def q1_def assms(1) u_def)
    have "unat (txSent d1 - qUsedTx T q1) \<le> unat (txDepth d1)"
      using lt by (simp add: u' u1) (simp add: d1_def)
    from Cons.IH [OF rec this] show ?thesis
      using lt by (simp add: pu u' u1 flip: u_def) (auto simp: d1_def)
  next
    case False
    then have "\<not> unat u < unat (txDepth d)" by (simp add: txAvailable_def u_def word_less_nat_alt)
    then show ?thesis using Cons.prems False by (auto simp: u_def)
  qed
qed simp

section \<open>What the polling loop relies on\<close>

text \<open>
  The endpoint's contract towards the device: its operations keep an invariant, the packets they
  return fit the packet buffer, and a handler is installed.
\<close>

definition serveError :: "'e device_error \<Rightarrow> bool" where
  "serveError err \<longleftrightarrow> (\<exists>x. err = PopFailed x) \<or> (\<exists>x. err = HandleFailed x \<and> x \<noteq> NoHandler)"

lemma serveError_simps [simp]: "serveError (PopFailed y)" "serveError (HandleFailed x) \<longleftrightarrow> x \<noteq> NoHandler"
  by (simp_all add: serveError_def)

text \<open>The endpoint's invariant with a handler installed.\<close>

definition endpointReady :: "endpoint \<Rightarrow> bool" where
  "endpointReady e \<longleftrightarrow> endpointOk e \<and> Handler e \<noteq> None"

locale endpoint_contract =
  fixes hnd :: "'ep \<Rightarrow> connectionKey list \<Rightarrow> bytes \<Rightarrow> 'ep \<times> (vsock_error + bytes list)"
    and drn :: "'ep \<Rightarrow> connectionKey list \<Rightarrow> int \<Rightarrow> 'ep \<times> bytes list"
    and rst :: "'ep \<Rightarrow> 'ep"
    and ok :: "'ep \<Rightarrow> bool"
    and legal :: "connectionKey list \<Rightarrow> bool"
    and fits :: "bytes \<Rightarrow> bool"
  assumes hnd_ok: "ok e \<Longrightarrow> legal order \<Longrightarrow> hnd e order p = (e', Inr out) \<Longrightarrow> ok e'"
    and hnd_fits: "hnd e order p = (e', Inr out) \<Longrightarrow> \<forall>x \<in> set out. fits x"
    and hnd_err: "ok e \<Longrightarrow> hnd e order p = (e', Inl err) \<Longrightarrow> err \<noteq> NoHandler"
    and drn_ok: "ok e \<Longrightarrow> legal order \<Longrightarrow> drn e order limit = (e', out) \<Longrightarrow> ok e'"
    and drn_fits: "drn e order limit = (e', out) \<Longrightarrow> \<forall>x \<in> set out. fits x"
    and rst_ok: "ok e \<Longrightarrow> ok (rst e)"
begin

definition methods :: "'ep endpointOps" where
  "methods = \<lparr>opHandle = hnd, opDrain = drn, opReset = rst\<rparr>"

lemma methods_simps [simp]: "opHandle methods = hnd" "opDrain methods = drn" "opReset methods = rst"
  by (simp_all add: methods_def)

text \<open>A result of an inner loop that is fine: its endpoint, and the packets it appended.\<close>

definition fine :: "bytes list \<Rightarrow> 'e device_error + 'ep \<times> bytes list \<times> bool \<times> 'q \<Rightarrow> bool" where
  "fine before r \<longleftrightarrow> (case r of
     Inl err \<Rightarrow> serveError err
   | Inr (e, after, b, q) \<Rightarrow> ok e \<and> (\<exists>new. after = before @ new \<and> (\<forall>x \<in> set new. fits x)))"

lemma fine_append: "fine (before @ out) r \<Longrightarrow> \<forall>x \<in> set out. fits x \<Longrightarrow> fine before r"
  by (fastforce simp: fine_def split: sum.splits)

lemma rxLoop_fine:
  fixes T :: "('q, 'v, 'e) virtio"
  assumes "rxLoop T methods e pending b q = Some r"
    and "\<forall>q. legal (fst (goMapOrder T q))" and "ok e"
  shows "fine pending r"
proof -
  have "(\<forall>q. legal (fst (goMapOrder T q))) \<longrightarrow> methods = methods \<longrightarrow> ok e \<longrightarrow> fine pending r"
  proof (rule rxLoop.raw_induct [where P = "\<lambda>T E e pending b q r.
      (\<forall>q. legal (fst (goMapOrder T q))) \<longrightarrow> E = methods \<longrightarrow> ok e \<longrightarrow> fine pending r", OF _ assms(1)],
      intro impI)
    fix loop and T :: "('q, 'v, 'e) virtio" and E e pending b q r
    assume IH: "\<And>T E e pending b q r. loop T E e pending b q = Some r \<Longrightarrow>
        (\<forall>q. legal (fst (goMapOrder T q))) \<longrightarrow> E = methods \<longrightarrow> ok e \<longrightarrow> fine pending r"
      and eq: "(case qPop T ReceiveQueue q of
        (Inl err, q) \<Rightarrow> Some (Inl (PopFailed err))
      | (Inr p, q) \<Rightarrow>
          if p = [] then Some (Inr (e, pending, b, q))
          else let (order, q) = goMapOrder T q in
            (case opHandle E e order p of
               (e, Inl err) \<Rightarrow> Some (Inl (HandleFailed err))
             | (e, Inr packets) \<Rightarrow> loop T E e (pending @ packets) True q)) = Some r"
      and legal: "\<forall>q. legal (fst (goMapOrder T q))" and E: "E = methods" and ok: "ok e"
    obtain x q1 where pop: "qPop T ReceiveQueue q = (x, q1)" by fastforce
    obtain order q2 where mo: "goMapOrder T q1 = (order, q2)" by fastforce
    have lo: "legal order" using legal mo by (metis fst_conv)
    show "fine pending r"
    proof (cases x)
      case (Inl err)
      with eq pop show ?thesis by (auto simp: fine_def)
    next
      case (Inr p)
      show ?thesis
      proof (cases "p = []")
        case True
        with eq pop Inr ok show ?thesis by (auto simp: fine_def)
      next
        case False
        obtain e1 y where h: "hnd e order p = (e1, y)" by fastforce
        show ?thesis
        proof (cases y)
          case (Inl err)
          with eq pop Inr False mo h E hnd_err [OF ok h [unfolded Inl]] show ?thesis
            by (auto simp: fine_def)
        next
          case (Inr out)
          with eq pop \<open>x = Inr p\<close> False mo h E
          have "loop T E e1 (pending @ out) True q2 = Some r" by simp
          from IH [OF this] legal E hnd_ok [OF ok lo h [unfolded Inr]] hnd_fits [OF h [unfolded Inr]]
          show ?thesis by (auto intro: fine_append)
        qed
      qed
    qed
  qed
  with assms(2,3) show ?thesis by simp
qed

lemma eventLoop_fine:
  fixes T :: "('q, 'v, 'e) virtio"
  assumes "eventLoop T methods e b q = Some r" and "ok e"
  shows "case r of Inl err \<Rightarrow> serveError err | Inr (e, b, q) \<Rightarrow> ok e"
proof -
  have "methods = methods \<longrightarrow> ok e \<longrightarrow>
    (case r of Inl err \<Rightarrow> serveError err | Inr (e, b, q) \<Rightarrow> ok e)"
  proof (rule eventLoop.raw_induct [where P = "\<lambda>T E e b q r. E = methods \<longrightarrow> ok e \<longrightarrow>
      (case r of Inl err \<Rightarrow> serveError err | Inr (e, b, q) \<Rightarrow> ok e)", OF _ assms(1)],
      intro impI)
    fix loop and T :: "('q, 'v, 'e) virtio" and E e b q r
    assume IH: "\<And>T E e b q r. loop T E e b q = Some r \<Longrightarrow> E = methods \<longrightarrow> ok e \<longrightarrow>
        (case r of Inl err \<Rightarrow> serveError err | Inr (e, b, q) \<Rightarrow> ok e)"
      and eq: "(case qPop T EventQueue q of
        (Inl err, q) \<Rightarrow> Some (Inl (PopFailed err))
      | (Inr p, q) \<Rightarrow>
          if p = [] then Some (Inr (e, b, q))
          else loop T E
            (if length p \<ge> 4 \<and> (le_word (slice p 0 4) :: u32) = 0 then opReset E e else e) True q) = Some r"
      and E: "E = methods" and ok: "ok e"
    obtain x q1 where pop: "qPop T EventQueue q = (x, q1)" by fastforce
    show "case r of Inl err \<Rightarrow> serveError err | Inr (e, b, q) \<Rightarrow> ok e"
    proof (cases x)
      case (Inl err)
      with eq pop show ?thesis by auto
    next
      case (Inr p)
      show ?thesis
      proof (cases "p = []")
        case True
        with eq pop Inr ok show ?thesis by auto
      next
        case False
        define e1 where "e1 = (if length p \<ge> 4 \<and> (le_word (slice p 0 4) :: u32) = 0 then opReset E e else e)"
        from eq pop Inr False have "loop T E e1 True q1 = Some r" by (simp add: e1_def)
        moreover have "ok e1" using ok E rst_ok by (simp add: e1_def)
        ultimately show ?thesis using IH E by blast
      qed
    qed
  qed
  with assms(2) show ?thesis by simp
qed

definition serverOk :: "('q, 'v, 'ep) server \<Rightarrow> bool" where
  "serverOk s \<longleftrightarrow> ok (sEndpoint s) \<and> (\<forall>p \<in> set (sPending s). fits p) \<and> (\<forall>p \<in> set (pushed s). fits p)"

lemma serveRound_fine:
  fixes T :: "('q, 'v, 'e) virtio"
  assumes "serveRound T methods s = Some r" and "serverOk s" and legal: "\<forall>q. legal (fst (goMapOrder T q))"
  shows "case r of Inl err \<Rightarrow> serveError err
    | Inr s' \<Rightarrow> serverOk s' \<and> (\<exists>produced. pushed s' @ sPending s' = pushed s @ sPending s @ produced)"
proof -
  have ok: "ok (sEndpoint s)" using assms(2) by (simp add: serverOk_def)
  obtain r1 where r1: "rxLoop T methods (sEndpoint s) (sPending s) False (sHw s) = Some r1"
    using assms(1) by (cases "rxLoop T methods (sEndpoint s) (sPending s) False (sHw s)")
      (auto simp: serveRound_def)
  from rxLoop_fine [OF r1 legal ok] have f1: "fine (sPending s) r1" .
  show ?thesis
  proof (cases r1)
    case (Inl err)
    with f1 assms(1) r1 show ?thesis by (auto simp: serveRound_def fine_def)
  next
    case (Inr x)
    obtain e1 pend b1 q1 where x: "x = (e1, pend, b1, q1)" by (cases x)
    from f1 obtain new1 where e1: "ok e1" and pend: "pend = sPending s @ new1" "\<forall>p \<in> set new1. fits p"
      by (auto simp: Inr x fine_def)
    define q2 where "q2 = (if b1 then tQueueNotify T ReceiveQueue q1 else q1)"
    obtain r2 where r2: "eventLoop T methods e1 False q2 = Some r2"
      using assms(1) r1 Inr x by (cases "eventLoop T methods e1 False q2")
        (auto simp: serveRound_def q2_def Let_def)
    note f2 = eventLoop_fine [OF r2 e1]
    show ?thesis
    proof (cases r2)
      case (Inl err)
      with f2 assms(1) r1 r2 \<open>r1 = Inr x\<close> x show ?thesis by (auto simp: serveRound_def q2_def Let_def)
    next
      case (Inr y)
      obtain e2 b2 q3 where y: "y = (e2, b2, q3)" by (cases y)
      define q4 where "q4 = (if b2 then tQueueNotify T EventQueue q3 else q3)"
      obtain order q5 where mo: "goMapOrder T q4 = (order, q5)" by fastforce
      obtain e3 out where dr: "drn e2 order 8 = (e3, out)" by fastforce
      obtain pu rest d q6 where tx: "txLoop T (sDev s) (pend @ out) q5 = (pu, rest, d, q6)"
        by (metis prod_cases4)
      from assms(1) r1 r2 \<open>r1 = Inr x\<close> x Inr y mo dr tx obtain q7 where
        r: "r = Inr \<lparr>sDev = d, sEndpoint = e3, sPending = rest, sHw = q7, pushed = pushed s @ pu\<rparr>"
        by (auto simp: serveRound_def q2_def q4_def Let_def)
      have e2: "ok e2" using f2 by (simp add: Inr y)
      have lo: "legal order" using legal mo by (metis fst_conv)
      have split: "pu @ rest = sPending s @ new1 @ out"
        using txLoop_split [OF tx] pend(1) by simp
      then have "\<forall>p \<in> set pu \<union> set rest. fits p"
        using pend(2) drn_fits [OF dr] assms(2) unfolding serverOk_def
        by (metis Un_iff set_append)
      with assms(2) split drn_ok [OF e2 lo dr] show ?thesis by (auto simp: r serverOk_def)
    qed
  qed
qed

lemma serveRounds_fine:
  fixes T :: "('q, 'v, 'e) virtio"
  assumes "serveRounds T methods n s = Some r" and "serverOk s" and "\<forall>q. legal (fst (goMapOrder T q))"
  shows "case r of Inl err \<Rightarrow> serveError err
    | Inr s' \<Rightarrow> serverOk s' \<and> (\<exists>produced. pushed s' @ sPending s' = pushed s @ sPending s @ produced)"
  using assms(1,2)
proof (induction n arbitrary: s)
  case (Suc n)
  obtain r1 where r1: "serveRound T methods s = Some r1"
    using Suc.prems(1) by (cases "serveRound T methods s") auto
  note f = serveRound_fine [OF r1 Suc.prems(2) assms(3)]
  show ?case
  proof (cases r1)
    case (Inl err)
    with f Suc.prems(1) r1 show ?thesis by auto
  next
    case (Inr s1)
    with Suc.prems(1) r1 have "serveRounds T methods n s1 = Some r" by simp
    from Suc.IH [OF this] f Inr obtain produced where
      "case r of Inl err \<Rightarrow> serveError err
        | Inr s' \<Rightarrow> serverOk s' \<and> (\<exists>produced. pushed s' @ sPending s' = pushed s1 @ sPending s1 @ produced)"
      "pushed s1 @ sPending s1 = pushed s @ sPending s @ produced" by auto
    then show ?thesis
      by (cases r) (auto, metis append_assoc)
  qed
qed auto

end

interpretation vsock: endpoint_contract handle drain reset endpointReady distinct fitsBuffer
proof
  fix e e' :: endpoint and order p out err limit
  show "endpointReady e'" if "endpointReady e" "distinct order" "handle e order p = (e', Inr out)"
    using handle_step [OF that(3)] that by (simp add: stepOk_def sameConfig_def endpointReady_def)
  show "\<forall>x \<in> set out. fitsBuffer x" if "handle e order p = (e', Inr out)"
    using handle_fits [OF that] .
  show "err \<noteq> NoHandler" if "endpointReady e" "handle e order p = (e', Inl err)"
    using handle_error_iff [of e order p err] that by (auto simp: endpointReady_def)
  show "endpointReady e'" if "endpointReady e" "distinct order" "drain e order limit = (e', out)"
    using drain_spec [OF that(3)] that by (simp add: sameConfig_def endpointReady_def)
  show "\<forall>x \<in> set out. fitsBuffer x" if "drain e order limit = (e', out)"
    using drain_fits [OF that] by blast
  show "endpointReady (reset e)" if "endpointReady e"
    using that endpointOk_reset by (simp add: reset_def endpointReady_def)
qed

lemma methods_vsock: "vsock.methods = endpointMethods"
  by (simp add: vsock.methods_def endpointMethods_def)

section \<open>What a round receives\<close>

text \<open>The packets that popping the receive queue yields until it is empty, with the map orders.\<close>

inductive arrivals :: "('q, 'v, 'e) virtio \<Rightarrow> 'q \<Rightarrow> (connectionKey list \<times> bytes) list \<Rightarrow> 'q \<Rightarrow> bool"
  for T where
  idle: "qPop T ReceiveQueue q = (Inr [], q') \<Longrightarrow> arrivals T q [] q'"
| pop: "qPop T ReceiveQueue q = (Inr p, q1) \<Longrightarrow> p \<noteq> [] \<Longrightarrow> goMapOrder T q1 = (order, q2) \<Longrightarrow>
    arrivals T q2 ps q' \<Longrightarrow> arrivals T q ((order, p) # ps) q'"

inductive_cases arrivals_NilE: "arrivals T q [] q'"
inductive_cases arrivals_ConsE: "arrivals T q (a # ps) q'"

fun handleAll :: "'ep endpointOps \<Rightarrow> 'ep \<Rightarrow> (connectionKey list \<times> bytes) list \<Rightarrow>
    'ep \<times> (vsock_error + bytes list)" where
  "handleAll E e [] = (e, Inr [])"
| "handleAll E e ((order, p) # ps) =
     (case opHandle E e order p of
        (e, Inl err) \<Rightarrow> (e, Inl err)
      | (e, Inr out) \<Rightarrow>
          (case handleAll E e ps of
             (e, Inl err) \<Rightarrow> (e, Inl err)
           | (e, Inr out') \<Rightarrow> (e, Inr (out @ out'))))"

lemma rxLoop_arrivals:
  "arrivals T q ps q' \<Longrightarrow> rxLoop T E e pending b q = Some (case handleAll E e ps of
     (e', Inl err) \<Rightarrow> Inl (HandleFailed err)
   | (e', Inr out) \<Rightarrow> Inr (e', pending @ out, b \<or> ps \<noteq> [], q'))"
proof (induction arbitrary: e pending b rule: arrivals.induct)
  case (idle q q')
  then show ?case by (subst rxLoop.simps) simp
next
  case (pop q p q1 order q2 ps q')
  obtain e1 y where "opHandle E e order p = (e1, y)" by fastforce
  with pop show ?case
    by (subst rxLoop.simps) (cases y, auto split: prod.split sum.split)
qed

text \<open>A receive loop that ends without an error has handled exactly the packets that arrived.\<close>

lemma rxLoop_received:
  fixes T :: "('q, 'v, 'e) virtio" and E :: "'ep endpointOps"
  assumes "rxLoop T E e pending b q = Some (Inr (e', pend', b', q'))"
  shows "\<exists>ps out. arrivals T q ps q' \<and> handleAll E e ps = (e', Inr out) \<and> pend' = pending @ out \<and> b' = (b \<or> ps \<noteq> [])"
proof -
  define P where "P = (\<lambda>(T :: ('q, 'v, 'e) virtio) (E :: 'ep endpointOps) e pending b q (r :: 'e device_error + 'ep \<times> bytes list \<times> bool \<times> 'q). \<forall>e' pend' b' q'. r = Inr (e', pend', b', q') \<longrightarrow>
    (\<exists>ps out. arrivals T q ps q' \<and> handleAll E e ps = (e', Inr out) \<and> pend' = pending @ out \<and> b' = (b \<or> ps \<noteq> [])))"
  have "P T E e pending b q (Inr (e', pend', b', q'))"
  proof (rule rxLoop.raw_induct [where P = P, OF _ assms])
    fix loop and T :: "('q, 'v, 'e) virtio" and E :: "'ep endpointOps" and e pending b q r
    assume IH: "\<And>T E e pending b q r. loop T E e pending b q = Some r \<Longrightarrow> P T E e pending b q r"
      and eq: "(case qPop T ReceiveQueue q of
        (Inl err, q) \<Rightarrow> Some (Inl (PopFailed err))
      | (Inr p, q) \<Rightarrow>
          if p = [] then Some (Inr (e, pending, b, q))
          else let (order, q) = goMapOrder T q in
            (case opHandle E e order p of
               (e, Inl err) \<Rightarrow> Some (Inl (HandleFailed err))
             | (e, Inr packets) \<Rightarrow> loop T E e (pending @ packets) True q)) = Some r"
    show "P T E e pending b q r" unfolding P_def
    proof (intro allI impI)
      fix e' pend' b' q' assume r: "r = Inr (e', pend', b', q')"
      obtain p q1 where pop: "qPop T ReceiveQueue q = (Inr p, q1)"
        using eq r by (auto split: prod.splits sum.splits)
      show "\<exists>ps out. arrivals T q ps q' \<and> handleAll E e ps = (e', Inr out) \<and> pend' = pending @ out \<and> b' = (b \<or> ps \<noteq> [])"
      proof (cases "p = []")
        case True
        then show ?thesis using eq r pop by (intro exI [of _ "[]"]) (auto intro: arrivals.idle)
      next
        case False
        obtain order q2 where mo: "goMapOrder T q1 = (order, q2)" by fastforce
        obtain e1 out1 where h: "opHandle E e order p = (e1, Inr out1)"
          using eq r pop False mo by (auto split: prod.splits sum.splits)
        have "loop T E e1 (pending @ out1) True q2 = Some r" using eq pop False mo h by simp
        from IH [OF this] r obtain ps out where "arrivals T q2 ps q'" "handleAll E e1 ps = (e', Inr out)"
          "pend' = (pending @ out1) @ out" "b'" unfolding P_def by blast
        then show ?thesis using h
          by (intro exI [of _ "(order, p) # ps"] exI [of _ "out1 @ out"]) (auto intro: arrivals.pop [OF pop False mo])
      qed
    qed
  qed
  then show ?thesis by (simp add: P_def)
qed

text \<open>The events that popping the event queue yields, and what they do to the endpoint.\<close>

inductive events :: "('q, 'v, 'e) virtio \<Rightarrow> 'q \<Rightarrow> bytes list \<Rightarrow> 'q \<Rightarrow> bool" for T where
  idle: "qPop T EventQueue q = (Inr [], q') \<Longrightarrow> events T q [] q'"
| pop: "qPop T EventQueue q = (Inr p, q1) \<Longrightarrow> p \<noteq> [] \<Longrightarrow> events T q1 ps q' \<Longrightarrow> events T q (p # ps) q'"

definition onEvent :: "'ep endpointOps \<Rightarrow> bytes \<Rightarrow> 'ep \<Rightarrow> 'ep" where
  "onEvent E p e = (if length p \<ge> 4 \<and> (le_word (slice p 0 4) :: u32) = 0 then opReset E e else e)"

lemma eventLoop_events:
  fixes T :: "('q, 'v, 'e) virtio" and E :: "'ep endpointOps"
  assumes "eventLoop T E e b q = Some (Inr (e', b', q'))"
  shows "\<exists>es. events T q es q' \<and> e' = fold (onEvent E) es e \<and> b' = (b \<or> es \<noteq> [])"
proof -
  define P where "P = (\<lambda>(T :: ('q, 'v, 'e) virtio) (E :: 'ep endpointOps) e b q (r :: 'e device_error + 'ep \<times> bool \<times> 'q). \<forall>e' b' q'. r = Inr (e', b', q') \<longrightarrow>
    (\<exists>es. events T q es q' \<and> e' = fold (onEvent E) es e \<and> b' = (b \<or> es \<noteq> [])))"
  have "P T E e b q (Inr (e', b', q'))"
  proof (rule eventLoop.raw_induct [where P = P, OF _ assms])
    fix loop and T :: "('q, 'v, 'e) virtio" and E :: "'ep endpointOps" and e b q r
    assume IH: "\<And>T E e b q r. loop T E e b q = Some r \<Longrightarrow> P T E e b q r"
      and eq: "(case qPop T EventQueue q of
        (Inl err, q) \<Rightarrow> Some (Inl (PopFailed err))
      | (Inr p, q) \<Rightarrow>
          if p = [] then Some (Inr (e, b, q))
          else loop T E
            (if length p \<ge> 4 \<and> (le_word (slice p 0 4) :: u32) = 0 then opReset E e else e) True q) = Some r"
    show "P T E e b q r" unfolding P_def
    proof (intro allI impI)
      fix e' b' q' assume r: "r = Inr (e', b', q')"
      obtain p q1 where pop: "qPop T EventQueue q = (Inr p, q1)"
        using eq r by (auto split: prod.splits sum.splits)
      show "\<exists>es. events T q es q' \<and> e' = fold (onEvent E) es e \<and> b' = (b \<or> es \<noteq> [])"
      proof (cases "p = []")
        case True
        then show ?thesis using eq r pop by (intro exI [of _ "[]"]) (auto intro: events.idle)
      next
        case False
        then have "loop T E (onEvent E p e) True q1 = Some r"
          using eq pop by (auto simp: onEvent_def split: if_splits)
        from IH [OF this] r obtain es where "events T q1 es q'" "e' = fold (onEvent E) es (onEvent E p e)" "b'"
          unfolding P_def by blast
        then show ?thesis by (intro exI [of _ "p # es"]) (auto intro: events.pop [OF pop False])
      qed
    qed
  qed
  then show ?thesis by (simp add: P_def)
qed

text \<open>Pushing packets to the transmit queue, one notification each.\<close>

definition transmit :: "('q, 'v, 'e) virtio \<Rightarrow> bytes \<Rightarrow> 'q \<Rightarrow> 'q" where
  "transmit T p q = tQueueNotify T TransmitQueue (qPushTx T p q)"

lemma txLoop_transmit:
  "txLoop T d pending q = (pu, rest, d', q') \<Longrightarrow> q' = fold (transmit T) pu q \<and> (rest = [] \<or> \<not> txAvailable T d' q')"
  by (induction T d pending q arbitrary: pu rest d' q' rule: txLoop.induct)
    (auto simp: Let_def transmit_def split: if_splits prod.splits)

text \<open>
  A round that produced the packets \<open>out\<close>: the answers to the packets that arrived, in order, then one
  batch of the endpoint after the events. It sends \<open>now\<close>, and either nothing is left or the ring is full.
\<close>

definition roundProduces :: "('q, 'v, 'e) virtio \<Rightarrow> 'ep endpointOps \<Rightarrow> ('q, 'v, 'ep) server \<Rightarrow> bytes list \<Rightarrow>
    ('q, 'v, 'ep) server \<Rightarrow> bool" where
  "roundProduces T E s out s1 \<longleftrightarrow> (\<exists>ps q1 e1 replies es q2 order q3 batch now q4.
     arrivals T (sHw s) ps q1 \<and> handleAll E (sEndpoint s) ps = (e1, Inr replies) \<and>
     events T (if ps = [] then q1 else tQueueNotify T ReceiveQueue q1) es q2 \<and>
     goMapOrder T (if es = [] then q2 else tQueueNotify T EventQueue q2) = (order, q3) \<and>
     opDrain E (fold (onEvent E) es e1) order 8 = (sEndpoint s1, batch) \<and> out = replies @ batch \<and>
     pushed s1 = pushed s @ now \<and> now @ sPending s1 = sPending s @ out \<and>
     q4 = fold (transmit T) now q3 \<and> (sPending s1 = [] \<or> \<not> txAvailable T (sDev s1) q4) \<and>
     sHw s1 = (if ps = [] \<and> es = [] \<and> now = [] then goSleep T q4 else q4))"

inductive producing :: "('q, 'v, 'e) virtio \<Rightarrow> 'ep endpointOps \<Rightarrow> ('q, 'v, 'ep) server \<Rightarrow> bytes list list \<Rightarrow>
    ('q, 'v, 'ep) server \<Rightarrow> bool" for T E where
  start: "producing T E s [] s"
| round: "roundProduces T E s out s1 \<Longrightarrow> producing T E s1 outs s2 \<Longrightarrow> producing T E s (out # outs) s2"

lemma serveRound_produces:
  fixes T :: "('q, 'v, 'e) virtio"
  assumes "serveRound T E s = Some (Inr s1)"
  shows "\<exists>out. roundProduces T E s out s1"
proof -
  obtain x where "rxLoop T E (sEndpoint s) (sPending s) False (sHw s) = Some (Inr x)"
    using assms unfolding serveRound_def by (simp split: option.splits sum.splits)
  then obtain e1 pend b1 q1 where r1: "rxLoop T E (sEndpoint s) (sPending s) False (sHw s) = Some (Inr (e1, pend, b1, q1))"
    by (cases x) auto
  from rxLoop_received [OF r1] obtain ps replies where ps: "arrivals T (sHw s) ps q1"
    "handleAll E (sEndpoint s) ps = (e1, Inr replies)" "pend = sPending s @ replies" "b1 = (ps \<noteq> [])" by auto
  define q1' where "q1' = (if ps = [] then q1 else tQueueNotify T ReceiveQueue q1)"
  have q1': "(if b1 then tQueueNotify T ReceiveQueue q1 else q1) = q1'" by (simp add: q1'_def ps(4))
  obtain y where "eventLoop T E e1 False q1' = Some (Inr y)"
    using assms by (cases "eventLoop T E e1 False q1'"; cases "the (eventLoop T E e1 False q1')")
      (simp_all add: serveRound_def r1 Let_def q1')
  then obtain e2 b2 q2 where r2: "eventLoop T E e1 False q1' = Some (Inr (e2, b2, q2))" by (cases y) auto
  from eventLoop_events [OF r2] obtain es where es: "events T q1' es q2" "e2 = fold (onEvent E) es e1" "b2 = (es \<noteq> [])" by auto
  define q2' where "q2' = (if es = [] then q2 else tQueueNotify T EventQueue q2)"
  have q2': "(if b2 then tQueueNotify T EventQueue q2 else q2) = q2'" by (simp add: q2'_def es(3))
  obtain order q3 where mo: "goMapOrder T q2' = (order, q3)" by fastforce
  obtain e3 batch where dr: "opDrain E e2 order 8 = (e3, batch)" by fastforce
  obtain now rest d q4 where tx: "txLoop T (sDev s) (pend @ batch) q3 = (now, rest, d, q4)"
    by (metis prod_cases4)
  have s1: "s1 = \<lparr>sDev = d, sEndpoint = e3, sPending = rest,
      sHw = (if b1 \<or> b2 \<or> now \<noteq> [] then q4 else goSleep T q4), pushed = pushed s @ now\<rparr>"
    using assms by (simp add: serveRound_def r1 r2 Let_def q1' q2' mo dr tx)
  show ?thesis unfolding roundProduces_def
    by (rule exI [of _ "replies @ batch"], rule exI [of _ ps], rule exI [of _ q1], rule exI [of _ e1],
      rule exI [of _ replies], rule exI [of _ es], rule exI [of _ q2], rule exI [of _ order],
      rule exI [of _ q3], rule exI [of _ batch], rule exI [of _ now], rule exI [of _ q4],
      use ps(1,2) es(1,2) mo dr txLoop_split [OF tx] txLoop_transmit [OF tx] in
        \<open>auto simp: s1 q1'_def q2'_def ps(3,4) es(3)\<close>)
qed

lemma serveRounds_producing:
  "serveRounds T E n s = Some (Inr s') \<Longrightarrow>
    \<exists>outs. length outs = n \<and> producing T E s outs s' \<and> pushed s' @ sPending s' = pushed s @ sPending s @ concat outs"
proof (induction n arbitrary: s)
  case 0
  then show ?case by (auto intro: producing.start)
next
  case (Suc n)
  then obtain s1 where s1: "serveRound T E s = Some (Inr s1)" "serveRounds T E n s1 = Some (Inr s')"
    by (auto split: option.splits sum.splits)
  obtain out where out: "roundProduces T E s out s1" using serveRound_produces [OF s1(1)] by blast
  obtain outs where outs: "length outs = n" "producing T E s1 outs s'"
    "pushed s' @ sPending s' = pushed s1 @ sPending s1 @ concat outs" using Suc.IH [OF s1(2)] by blast
  have "pushed s1 @ sPending s1 = pushed s @ sPending s @ out"
    using out by (auto simp: roundProduces_def)
  then have "pushed s' @ sPending s' = pushed s @ sPending s @ out @ concat outs"
    using outs(3) by (metis append_assoc)
  then show ?case using outs(1,2) producing.round [OF out outs(2)] by (intro exI [of _ "out # outs"]) simp
qed

section \<open>A queue pair in memory\<close>

text \<open>A concrete transport for the examples: packets waiting, and packets pushed.\<close>

definition memVirtio :: "(bytes list \<times> bytes list, nat, nat) virtio" where
  "memVirtio = \<lparr>tInit = (\<lambda>_ q. (None, q)), tDeviceID = (\<lambda>_. 19), tNegotiatedFeatures = (\<lambda>_. FeatureVersion1),
     tQueueReady = (\<lambda>_ _. False), tConfig = (\<lambda>_ _. [3, 0, 0, 0, 0, 0, 0, 0]), tMaxQueueSize = (\<lambda>_ _. 256),
     tNewQueue = (\<lambda>_ _ _. 0), tSetQueueSize = (\<lambda>_ _ q. q), tSetQueue = (\<lambda>_ _ q. q), tSetReady = (\<lambda>q. q),
     tQueueNotify = (\<lambda>_ q. q),
     qPop = (\<lambda>index (waiting, out). if index = 0 then (case waiting of [] \<Rightarrow> (Inr [], (waiting, out))
       | p # ps \<Rightarrow> (Inr p, (ps, out))) else (Inr [], (waiting, out))),
     qPushTx = (\<lambda>p (waiting, out). (waiting, out @ [p])), qUsedTx = (\<lambda>_. 0),
     goMapOrder = (\<lambda>q. ([hostKey], q)), goSleep = (\<lambda>q. q)\<rparr>"

definition memDevice :: "nat device" where
  "memDevice = \<lparr>rx = Some 0, tx = Some 0, event = Some 0, txDepth = 32, txSent = 0, devCID = 3\<rparr>"

lemma memVirtio_simps [simp]:
  "tMaxQueueSize memVirtio i q = 256" "qUsedTx memVirtio q = 0" "goMapOrder memVirtio q = ([hostKey], q)"
  "tQueueNotify memVirtio i q = q" "qPushTx memVirtio p q = (fst q, snd q @ [p])"
  "qPop memVirtio 0 ([], out) = (Inr [], ([], out))"
  "qPop memVirtio 0 (p # ps, out) = (Inr p, (ps, out))"
  "qPop memVirtio 2 q = (Inr [], q)" "goSleep memVirtio q = q"
  by (simp_all add: memVirtio_def split_beta)

section \<open>Setting up the queues\<close>

lemma initQueue_depth:
  fixes n' :: int
  assumes "initQueue T i n fl q = (Inr (v, n'), q')"
  shows "1 \<le> unat (word_of_int n' :: u16) \<and> unat (word_of_int n' :: u16) \<le> 32"
proof -
  have n': "1 \<le> n' \<and> n' \<le> 32"
    using assms by (auto simp: initQueue_def Let_def queueDepth_def split: if_splits)
  then obtain m where m: "n' = int m" "1 \<le> m" "m \<le> 32" by (intro that [of "nat n'"]) auto
  then show ?thesis by simp
qed

lemma initQueues_None:
  assumes "initQueues T d q = (None, d', q')"
  shows "rx d' \<noteq> None \<and> tx d' \<noteq> None \<and> event d' \<noteq> None \<and> 1 \<le> unat (txDepth d') \<and> unat (txDepth d') \<le> 32 \<and>
    devCID d' = devCID d \<and> txSent d' = txSent d"
proof -
  obtain x q1 where 1: "initQueue T ReceiveQueue packetBufferSize virtioWrite q = (x, q1)" by fastforce
  obtain y q2 where 2: "initQueue T TransmitQueue packetBufferSize 0 q1 = (y, q2)" by fastforce
  obtain z q3 where 3: "initQueue T EventQueue eventBufferSize virtioWrite q2 = (z, q3)" by fastforce
  obtain v1 s1 where x: "x = Inr (v1, s1)" using assms 1 by (cases x) (auto simp: initQueues_def)
  obtain v2 s2 where y: "y = Inr (v2, s2)" using assms 1 2 x by (cases y) (auto simp: initQueues_def Let_def)
  obtain v3 s3 where z: "z = Inr (v3, s3)" using assms 1 2 3 x y by (cases z) (auto simp: initQueues_def Let_def)
  have "d' = d\<lparr>rx := Some v1, tx := Some v2, txDepth := word_of_int s2, event := Some v3\<rparr>"
    using assms 1 2 3 x y z by (simp add: initQueues_def Let_def)
  then show ?thesis using initQueue_depth [OF 2 [unfolded y]] by simp
qed

section \<open>Properties\<close>

text \<open>A device that initialises has its three queues, a transmit window of 1 to 32 packets, a
  non-zero guest CID read from the configuration, VERSION_1 negotiated, and nothing sent yet.\<close>

theorem device_init:
  assumes "deviceInit T newDevice q = (None, d, q')"
  shows "rx d \<noteq> None \<and> tx d \<noteq> None \<and> event d \<noteq> None \<and>
    1 \<le> unat (txDepth d) \<and> unat (txDepth d) \<le> 32 \<and> devCID d \<noteq> 0 \<and> txSent d = 0 \<and>
    (\<exists>q1. tDeviceID T q1 = 19 \<and> tNegotiatedFeatures T q1 AND FeatureVersion1 \<noteq> 0 \<and>
       length (tConfig T 8 q1) = 8 \<and> devCID d = le_word (tConfig T 8 q1) \<and>
       (\<forall>i \<le> 2. \<not> tQueueReady T i q1))"
proof -
  obtain x q1 where i: "tInit T FeatureVersion1 q = (x, q1)" by fastforce
  have ready: "queueInUse T q1 [ReceiveQueue, TransmitQueue, EventQueue] = None \<Longrightarrow> \<forall>i \<le> 2. \<not> tQueueReady T i q1"
    by (auto simp: ReceiveQueue_def TransmitQueue_def EventQueue_def le_Suc_eq numeral_2_eq_2 split: if_splits)
  define d0 where "d0 = (newDevice :: 'b device)\<lparr>devCID := le_word (tConfig T 8 q1)\<rparr>"
  have x: "x = None" using assms by (cases x) (simp_all add: deviceInit_def i)
  have id: "tDeviceID T q1 = DeviceID" using assms unfolding deviceInit_def i x by (simp split: if_splits)
  have v1: "tNegotiatedFeatures T q1 AND FeatureVersion1 \<noteq> 0"
    using assms unfolding deviceInit_def i x by (simp add: id split: if_splits)
  have nouse: "queueInUse T q1 [ReceiveQueue, TransmitQueue, EventQueue] = None"
    using assms unfolding deviceInit_def i x
    by (cases "queueInUse T q1 [ReceiveQueue, TransmitQueue, EventQueue]") (simp_all add: id v1 del: queueInUse.simps)
  have rest: "length (tConfig T 8 q1) = 8 \<and> devCID d0 \<noteq> 0 \<and> initQueues T d0 q1 = (None, d, q')"
    using assms unfolding deviceInit_def i x
    by (simp add: id v1 nouse Let_def d0_def del: queueInUse.simps split: if_splits)
  have pre: "tDeviceID T q1 = 19" "\<forall>i \<le> 2. \<not> tQueueReady T i q1" "length (tConfig T 8 q1) = 8" "devCID d0 \<noteq> 0"
    "initQueues T d0 q1 = (None, d, q')"
    using id rest ready [OF nouse] by (simp_all only: DeviceID_def simp_thms)
  have "rx d \<noteq> None \<and> tx d \<noteq> None \<and> event d \<noteq> None \<and> 1 \<le> unat (txDepth d) \<and> unat (txDepth d) \<le> 32 \<and>
      devCID d = devCID d0 \<and> txSent d = txSent d0"
    by (rule initQueues_None [OF pre(5)])
  then show ?thesis using pre v1 by (auto simp: d0_def newDevice_def intro!: exI [of _ q1])
qed

theorem device_init_witness:
  "\<exists>d q'. deviceInit memVirtio newDevice ([], []) = (None, d, q') \<and> txDepth d = 32 \<and> devCID d = 3 \<and>
    rx d \<noteq> None \<and> 1 \<le> unat (txDepth d)"
proof -
  have init: "deviceInit memVirtio newDevice ([], []) = (None, memDevice, ([], []))"
    by (simp add: deviceInit_def memVirtio_def newDevice_def memDevice_def initQueues_def initQueue_def
        DeviceID_def FeatureVersion1_def queueDepth_def Let_def)
  from device_init [OF init] init show ?thesis by (simp add: memDevice_def)
qed

text \<open>C11: when the device stops delivering, the receive loop ends, and it has handled exactly the
  packets that arrived, in order, appending exactly what the endpoint answered; an error of the
  endpoint ends it with that error.\<close>

theorem device_receive_loop:
  assumes "arrivals T q ps q'"
  shows "rxLoop T endpointMethods e pending b q = Some (case handleAll endpointMethods e ps of
     (e', Inl err) \<Rightarrow> Inl (HandleFailed err)
   | (e', Inr out) \<Rightarrow> Inr (e', pending @ out, b \<or> ps \<noteq> [], q'))"
  using assms by (rule rxLoop_arrivals)

lemma arrivals_mem: "arrivals memVirtio (ps, out) (map (\<lambda>p. ([hostKey], p)) ps) ([], out)" if "[] \<notin> set ps"
  using that
proof (induction ps)
  case Nil
  then show ?case by (auto intro: arrivals.idle simp: ReceiveQueue_def)
next
  case (Cons p ps)
  then show ?case by (auto intro!: arrivals.pop [where order = "[hostKey]"] simp: ReceiveQueue_def)
qed

theorem device_receive_loop_witness:
  "rxLoop memVirtio endpointMethods testEndpoint [] False ([hostPacket OpRequest []], []) =
     Some (Inr (testEndpoint\<lparr>connections := [(hostKey, openConn)]\<rparr>,
       [encodePacket (replyHeader testEndpoint openConn OpResponse 0) []], True, ([], [])))"
proof -
  have "hostPacket OpRequest [] \<noteq> []"
    by (metis length_encodePacket HeaderSize_def hostPacket_def list.size(3) add_is_0 zero_neq_numeral)
  then have "arrivals memVirtio ([hostPacket OpRequest []], []) [([hostKey], hostPacket OpRequest [])] ([], [])"
    using arrivals_mem [of "[hostPacket OpRequest []]" "[]"] by simp
  from device_receive_loop [OF this, of testEndpoint "[]" False] show ?thesis
    by (simp add: endpointMethods_def open_test)
qed

text \<open>C12: what leaves is what was produced, first in, first out. Each of the \<open>n\<close> rounds produces the answers
  of \<open>handle\<close> to the packets that arrived in it, in order, and then one batch of \<open>drain\<close>, taken after the
  events of the round have reset the endpoint (\<open>roundProduces\<close>, which also says what the round does to
  the hardware: the notifications, one push for each packet sent until the ring is full or nothing is
  left, and a sleep when nothing happened). The packets given to the transmit queue followed by those
  still pending grow by exactly these productions: nothing is lost, invented, repeated or reordered.
  Each packet fits the 65580-byte buffer, and the endpoint keeps its invariant.\<close>

theorem device_fifo:
  assumes "serveRounds T endpointMethods n s = Some (Inr s')"
    and "endpointOk (sEndpoint s)" "Handler (sEndpoint s) \<noteq> None"
    and "\<forall>p \<in> set (pushed s @ sPending s). length p \<le> packetBufferSize"
    and "\<forall>q. distinct (fst (goMapOrder T q))"
  shows "(\<exists>outs. length outs = n \<and> producing T endpointMethods s outs s' \<and>
      pushed s' @ sPending s' = pushed s @ sPending s @ concat outs) \<and>
    prefix (pushed s @ sPending s) (pushed s' @ sPending s') \<and>
    (\<forall>p \<in> set (pushed s' @ sPending s'). length p \<le> packetBufferSize) \<and> endpointOk (sEndpoint s')"
proof -
  have "vsock.serverOk s"
    using assms(2-4) by (simp add: vsock.serverOk_def endpointReady_def fitsBuffer_def packetBufferSize_def ball_Un)
  from vsock.serveRounds_fine [OF assms(1) [folded methods_vsock] this assms(5)] serveRounds_producing [OF assms(1)]
  show ?thesis by (auto simp: vsock.serverOk_def endpointReady_def fitsBuffer_def packetBufferSize_def prefix_def)
qed

definition memServer :: "(bytes list \<times> bytes list, nat, endpoint) server" where
  "memServer = \<lparr>sDev = memDevice, sEndpoint = testEndpoint\<lparr>connections := [(hostKey, openConn)]\<rparr>, sPending = [[1]],
     sHw = ([], []), pushed = []\<rparr>"

text \<open>A round that finds an answer ready: an older packet goes first, then the two of the batch.\<close>

definition answeredServer :: "(bytes list \<times> bytes list, nat, endpoint) server" where
  "answeredServer = \<lparr>sDev = memDevice\<lparr>txSent := 3\<rparr>, sEndpoint = testEndpoint\<lparr>connections := [(hostKey, answeredConn)]\<rparr>,
     sPending = [], sHw = ([], [1] # answerPackets), pushed = [1] # answerPackets\<rparr>"

lemma round_ready: "serveRounds memVirtio endpointMethods 1 (memServer\<lparr>sEndpoint := readyEndpoint\<rparr>) = Some (Inr answeredServer)"
proof -
  have rxq: "rxLoop memVirtio E e pending b ([], out) = Some (Inr (e, pending, b, ([], out)))" for E e pending b out
    using rxLoop_arrivals [OF arrivals_mem [of "[]" out]] by simp
  have ev: "eventLoop memVirtio E e b q = Some (Inr (e, b, q))" for E e b q
    by (subst eventLoop.simps) (simp add: EventQueue_def)
  obtain p1 p2 where p: "answerPackets = [p1, p2]" by (simp add: answerPackets_def)
  show ?thesis using drain_ready [unfolded p]
    by (simp add: serveRound_def memServer_def answeredServer_def rxq ev endpointMethods_def txAvailable_def memDevice_def
        Let_def p ReceiveQueue_def TransmitQueue_def)
qed

theorem device_fifo_witness:
  "(\<exists>outs. length outs = 1 \<and> producing memVirtio endpointMethods (memServer\<lparr>sEndpoint := readyEndpoint\<rparr>) outs answeredServer \<and>
      concat outs = answerPackets) \<and> prefix [[1]] (pushed answeredServer)"
proof -
  have "endpointOk (sEndpoint (memServer\<lparr>sEndpoint := readyEndpoint\<rparr>))"
    "Handler (sEndpoint (memServer\<lparr>sEndpoint := readyEndpoint\<rparr>)) \<noteq> None"
    using readyEndpoint_ok by (simp_all add: readyEndpoint_def testEndpoint_def NewEndpoint_def)
  from device_fifo [OF round_ready this] show ?thesis
    by (auto simp: memServer_def answeredServer_def packetBufferSize_def HeaderSize_def)
qed

text \<open>The transmit loop never overruns the ring: while the device consumes nothing it pushes
  exactly as many packets as there are free slots (or all of them), its 16-bit counter advancing by
  that number modulo 65536.\<close>

theorem device_tx_window:
  assumes "\<And>p q. qUsedTx T (tQueueNotify T TransmitQueue (qPushTx T p q)) = qUsedTx T q"
    and "txLoop T d pending q = (pu, rest, d', q')" and "unat (txSent d - qUsedTx T q) \<le> unat (txDepth d)"
  shows "pu @ rest = pending \<and>
    length pu = min (length pending) (unat (txDepth d) - unat (txSent d - qUsedTx T q)) \<and>
    txSent d' = txSent d + word_of_nat (length pu)"
  using txLoop_split [OF assms(2)] txLoop_window [OF assms] by blast

theorem device_tx_window_witness:
  "txLoop memVirtio (memDevice\<lparr>txDepth := 1\<rparr>) [[1], [2]] ([], []) =
     ([[1]], [[2]], memDevice\<lparr>txDepth := 1, txSent := 1\<rparr>, ([], [[1]])) \<and>
   length [[1::u8]] = min (length [[1::u8], [2]]) (1 - 0)"
proof -
  have run: "txLoop memVirtio (memDevice\<lparr>txDepth := 1\<rparr>) [[1], [2]] ([], []) =
     ([[1]], [[2]], memDevice\<lparr>txDepth := 1, txSent := 1\<rparr>, ([], [[1]]))"
    by (simp add: txAvailable_def memDevice_def Let_def)
  show ?thesis
    using device_tx_window [OF _ run] run by (simp add: memDevice_def)
qed

text \<open>C13: \<^verbatim>\<open>Serve\<close> with a handler returns only when a queue fails or a received packet is malformed
  (shorter than a header, or announcing more payload than it carries): never for lack of a handler,
  and never because of anything a well-formed packet asks.\<close>

theorem device_serve_errors:
  assumes "serveRounds T endpointMethods n s = Some (Inl err)"
    and "endpointOk (sEndpoint s)" "Handler (sEndpoint s) \<noteq> None"
    and "\<forall>p \<in> set (pushed s @ sPending s). length p \<le> packetBufferSize"
    and "\<forall>q. distinct (fst (goMapOrder T q))"
  shows "(\<exists>x. err = PopFailed x) \<or> err = HandleFailed ShortPacket \<or> err = HandleFailed InvalidPayloadLength"
proof -
  have "vsock.serverOk s"
    using assms(2-4) by (simp add: vsock.serverOk_def endpointReady_def fitsBuffer_def packetBufferSize_def ball_Un)
  from vsock.serveRounds_fine [OF assms(1) [folded methods_vsock] this assms(5)]
  show ?thesis by (auto simp: serveError_def intro: vsock_error.exhaust)
qed

theorem device_serve_errors_witness:
  "serveRounds memVirtio endpointMethods 1 (memServer\<lparr>sHw := ([[1]], [])\<rparr>) =
     Some (Inl (HandleFailed ShortPacket)) \<and>
   (\<nexists>x. HandleFailed ShortPacket = (PopFailed x :: nat device_error))"
proof -
  have "arrivals memVirtio ([[1]], []) [([hostKey], [1])] ([], [])"
    using arrivals_mem [of "[[1]]" "[]"] by simp
  from rxLoop_arrivals [OF this, of endpointMethods "sEndpoint memServer" "[[1]]" False]
  have "rxLoop memVirtio endpointMethods (sEndpoint memServer) [[1]] False ([[1]], []) =
      Some (Inl (HandleFailed ShortPacket))"
    by (simp add: endpointMethods_def handle_def decodePacket_def HeaderSize_def)
  then have run: "serveRounds memVirtio endpointMethods 1 (memServer\<lparr>sHw := ([[1]], [])\<rparr>) =
      Some (Inl (HandleFailed ShortPacket))"
    by (simp add: serveRound_def memServer_def)
  have "endpointOk (sEndpoint memServer)" "Handler (sEndpoint memServer) \<noteq> None"
    by (simp_all add: memServer_def endpointOk_def testEndpoint_def NewEndpoint_def connOk_def
        openConn_def hostKey_def DefaultBuffer_def DefaultMaxConns_def responseBytes_def)
  with device_serve_errors [OF run] run show ?thesis
    by (simp add: memServer_def packetBufferSize_def HeaderSize_def)
qed

end
