(* ===== verification/Dhcp_Wire.thy ===== *)
theory Dhcp_Wire
  imports Prelude
begin

text \<open>
  The wire half of \<^verbatim>\<open>kernel/sprnet/dhcp.go\<close>: options, the Internet checksum, the frame the client
  sends and the parser of what the server answers. Accesses whose bounds the source checks far from
  the access go through \<open>go_index\<close> and \<open>go_slice\<close>, so that a missing check would show as
  \<open>Panic\<close>.
\<close>

section \<open>Constants and types\<close>

definition bootpFixedLength :: nat where "bootpFixedLength = 236"
definition dhcpMinLength :: nat where "dhcpMinLength = 300"
definition dhcpClientPort :: u16 where "dhcpClientPort = 68"
definition dhcpServerPort :: u16 where "dhcpServerPort = 67"
definition dhcpCookie :: bytes where "dhcpCookie = [99, 130, 83, 99]"

text \<open>\<^verbatim>\<open>netip.Addr\<close>, of which the program only makes the zero value and IPv4 addresses.\<close>

datatype addr = AddrZero | AddrFrom4 u8 u8 u8 u8

fun IsValid :: "addr \<Rightarrow> bool" where
  "IsValid AddrZero = False"
| "IsValid (AddrFrom4 a b c d) = True"

fun Is4 :: "addr \<Rightarrow> bool" where
  "Is4 AddrZero = False"
| "Is4 (AddrFrom4 a b c d) = True"

fun IsUnspecified :: "addr \<Rightarrow> bool" where
  "IsUnspecified AddrZero = False"
| "IsUnspecified (AddrFrom4 a b c d) = (a = 0 \<and> b = 0 \<and> c = 0 \<and> d = 0)"

text \<open>\<^verbatim>\<open>As4\<close> panics on the zero address; every call is guarded by \<^verbatim>\<open>Is4\<close>.\<close>

fun As4 :: "addr \<Rightarrow> bytes" where
  "As4 AddrZero = []"
| "As4 (AddrFrom4 a b c d) = [a, b, c, d]"

definition addr4 :: "bytes \<Rightarrow> addr" where
  "addr4 data = (if length data < 4 then AddrZero
     else AddrFrom4 (data ! 0) (data ! 1) (data ! 2) (data ! 3))"

record dhcpPacket =
  messageType :: u8
  address :: addr
  serverAddr :: addr
  mask4 :: bytes
  router :: addr
  dns :: "addr list"
  leaseTime :: int

definition zeroPacket :: dhcpPacket where
  "zeroPacket = \<lparr>messageType = 0, address = AddrZero, serverAddr = AddrZero, mask4 = [0, 0, 0, 0],
     router = AddrZero, dns = [], leaseTime = 0\<rparr>"

text \<open>\<^verbatim>\<open>time.Second\<close>, in nanoseconds.\<close>

definition Second :: int where "Second = 1000000000"

text \<open>\<^verbatim>\<open>copy(dst[i:j], src)\<close>.\<close>

definition copy_into :: "'a list \<Rightarrow> nat \<Rightarrow> nat \<Rightarrow> 'a list \<Rightarrow> 'a list" where
  "copy_into dst i j src = copy_at dst i (take (j - i) src)"

section \<open>The checksum\<close>

text \<open>The 32-bit sum of the big-endian 16-bit words; an odd last byte is the high half of a word.\<close>

fun sumWords :: "u32 \<Rightarrow> bytes \<Rightarrow> u32" where
  "sumWords acc (a # b # data) = sumWords (acc + ucast (be_word [a, b] :: u16)) data"
| "sumWords acc [a] = acc + push_bit 8 (ucast a)"
| "sumWords acc [] = acc"

text \<open>The loop that folds the carries in.\<close>

lemma foldSum_decreases:
  assumes "drop_bit 16 (s :: u32) \<noteq> 0"
  shows "unat ((s AND 0xffff) + drop_bit 16 s) < unat s"
proof -
  have a: "unat (s AND 0xffff) = unat s mod 65536"
  proof -
    have "s AND 0xffff = take_bit 16 s" by (simp add: take_bit_eq_mask mask_eq_exp_minus_1)
    then show ?thesis by (simp add: take_bit_eq_mod unat_mod)
  qed
  have d: "unat (drop_bit 16 s) = unat s div 65536"
    by (simp add: drop_bit_eq_div unat_div)
  have s: "unat s < 4294967296" using unsigned_less [of s] by simp
  then have "unat s div 65536 < 65536" by (simp add: less_mult_imp_div_less)
  then have sum: "unat ((s AND 0xffff) + drop_bit 16 s) = unat s mod 65536 + unat s div 65536"
    using mod_less_divisor [of 65536 "unat s"] by (subst unat_plus_simple [THEN iffD1])
      (simp_all add: a d no_plus_overflow_unat_size word_le_nat_alt unat_word_ariths)
  have "unat s div 65536 \<noteq> 0" using assms d by (metis unat_eq_zero)
  then show ?thesis using sum mod_mult_div_eq [of "unat s" 65536] by linarith
qed

function foldSum :: "u32 \<Rightarrow> u32" where
  "foldSum s = (if drop_bit 16 s \<noteq> 0 then foldSum ((s AND 0xffff) + drop_bit 16 s) else s)"
  by pat_completeness auto
termination by (relation "measure unat") (auto intro: foldSum_decreases)

declare foldSum.simps [simp del]

definition internetChecksum :: "bytes \<Rightarrow> u16" where
  "internetChecksum data = NOT (ucast (foldSum (sumWords 0 data)))"

section \<open>Options\<close>

text \<open>
  \<^verbatim>\<open>appendOption(dst, pos, code, value)\<close> writes into \<^verbatim>\<open>dst\<close>; the slice is returned with the
  position. An option that does not fit is left out.
\<close>

definition appendOption :: "bytes \<Rightarrow> nat \<Rightarrow> u8 \<Rightarrow> bytes \<Rightarrow> bytes \<times> nat" where
  "appendOption dst pos code value =
     (if length value > 255 \<or> pos + 2 + length value \<ge> length dst then (dst, pos)
      else (copy_at (dst[pos := code, pos + 1 := word_of_nat (length value)]) (pos + 2) value,
            pos + 2 + length value))"

datatype dhcp_error = NotIPv4DHCPFrame | InvalidIPv4Header | NotServerResponse | InvalidUDPLength
  | InvalidBOOTP | TruncatedOptionLength | TruncatedOptionValue

function parseOptionsFrom :: "bytes \<Rightarrow> nat \<Rightarrow> (u8 \<rightharpoonup> bytes) \<Rightarrow> (dhcp_error, u8 \<rightharpoonup> bytes) result" where
  "parseOptionsFrom data pos options =
     (if pos < length data then
        (case go_index data pos of
          Inl p \<Rightarrow> Inl p
        | Inr code \<Rightarrow>
            let pos = pos + 1 in
            if code = 0 then parseOptionsFrom data pos options
            else if code = 255 then Inr options
            else if pos \<ge> length data then Inl (Err TruncatedOptionLength)
            else
              (case go_index data pos of
                Inl p \<Rightarrow> Inl p
              | Inr b \<Rightarrow>
                  let len = unat b; pos = pos + 1 in
                  if pos + len > length data then Inl (Err TruncatedOptionValue)
                  else
                    (case go_slice data pos (pos + len) of
                      Inl p \<Rightarrow> Inl p
                    | Inr value \<Rightarrow> parseOptionsFrom data (pos + len) (options(code \<mapsto> value)))))
      else Inr options)"
  by pat_completeness auto
termination by (relation "measure (\<lambda>(data, pos, _). length data - pos)") auto

declare parseOptionsFrom.simps [simp del]

definition parseOptions :: "bytes \<Rightarrow> (dhcp_error, u8 \<rightharpoonup> bytes) result" where
  "parseOptions data = parseOptionsFrom data 0 Map.empty"

text \<open>\<^verbatim>\<open>options[code]\<close>: nil, which reads as empty, for an absent key.\<close>

definition optionValue :: "(u8 \<rightharpoonup> bytes) \<Rightarrow> u8 \<Rightarrow> bytes" where
  "optionValue options code = (case options code of None \<Rightarrow> [] | Some v \<Rightarrow> v)"

section \<open>The client's frame\<close>

text \<open>The option area: 60 bytes for the discover and request options.\<close>

definition clientOptions :: "bytes \<Rightarrow> u8 \<Rightarrow> addr \<Rightarrow> addr \<Rightarrow> bytes \<Rightarrow> bytes" where
  "clientOptions mac mtype requested server hostname =
     (let options = replicate (dhcpMinLength - (bootpFixedLength + 4)) 0;
          (options, pos) = appendOption options 0 53 [mtype];
          (options, pos) = appendOption options pos 61 (1 # mac);
          (options, pos) = (if mtype = 3 \<and> Is4 requested
                            then appendOption options pos 50 (As4 requested) else (options, pos));
          (options, pos) = (if mtype = 3 \<and> Is4 server
                            then appendOption options pos 54 (As4 server) else (options, pos));
          (options, pos) = (if hostname \<noteq> []
                            then appendOption options pos 12
                              (if length hostname > 63 then take 63 hostname else hostname)
                            else (options, pos));
          (options, pos) = appendOption options pos 55 [1, 3, 6, 15, 51, 54];
          (options, pos) = appendOption options pos 57 [5, 0xdc]
      in options[pos := 255])"

definition clientPayload :: "bytes \<Rightarrow> u32 \<Rightarrow> bytes \<Rightarrow> bytes" where
  "clientPayload mac xid options =
     (let payload = replicate dhcpMinLength 0;
          payload = payload[0 := 1, 1 := 1, 2 := 6];
          payload = copy_into payload 4 8 (be_bytes 4 xid);
          payload = copy_into payload 10 12 (be_bytes 2 (0x8000 :: u16));
          payload = copy_into payload 28 34 mac;
          payload = copy_into payload bootpFixedLength (bootpFixedLength + 4) dhcpCookie
      in copy_into payload (bootpFixedLength + 4) dhcpMinLength options)"

text \<open>The IPv4 header of a frame with a zero checksum field, then with its checksum.\<close>

definition clientIP :: "nat \<Rightarrow> u32 \<Rightarrow> bytes" where
  "clientIP ipLen xid =
     (let ip = replicate 20 0;
          ip = ip[0 := 0x45, 8 := 64, 9 := 17];
          ip = copy_into ip 2 4 (be_bytes 2 (word_of_nat ipLen :: u16));
          ip = copy_into ip 4 6 (be_bytes 2 (ucast xid :: u16));
          ip = copy_into ip 16 20 [255, 255, 255, 255]
      in copy_into ip 10 12 (be_bytes 2 (internetChecksum ip)))"

definition clientUDP :: "nat \<Rightarrow> bytes" where
  "clientUDP udpLen =
     (let udp = replicate 8 0;
          udp = copy_into udp 0 2 (be_bytes 2 dhcpClientPort);
          udp = copy_into udp 2 4 (be_bytes 2 dhcpServerPort)
      in copy_into udp 4 6 (be_bytes 2 (word_of_nat udpLen :: u16)))"

definition buildClientFrame :: "bytes \<Rightarrow> u32 \<Rightarrow> u8 \<Rightarrow> addr \<Rightarrow> addr \<Rightarrow> bytes \<Rightarrow> bytes" where
  "buildClientFrame mac xid mtype requested server hostname =
     (let payload = clientPayload mac xid (clientOptions mac mtype requested server hostname);
          udpLen = 8 + length payload;
          ipLen = 20 + udpLen;
          frame = replicate (14 + ipLen) 0;
          frame = copy_into frame 0 6 (replicate 6 0xff);
          frame = copy_into frame 6 12 mac;
          frame = copy_into frame 12 14 (be_bytes 2 (0x0800 :: u16));
          frame = copy_into frame 14 34 (clientIP ipLen xid);
          frame = copy_into frame 34 42 (clientUDP udpLen)
      in copy_at frame 42 payload)"

section \<open>The server's frame\<close>

text \<open>The loop over the addresses of option 6, then the reading of the options one by one.\<close>

function dnsLoop :: "bytes \<Rightarrow> addr list \<Rightarrow> (dhcp_error, addr list) result" where
  "dnsLoop v addrs =
     (if length v \<ge> 4 then
        (case go_slice v 0 4 of
          Inl p \<Rightarrow> Inl p
        | Inr a \<Rightarrow>
            (case go_slice v 4 (length v) of
              Inl p \<Rightarrow> Inl p
            | Inr rest \<Rightarrow> dnsLoop rest (addrs @ [addr4 a])))
      else Inr addrs)"
  by pat_completeness auto
termination by (relation "measure (\<lambda>(v, _). length v)") (auto simp: go_slice_def)

declare dnsLoop.simps [simp del]

definition setOptions :: "(u8 \<rightharpoonup> bytes) \<Rightarrow> dhcpPacket \<Rightarrow> (dhcp_error, dhcpPacket) result" where
  "setOptions options p =
     (let v = optionValue options 53 in
     and_then (if length v = 1 then and_then (go_index v 0) (\<lambda>t. Inr (p\<lparr>messageType := t\<rparr>)) else Inr p) (\<lambda>p.
     let v = optionValue options 54;
         p = (if length v = 4 then p\<lparr>serverAddr := addr4 v\<rparr> else p);
         v = optionValue options 1;
         p = (if length v = 4 then p\<lparr>mask4 := v\<rparr> else p);
         v = optionValue options 3 in
     and_then (if length v \<ge> 4 then and_then (go_slice v 0 4) (\<lambda>a. Inr (p\<lparr>router := addr4 a\<rparr>)) else Inr p) (\<lambda>p.
     let v = optionValue options 6 in
     and_then (if length v \<ge> 4 then and_then (dnsLoop v (dns p)) (\<lambda>l. Inr (p\<lparr>dns := l\<rparr>)) else Inr p) (\<lambda>p.
     let v = optionValue options 51 in
     if length v = 4
     then and_then (go_slice v 0 4) (\<lambda>s. Inr (p\<lparr>leaseTime := uint (be_word s :: u32) * Second\<rparr>))
     else Inr p))))"

definition parsePayload :: "bytes \<Rightarrow> (dhcp_error, dhcpPacket \<times> u32 \<times> bytes) result" where
  "parsePayload payload =
     and_then (go_index payload 0) (\<lambda>op.
     and_then (go_index payload 1) (\<lambda>htype.
     and_then (go_index payload 2) (\<lambda>hlen.
     and_then (go_slice payload bootpFixedLength (bootpFixedLength + 4)) (\<lambda>cookie.
     if op \<noteq> 2 \<or> htype \<noteq> 1 \<or> hlen \<noteq> 6 \<or> cookie \<noteq> dhcpCookie then Inl (Err InvalidBOOTP)
     else
     and_then (go_slice payload 4 8) (\<lambda>xid.
     and_then (go_slice payload 28 34) (\<lambda>mac.
     and_then (go_slice payload 16 20) (\<lambda>yiaddr.
     and_then (go_slice payload 20 24) (\<lambda>siaddr.
     and_then (go_slice payload (bootpFixedLength + 4) (length payload)) (\<lambda>area.
     and_then (parseOptions area) (\<lambda>options.
     and_then (setOptions options (zeroPacket\<lparr>address := addr4 yiaddr, serverAddr := addr4 siaddr\<rparr>)) (\<lambda>packet.
     Inr (packet, be_word xid, mac))))))))))))"

text \<open>The UDP datagram, then the frame around it.\<close>

definition parseUDP :: "bytes \<Rightarrow> (dhcp_error, dhcpPacket \<times> u32 \<times> bytes) result" where
  "parseUDP udp =
     and_then (go_slice udp 0 2) (\<lambda>sport.
     and_then (go_slice udp 2 4) (\<lambda>dport.
     if (be_word sport :: u16) \<noteq> dhcpServerPort \<or> (be_word dport :: u16) \<noteq> dhcpClientPort
     then Inl (Err NotServerResponse)
     else
     and_then (go_slice udp 4 6) (\<lambda>lenField.
     let udpLen = unat (be_word lenField :: u16) in
     if udpLen < 8 + bootpFixedLength + 4 \<or> udpLen > length udp then Inl (Err InvalidUDPLength)
     else and_then (go_slice udp 8 udpLen) parsePayload)))"

definition parseServerFrame :: "bytes \<Rightarrow> (dhcp_error, dhcpPacket \<times> u32 \<times> bytes) result" where
  "parseServerFrame frame =
     (if length frame < 14 + 20 + 8 + bootpFixedLength + 4 then Inl (Err NotIPv4DHCPFrame)
      else
      and_then (go_slice frame 12 14) (\<lambda>ethertype.
      if (be_word ethertype :: u16) \<noteq> 0x0800 then Inl (Err NotIPv4DHCPFrame)
      else
      and_then (go_slice frame 14 (length frame)) (\<lambda>ip.
      and_then (go_index ip 0) (\<lambda>vihl.
      let ihl = unat (vihl AND 0x0f) * 4 in
      if drop_bit 4 vihl \<noteq> 4 \<or> ihl < 20 \<or> length ip < ihl + 8 then Inl (Err InvalidIPv4Header)
      else
      and_then (go_index ip 9) (\<lambda>proto.
      if proto \<noteq> 17 then Inl (Err InvalidIPv4Header)
      else
      and_then (go_slice ip ihl (length ip)) parseUDP)))))"

section \<open>The options as a total function\<close>

text \<open>Every access of \<open>setOptions\<close> is within its guard, so that it is a total function of the
  options.\<close>

fun dnsAddrs :: "bytes \<Rightarrow> addr list" where
  "dnsAddrs (a # b # c # d # v) = addr4 [a, b, c, d] # dnsAddrs v"
| "dnsAddrs v = []"

definition applyOptions :: "(u8 \<rightharpoonup> bytes) \<Rightarrow> dhcpPacket \<Rightarrow> dhcpPacket" where
  "applyOptions options p =
     (let v = optionValue options 53;
          p = (if length v = 1 then p\<lparr>messageType := v ! 0\<rparr> else p);
          v = optionValue options 54;
          p = (if length v = 4 then p\<lparr>serverAddr := addr4 v\<rparr> else p);
          v = optionValue options 1;
          p = (if length v = 4 then p\<lparr>mask4 := v\<rparr> else p);
          v = optionValue options 3;
          p = (if length v \<ge> 4 then p\<lparr>router := addr4 (take 4 v)\<rparr> else p);
          v = optionValue options 6;
          p = (if length v \<ge> 4 then p\<lparr>dns := dns p @ dnsAddrs v\<rparr> else p);
          v = optionValue options 51;
          p = (if length v = 4 then p\<lparr>leaseTime := uint (be_word v :: u32) * Second\<rparr> else p)
      in p)"

lemma dnsLoop_eq: "dnsLoop v addrs = Inr (addrs @ dnsAddrs v)"
proof (induction v arbitrary: addrs rule: dnsAddrs.induct)
  case (1 a b c d v)
  then show ?case by (subst dnsLoop.simps) (simp add: slice_def)
qed (simp_all add: dnsLoop.simps)

lemma setOptions_eq [simp]: "setOptions options p = Inr (applyOptions options p)"
proof -
  have "slice v 0 4 = take 4 v" for v :: bytes by (simp add: slice_def)
  then show ?thesis by (simp add: setOptions_def applyOptions_def Let_def dnsLoop_eq)
qed

section \<open>The checksum verifies\<close>

text \<open>The sum as a number, and what folding the carries keeps of it: its residue modulo 65535 and
  whether it is zero.\<close>

fun wordSum :: "bytes \<Rightarrow> nat" where
  "wordSum (a # b # data) = 256 * unat a + unat b + wordSum data"
| "wordSum [a] = 256 * unat a"
| "wordSum [] = 0"

lemma unat_be_word2: "unat (be_word [a, b] :: u16) = 256 * unat a + unat b"
proof -
  have "(be_word [a, b] :: u16) = ucast b OR push_bit 8 (ucast a)"
    by (simp add: be_word_def)
  also have "\<dots> = ucast b + push_bit 8 (ucast a)"
    by (rule disjunctive_add [symmetric]) (auto simp: bit_simps dest: bit_imp_le_length)
  finally have eq: "(be_word [a, b] :: u16) = ucast b + push_bit 8 (ucast a)" .
  have "unat a < 256" "unat b < 256" using unsigned_less [of a] unsigned_less [of b] by simp_all
  then have "unat (push_bit 8 (ucast a) :: u16) = 256 * unat a"
    by (simp add: push_bit_eq_mult unat_word_ariths unat_ucast_mod)
  then show ?thesis
    using \<open>unat a < 256\<close> \<open>unat b < 256\<close> by (simp add: eq unat_word_ariths unat_ucast_mod)
qed

lemma wordSum_bound: "wordSum data \<le> 65535 * ((length data + 1) div 2)"
proof (induction data rule: wordSum.induct)
  case (1 a b data)
  have "unat a < 256" "unat b < 256" using unsigned_less [of a] unsigned_less [of b] by simp_all
  with 1 show ?case by simp
next
  case (2 a)
  have "unat a < 256" using unsigned_less [of a] by simp
  then show ?case by simp
qed simp

lemma sumWords_nat:
  "unat acc + wordSum data < 2 ^ 32 \<Longrightarrow> unat (sumWords acc data) = unat acc + wordSum data"
proof (induction acc data rule: sumWords.induct)
  case (1 acc a b data)
  have "unat (acc + ucast (be_word [a, b] :: u16)) = unat acc + (256 * unat a + unat b)"
    using 1(2) by (simp add: unat_word_ariths unat_ucast_mod unat_be_word2)
  with 1 show ?case by simp
next
  case (2 acc a)
  have "unat a < 256" using unsigned_less [of a] by simp
  then have "unat (push_bit 8 (ucast a) :: u32) = 256 * unat a"
    by (simp add: push_bit_eq_mult unat_word_ariths unat_ucast_mod)
  with 2 show ?case by (simp add: unat_word_ariths)
qed simp

lemma foldSum_step:
  fixes s :: u32
  shows "unat ((s AND 0xffff) + drop_bit 16 s) = unat s mod 65536 + unat s div 65536"
proof -
  have "s AND 0xffff = take_bit 16 s" by (simp add: take_bit_eq_mask mask_eq_exp_minus_1)
  then have a: "unat (s AND 0xffff) = unat s mod 65536" by (simp add: take_bit_eq_mod unat_mod)
  have d: "unat (drop_bit 16 s) = unat s div 65536" by (simp add: drop_bit_eq_div unat_div)
  have "unat s < 4294967296" using unsigned_less [of s] by simp
  then have "unat s div 65536 < 65536" by (simp add: less_mult_imp_div_less)
  then show ?thesis using mod_less_divisor [of 65536 "unat s"]
    by (simp only: unat_word_ariths a d) simp
qed

lemma foldSum_nat:
  "unat (foldSum s) \<le> 65535 \<and> unat (foldSum s) mod 65535 = unat s mod 65535 \<and> (foldSum s = 0 \<longleftrightarrow> s = 0)"
proof (induction s rule: foldSum.induct)
  case (1 s)
  define t where "t = (s AND 0xffff) + drop_bit 16 s"
  have t: "unat t = unat s mod 65536 + unat s div 65536" by (simp add: t_def foldSum_step)
  have d: "unat (drop_bit 16 s) = unat s div 65536" by (simp add: drop_bit_eq_div unat_div)
  show ?case
  proof (cases "drop_bit 16 s = 0")
    case True
    then have "unat s div 65536 = 0" using d by simp
    with True show ?thesis by (simp add: foldSum.simps [of s] div_eq_0_iff)
  next
    case False
    have "unat s = unat t + 65535 * (unat s div 65536)"
      using t mod_mult_div_eq [of "unat s" 65536] by simp
    then have "unat t mod 65535 = unat s mod 65535" by (metis mod_mult_self2)
    moreover have "t \<noteq> 0" "s \<noteq> 0"
      using False d t by (auto simp: unat_eq_zero [symmetric])
    ultimately show ?thesis using 1 [OF False] False
      by (simp add: foldSum.simps [of s] flip: t_def)
  qed
qed

lemma checksum_nat:
  assumes "wordSum data < 2 ^ 32"
  shows "unat (internetChecksum data) \<le> 65535 \<and>
    (unat (internetChecksum data) + wordSum data) mod 65535 = 0 \<and>
    (internetChecksum data = 0 \<longleftrightarrow> 0 < wordSum data \<and> wordSum data mod 65535 = 0)"
proof -
  define f where "f = foldSum (sumWords 0 data)"
  have s: "unat (sumWords 0 data) = wordSum data" using sumWords_nat [of 0 data] assms by simp
  have f: "unat f \<le> 65535" "unat f mod 65535 = wordSum data mod 65535" "unat f = 0 \<longleftrightarrow> wordSum data = 0"
    using foldSum_nat [of "sumWords 0 data"] s by (auto simp: f_def unat_eq_zero)
  have u: "unat (ucast f :: u16) = unat f" using f(1) by (simp add: unat_ucast_mod)
  have c: "unat (internetChecksum data) = 65535 - unat f"
  proof -
    have "(65535 :: u16) = - 1" by simp
    then have "NOT (w :: u16) = 65535 - w" for w by (simp add: not_eq_complement)
    then have "internetChecksum data = 65535 - (ucast f :: u16)" by (simp add: internetChecksum_def f_def)
    moreover have "(ucast f :: u16) \<le> 65535" using f(1) u by (simp add: word_le_nat_alt)
    ultimately show ?thesis by (simp add: unat_sub u)
  qed
  have "(65535 - unat f + wordSum data) mod 65535 = (65535 - unat f + unat f) mod 65535"
    using f(2) by (metis mod_add_right_eq)
  then have "(unat (internetChecksum data) + wordSum data) mod 65535 = 0" using c f(1) by simp
  moreover have "internetChecksum data = 0 \<longleftrightarrow> 65535 - unat f = 0" using c by (metis unat_eq_zero)
  moreover have "65535 \<le> unat f \<longleftrightarrow> 0 < wordSum data \<and> wordSum data mod 65535 = 0"
  proof (cases "unat f = 65535")
    case True
    then show ?thesis using f(2,3) by simp
  next
    case False
    then have "unat f mod 65535 = unat f" using f(1) by simp
    then show ?thesis using f False by auto
  qed
  ultimately show ?thesis using c f(1) by auto
qed

lemma wordSum_append: "even (length xs) \<Longrightarrow> wordSum (xs @ ys) = wordSum xs + wordSum ys"
  by (induction xs rule: wordSum.induct) auto

lemma checksum_fills:
  assumes "even (length pre)" "even (length post)" "65535 * ((length pre + length post + 2) div 2) < (2 :: nat) ^ 32"
  shows "internetChecksum (pre @ be_bytes 2 (internetChecksum (pre @ [0, 0] @ post)) @ post) = 0"
proof -
  define c where "c = internetChecksum (pre @ [0, 0] @ post)"
  obtain a b where ab: "be_bytes 2 c = [a, b]"
    by (cases "be_bytes 2 c"; cases "tl (be_bytes 2 c)") (auto dest: arg_cong [where f = length])
  have "unat c = 256 * unat a + unat b"
    using unat_be_word2 [of a b] be16.dec_enc [of c] by (simp add: ab)
  then have w: "wordSum (pre @ be_bytes 2 c @ post) = unat c + wordSum (pre @ [0, 0] @ post)"
    using assms(1) by (simp add: ab wordSum_append)
  have b: "wordSum (pre @ zs @ post) < 2 ^ 32" if "length zs = 2" for zs
    using wordSum_bound [of "pre @ zs @ post"] assms that by (simp add: add.commute)
  have "internetChecksum (pre @ be_bytes 2 c @ post) = 0 \<longleftrightarrow>
      0 < wordSum (pre @ be_bytes 2 c @ post) \<and> wordSum (pre @ be_bytes 2 c @ post) mod 65535 = 0"
    using checksum_nat [OF b [of "be_bytes 2 c"]] by simp
  moreover have "0 < wordSum (pre @ be_bytes 2 c @ post)"
  proof (rule ccontr)
    assume "\<not> 0 < wordSum (pre @ be_bytes 2 c @ post)"
    then have "unat c = 0" "wordSum (pre @ [0, 0] @ post) = 0" using w by simp_all
    moreover have "c = 0 \<longleftrightarrow> 0 < wordSum (pre @ [0, 0] @ post) \<and> wordSum (pre @ [0, 0] @ post) mod 65535 = 0"
      using checksum_nat [OF b [of "[0, 0]"]] by (simp add: c_def)
    ultimately show False by (simp add: unat_eq_zero)
  qed
  moreover have "wordSum (pre @ be_bytes 2 c @ post) mod 65535 = 0"
    using checksum_nat [OF b [of "[0, 0]"]] w by (simp add: c_def)
  ultimately show ?thesis by (simp add: c_def)
qed

section \<open>Options come back\<close>

definition tlv :: "u8 \<times> bytes \<Rightarrow> bytes" where
  "tlv o1 = fst o1 # word_of_nat (length (snd o1)) # snd o1"

definition validOption :: "u8 \<times> bytes \<Rightarrow> bool" where
  "validOption o1 \<longleftrightarrow> fst o1 \<noteq> 0 \<and> fst o1 \<noteq> 255 \<and> length (snd o1) \<le> 255"

definition tlvs :: "(u8 \<times> bytes) list \<Rightarrow> bytes" where
  "tlvs L = concat (map tlv L)"

lemma tlvs_simps [simp]: "tlvs [] = []" "tlvs (o1 # L) = tlv o1 @ tlvs L" "tlvs (L @ L') = tlvs L @ tlvs L'"
  by (simp_all add: tlvs_def)

lemma length_tlv [simp]: "length (tlv o1) = 2 + length (snd o1)"
  by (simp add: tlv_def)

lemma parse_tlvs:
  "drop pos data = tlvs L @ 255 # rest \<Longrightarrow> pos \<le> length data \<Longrightarrow> list_all validOption L \<Longrightarrow>
    parseOptionsFrom data pos m = Inr (m ++ map_of (rev L))"
proof (induction L arbitrary: pos m)
  case Nil
  then have "pos < length data" "data ! pos = 255"
    by (auto simp: nth_via_drop not_less dest!: arg_cong [where f = length])
  then show ?case by (simp add: parseOptionsFrom.simps)
next
  case (Cons o1 L)
  obtain c v where o1: "o1 = (c, v)" by (cases o1)
  have d: "drop pos data = c # word_of_nat (length v) # v @ tlvs L @ 255 # rest"
    using Cons.prems(1) by (simp add: o1 tlv_def)
  have len: "length data = pos + 3 + length v + length (tlvs L) + length rest"
    using arg_cong [OF d, where f = length] Cons.prems(2) by simp
  have d1: "drop (pos + 1) data = word_of_nat (length v) # v @ tlvs L @ 255 # rest"
    using arg_cong [OF d, where f = "drop 1"] by (simp add: drop_drop add.commute)
  have d2: "drop (pos + 2) data = v @ tlvs L @ 255 # rest"
    using arg_cong [OF d, where f = "drop 2"] by (simp add: drop_drop add.commute)
  have d3: "drop (pos + 2 + length v) data = tlvs L @ 255 # rest"
    using arg_cong [OF d2, where f = "drop (length v)"] by (simp add: drop_drop add.commute)
  have n: "data ! pos = c" "data ! Suc pos = word_of_nat (length v)"
    using nth_via_drop [OF d] nth_via_drop [OF d1] by simp_all
  have sl: "slice data (pos + 2) (pos + 2 + length v) = v" by (simp only: slice_def d2) simp
  have valid: "c \<noteq> 0" "c \<noteq> 255" "unat (word_of_nat (length v) :: u8) = length v"
    using Cons.prems(3) by (simp_all add: o1 validOption_def)
  have "parseOptionsFrom data pos m = parseOptionsFrom data (pos + 2 + length v) (m(c \<mapsto> v))"
    using valid n len sl by (subst parseOptionsFrom.simps) (simp add: Let_def)
  also have "\<dots> = Inr (m(c \<mapsto> v) ++ map_of (rev L))"
    using Cons.IH [OF d3] Cons.prems(3) len by simp
  finally show ?case by (simp add: o1 map_add_def fun_eq_iff split: option.split)
qed

text \<open>An option area under construction: what has been written up to the position.\<close>

definition optionArea :: "bytes \<Rightarrow> nat \<Rightarrow> (u8 \<times> bytes) list \<Rightarrow> bool" where
  "optionArea dst pos L \<longleftrightarrow> take pos dst = tlvs L \<and> pos < length dst \<and> list_all validOption L"

definition optionFits :: "bytes \<Rightarrow> nat \<Rightarrow> bytes \<Rightarrow> bool" where
  "optionFits dst pos v \<longleftrightarrow> length v \<le> 255 \<and> pos + 2 + length v < length dst"

lemma appendOption_area:
  assumes "optionArea dst pos L" "c \<noteq> 0" "c \<noteq> 255" "appendOption dst pos c v = (dst', pos')"
  shows "optionArea dst' pos' (if optionFits dst pos v then L @ [(c, v)] else L) \<and>
    length dst' = length dst \<and> pos' = (if optionFits dst pos v then pos + 2 + length v else pos)"
proof (cases "optionFits dst pos v")
  case False
  then have "dst' = dst" "pos' = pos" using assms(4) by (auto simp: appendOption_def optionFits_def split: if_splits)
  with False assms(1) show ?thesis by simp
next
  case True
  then have d': "dst' = copy_at (dst[pos := c, pos + 1 := word_of_nat (length v)]) (pos + 2) v"
    and p': "pos' = pos + 2 + length v"
    using assms(4) by (auto simp: appendOption_def optionFits_def)
  have l: "pos + 2 + length v < length dst" using True by (simp add: optionFits_def)
  have "take pos' dst' = take (pos + 2) (dst[pos := c, pos + 1 := word_of_nat (length v)]) @ v"
    using l by (simp add: d' p' copy_at_fits)
  also have "take (pos + 2) (dst[pos := c, pos + 1 := word_of_nat (length v)]) =
      take pos dst @ [c, word_of_nat (length v)]"
    using l by (intro nth_equalityI) (auto simp: nth_append nth_list_update less_Suc_eq)
  finally show ?thesis
    using assms(1-3) True l by (simp add: optionArea_def optionFits_def tlv_def validOption_def d' p')
qed

lemma area_parses:
  assumes "optionArea dst pos L"
  shows "parseOptions (dst[pos := 255]) = Inr (map_of (rev L))"
proof -
  have "dst[pos := 255] = take pos dst @ 255 # drop (Suc pos) dst"
    using assms by (simp add: optionArea_def upd_conv_take_nth_drop)
  then have "drop 0 (dst[pos := 255]) = tlvs L @ 255 # drop (Suc pos) dst"
    using assms by (simp add: optionArea_def)
  from parse_tlvs [OF this] assms show ?thesis by (simp add: parseOptions_def optionArea_def)
qed

section \<open>What the client asks for\<close>

text \<open>
  The options a message of each type should carry, and those that fit an area of \<open>cap\<close> bytes when
  each one that does not fit is left out.
\<close>

definition wantedOptions :: "bytes \<Rightarrow> u8 \<Rightarrow> addr \<Rightarrow> addr \<Rightarrow> bytes \<Rightarrow> (u8 \<times> bytes) list" where
  "wantedOptions mac mtype requested server hostname =
     [(53, [mtype]), (61, 1 # mac)] @
     (if mtype = 3 \<and> Is4 requested then [(50, As4 requested)] else []) @
     (if mtype = 3 \<and> Is4 server then [(54, As4 server)] else []) @
     (if hostname \<noteq> [] then [(12, take 63 hostname)] else []) @
     [(55, [1, 3, 6, 15, 51, 54]), (57, [5, 0xdc])]"

fun fitOptions :: "nat \<Rightarrow> nat \<Rightarrow> (u8 \<times> bytes) list \<Rightarrow> (u8 \<times> bytes) list" where
  "fitOptions cap pos [] = []"
| "fitOptions cap pos ((c, v) # os) =
     (if length v \<le> 255 \<and> pos + 2 + length v < cap
      then (c, v) # fitOptions cap (pos + 2 + length v) os else fitOptions cap pos os)"

fun appendAll :: "bytes \<Rightarrow> nat \<Rightarrow> (u8 \<times> bytes) list \<Rightarrow> bytes \<times> nat" where
  "appendAll dst pos [] = (dst, pos)"
| "appendAll dst pos ((c, v) # os) = (let (dst, pos) = appendOption dst pos c v in appendAll dst pos os)"

lemma appendAll_area:
  "appendAll dst pos os = (dst', pos') \<Longrightarrow> optionArea dst pos L \<Longrightarrow>
    list_all (\<lambda>(c, v). c \<noteq> 0 \<and> c \<noteq> 255) os \<Longrightarrow>
    optionArea dst' pos' (L @ fitOptions (length dst) pos os) \<and> length dst' = length dst"
proof (induction os arbitrary: dst pos L)
  case (Cons o1 os)
  obtain c v where o1: "o1 = (c, v)" by (cases o1)
  obtain d1 p1 where a: "appendOption dst pos c v = (d1, p1)" by fastforce
  from Cons.prems(3) have cv: "c \<noteq> 0" "c \<noteq> 255" by (simp_all add: o1)
  note A = appendOption_area [OF Cons.prems(2) cv a]
  from Cons.prems(1) have "appendAll d1 p1 os = (dst', pos')" by (simp add: o1 a)
  from Cons.IH [OF this A [THEN conjunct1]] Cons.prems(3) A show ?case
    by (cases "optionFits dst pos v") (auto simp: o1 optionFits_def)
qed simp

lemma appendAll_append: "appendAll dst pos (os @ os') =
    (let (dst, pos) = appendAll dst pos os in appendAll dst pos os')"
  by (induction os arbitrary: dst pos) (auto split: prod.split)

lemma clientOptions_eq: "clientOptions mac mtype requested server hostname =
    (let (options, pos) = appendAll (replicate 60 0) 0 (wantedOptions mac mtype requested server hostname)
     in options[pos := 255])"
  by (simp add: clientOptions_def wantedOptions_def appendAll_append dhcpMinLength_def bootpFixedLength_def
      Let_def split_beta)

lemma map_of_rev: "distinct (map fst xs) \<Longrightarrow> map_of (rev xs) = map_of xs"
proof
  fix k
  assume d: "distinct (map fst xs)"
  then have "distinct (map fst (rev xs))" by (simp add: rev_map flip: rev_map)
  then show "map_of (rev xs) k = map_of xs k"
    using d by (metis map_of_eq_None_iff map_of_eq_Some_iff not_None_eq set_rev set_map)
qed

lemma fitOptions_keys: "set (map fst (fitOptions cap pos os)) \<subseteq> set (map fst os)"
  by (induction cap pos os rule: fitOptions.induct) auto

lemma fitOptions_distinct: "distinct (map fst os) \<Longrightarrow> distinct (map fst (fitOptions cap pos os))"
proof (induction cap pos os rule: fitOptions.induct)
  case (2 cap pos c v os)
  then show ?case using fitOptions_keys [of cap "pos + 2 + length v" os] by auto
qed simp

lemma wantedOptions_keys:
  "distinct (map fst (wantedOptions mac mtype requested server hostname)) \<and>
   list_all (\<lambda>(c, v). c \<noteq> 0 \<and> c \<noteq> 255) (wantedOptions mac mtype requested server hostname)"
  by (simp add: wantedOptions_def)

lemma clientOptions_parse:
  "length (clientOptions mac mtype requested server hostname) = 60 \<and>
   parseOptions (clientOptions mac mtype requested server hostname) =
     Inr (map_of (fitOptions 60 0 (wantedOptions mac mtype requested server hostname)))"
proof -
  define os where "os = wantedOptions mac mtype requested server hostname"
  obtain d p where a: "appendAll (replicate 60 0) 0 os = (d, p)" by fastforce
  have "optionArea (replicate 60 0) 0 []" by (simp add: optionArea_def)
  from appendAll_area [OF a this] wantedOptions_keys
  have A: "optionArea d p (fitOptions 60 0 os)" "length d = 60" by (simp_all add: os_def)
  then show ?thesis
    using area_parses [OF A(1)] map_of_rev [OF fitOptions_distinct, of os 60 0] wantedOptions_keys
    by (simp add: clientOptions_eq a flip: os_def) (simp add: os_def)
qed

section \<open>Layout of the client's frame\<close>

lemma copy_into_full: "i \<le> j \<Longrightarrow> length src = j - i \<Longrightarrow> copy_into dst i j src = copy_at dst i src"
  by (simp add: copy_into_def)

lemma be_bytes_2: "be_bytes 2 (w :: u16) = [ucast (drop_bit 8 w), ucast w]"
  by (simp add: be_bytes_def numeral_2_eq_2)

lemma length_copy_into [simp]: "length (copy_into dst i j src) = length dst"
  by (simp add: copy_into_def)

lemma length_clientPayload [simp]: "length (clientPayload mac xid options) = 300"
  by (simp add: clientPayload_def dhcpMinLength_def bootpFixedLength_def Let_def)

definition headerIP :: "nat \<Rightarrow> u32 \<Rightarrow> u16 \<Rightarrow> bytes" where
  "headerIP ipLen xid c = [0x45, 0] @ be_bytes 2 (word_of_nat ipLen :: u16) @ be_bytes 2 (ucast xid :: u16) @
     [0, 0, 64, 17] @ be_bytes 2 c @ [0, 0, 0, 0, 255, 255, 255, 255]"

lemma clientIP_eq: "clientIP ipLen xid = headerIP ipLen xid (internetChecksum (headerIP ipLen xid 0))"
proof -
  have r: "(replicate 20 (0 :: u8))[0 := 0x45, 8 := 64, 9 := 17] =
      [0x45,0,0,0,0,0,0,0,64,17,0,0,0,0,0,0,0,0,0,0]"
    by (simp add: numeral_eq_Suc)
  have h: "headerIP ipLen xid c = [0x45, 0, ucast (drop_bit 8 (word_of_nat ipLen :: u16)), ucast (word_of_nat ipLen :: u16),
      ucast (drop_bit 8 (ucast xid :: u16)), ucast (ucast xid :: u16), 0, 0, 64, 17,
      ucast (drop_bit 8 c), ucast c, 0, 0, 0, 0, 255, 255, 255, 255]" for c
    by (simp add: headerIP_def be_bytes_2)
  show ?thesis
    unfolding h clientIP_def Let_def r copy_into_def copy_at_def be_bytes_2 by simp
qed

lemma clientIP_checksum: "internetChecksum (clientIP ipLen xid) = 0"
proof -
  define pre where "pre = [0x45, 0] @ be_bytes 2 (word_of_nat ipLen :: u16) @ be_bytes 2 (ucast xid :: u16) @
     [0, 0, 64, 17]"
  define post :: bytes where "post = [0, 0, 0, 0, 255, 255, 255, 255]"
  have e: "headerIP ipLen xid c = pre @ be_bytes 2 c @ post" for c
    by (simp add: headerIP_def pre_def post_def)
  have "be_bytes 2 (0 :: u16) = [0, 0]" by (simp add: be_bytes_2)
  moreover have "length pre = 10" "length post = 8" by (simp_all add: pre_def post_def)
  moreover have "clientIP ipLen xid = headerIP ipLen xid (internetChecksum (headerIP ipLen xid 0))"
    by (rule clientIP_eq)
  ultimately show ?thesis using checksum_fills [of pre post] by (simp add: e)
qed

lemma clientUDP_eq: "clientUDP n = [0, 68, 0, 67] @ be_bytes 2 (word_of_nat n :: u16) @ [0, 0]"
proof -
  have "replicate 8 (0 :: u8) = [0,0,0,0,0,0,0,0]" by (simp add: numeral_eq_Suc)
  then show ?thesis
    by (simp add: clientUDP_def copy_into_def copy_at_def be_bytes_2 Let_def dhcpClientPort_def dhcpServerPort_def)
qed

lemma copy_at_zeros:
  "n = length pre \<Longrightarrow> length src \<le> k \<Longrightarrow>
    copy_at (pre @ replicate k 0) n src = (pre @ src) @ replicate (k - length src) 0"
  by (simp add: copy_at_def)

lemma buildClientFrame_eq:
  assumes "length mac = 6"
  shows "buildClientFrame mac xid mtype requested server hostname =
    replicate 6 0xff @ mac @ [8, 0] @ clientIP 328 xid @ clientUDP 308 @
    clientPayload mac xid (clientOptions mac mtype requested server hostname)"
proof -
  define p where "p = clientPayload mac xid (clientOptions mac mtype requested server hostname)"
  define b where "b = replicate 6 (0xff :: u8)"
  define ip where "ip = clientIP 328 xid"
  define udp where "udp = clientUDP 308"
  have l: "length ip = 20" "length udp = 8" "length p = 300" "length b = 6"
    by (simp_all add: ip_def udp_def p_def b_def clientIP_eq headerIP_def clientUDP_eq)
  have e: "be_bytes 2 (0x0800 :: u16) = [8, 0]" by (simp add: be_bytes_2)
  have "buildClientFrame mac xid mtype requested server hostname =
    copy_at (copy_at (copy_at (copy_at (copy_at (copy_at ([] @ replicate 342 0) 0 b) 6 mac) 12 [8, 0]) 14 ip) 34 udp) 42 p"
    by (simp add: buildClientFrame_def Let_def copy_into_full assms l e flip: p_def ip_def udp_def b_def)
  also have "\<dots> = (((((([] @ b) @ mac) @ [8, 0]) @ ip) @ udp) @ p) @ replicate 0 0"
    by (simp del: append_assoc append_Nil add: copy_at_zeros assms l)
  finally show ?thesis by (simp add: p_def ip_def udp_def b_def)
qed

section \<open>What the server sends\<close>

text \<open>
  A BOOTP reply and the frame around it, as a server lays them out: the encoder that the parser
  inverts.
\<close>

definition serverPayload :: "u32 \<Rightarrow> bytes \<Rightarrow> bytes \<Rightarrow> bytes \<Rightarrow> (u8 \<times> bytes) list \<Rightarrow> bytes \<Rightarrow> bytes" where
  "serverPayload xid yiaddr siaddr mac L pad =
     [2, 1, 6, 0] @ be_bytes 4 xid @ replicate 8 0 @ yiaddr @ siaddr @ replicate 4 0 @ mac @
     replicate 202 0 @ dhcpCookie @ tlvs L @ 255 # pad"

definition serverMessage :: "bytes \<Rightarrow> bytes \<Rightarrow> bytes \<Rightarrow> bytes \<Rightarrow> bytes" where
  "serverMessage eth ip ck payload =
     eth @ [8, 0] @ ip @ [0, 67, 0, 68] @ be_bytes 2 (word_of_nat (8 + length payload) :: u16) @ ck @ payload"

text \<open>The encoder's arguments have the widths of their fields.\<close>

definition payloadFields :: "bytes \<Rightarrow> bytes \<Rightarrow> bytes \<Rightarrow> (u8 \<times> bytes) list \<Rightarrow> bool" where
  "payloadFields yiaddr siaddr mac L \<longleftrightarrow>
     length yiaddr = 4 \<and> length siaddr = 4 \<and> length mac = 6 \<and> list_all validOption L"

definition messageFields :: "bytes \<Rightarrow> bytes \<Rightarrow> bytes \<Rightarrow> bytes \<Rightarrow> bool" where
  "messageFields eth ip ck payload \<longleftrightarrow>
     length eth = 12 \<and> length ip = 20 \<and> ip ! 0 = 0x45 \<and> ip ! 9 = 17 \<and> length ck = 2 \<and>
     240 \<le> length payload \<and> 8 + length payload < 65536"

text \<open>Reading a field out of a sequence of fields.\<close>

lemma slice_first: "length xs = n \<Longrightarrow> slice (xs @ ys) 0 n = xs"
  by (simp add: slice_def)

lemma slice_skip: "length xs = n \<Longrightarrow> n \<le> i \<Longrightarrow> slice (xs @ ys) i j = slice ys (i - n) (j - n)"
  by (simp add: slice_append_right)

lemma slice_ConsS: "0 < i \<Longrightarrow> slice (x # ys) i j = slice ys (i - 1) (j - 1)"
  by (cases i) (simp_all add: slice_def)

lemma parsePayload_server:
  assumes "payloadFields yiaddr siaddr mac L"
  shows "parsePayload (serverPayload xid yiaddr siaddr mac L pad) =
    Inr (applyOptions (map_of (rev L)) (zeroPacket\<lparr>address := addr4 yiaddr, serverAddr := addr4 siaddr\<rparr>), xid, mac)"
proof -
  define p where "p = serverPayload xid yiaddr siaddr mac L pad"
  define area where "area = tlvs L @ 255 # pad"
  have w: "length yiaddr = 4" "length siaddr = 4" "length mac = 6" "list_all validOption L"
    using assms by (simp_all add: payloadFields_def)
  have p: "p = [2, 1, 6, 0] @ be_bytes 4 xid @ replicate 8 0 @ yiaddr @ siaddr @ replicate 4 0 @ mac @
      replicate 202 0 @ dhcpCookie @ area"
    by (simp add: p_def serverPayload_def area_def)
  have lc: "length dhcpCookie = 4" by (simp add: dhcpCookie_def)
  have len: "length p = 240 + length area" by (simp add: p w lc)
  have i: "p ! 0 = 2" "p ! 1 = 1" "p ! 2 = 6" by (simp_all add: p)
  have s: "slice p 4 8 = be_bytes 4 xid" "slice p 16 20 = yiaddr" "slice p 20 24 = siaddr"
    "slice p 28 34 = mac" "slice p 236 240 = dhcpCookie"
    by (simp_all add: p slice_ConsS slice_first slice_skip w lc)
  have a: "slice p 240 (length p) = area"
    by (simp add: slice_def len) (simp add: p w lc)
  have "parseOptions area = Inr (map_of (rev L))"
    using parse_tlvs [of 0 area L pad Map.empty] w(4) by (simp add: parseOptions_def area_def)
  then show ?thesis unfolding p_def [symmetric]
    by (simp add: parsePayload_def bootpFixedLength_def len i [simplified] s a [unfolded len])
qed

lemma parseServerFrame_message:
  assumes "messageFields eth ip ck payload"
  shows "parseServerFrame (serverMessage eth ip ck payload) = parsePayload payload"
proof -
  define udp where "udp = [0, 67, 0, 68] @ be_bytes 2 (word_of_nat (8 + length payload) :: u16) @ ck @ payload"
  define f where "f = serverMessage eth ip ck payload"
  have w: "length eth = 12" "length ip = 20" "ip ! 0 = 0x45" "ip ! 9 = 17" "length ck = 2" "240 \<le> length payload"
    "8 + length payload < 65536"
    using assms by (simp_all add: messageFields_def)
  have f: "f = eth @ [8, 0] @ ip @ udp" by (simp add: f_def serverMessage_def udp_def)
  have lu: "length udp = 8 + length payload" by (simp add: udp_def w)
  have lf: "length f = 42 + length payload" by (simp add: f w lu)
  have s: "slice f 12 14 = [8, 0]" by (simp add: f slice_skip w) (simp add: slice_def)
  have t: "slice f 14 (42 + length payload) = ip @ udp" by (simp add: slice_def) (simp add: f w lu)
  have n: "(ip @ udp) ! 0 = 0x45" "(ip @ udp) ! 9 = 17" by (simp_all add: nth_append w)
  have u: "slice (ip @ udp) 20 (28 + length payload) = udp" by (simp add: slice_def w lu)
  have v: "slice udp 0 2 = [0, 67]" "slice udp 2 4 = [0, 68]"
    "slice udp 4 6 = be_bytes 2 (word_of_nat (8 + length payload) :: u16)"
    by (simp_all add: udp_def slice_def)
  have x: "slice udp 8 (8 + length payload) = payload" by (simp add: udp_def slice_def w)
  have b: "(be_word [8, 0] :: u16) = 0x0800" "(be_word [0, 67] :: u16) = dhcpServerPort"
    "(be_word [0, 68] :: u16) = dhcpClientPort"
    by (simp_all add: be_word_def dhcpServerPort_def dhcpClientPort_def)
  have c: "(0x45 :: u8) AND 0x0f = 5" "drop_bit 4 (0x45 :: u8) = 4" by simp_all
  have y: "unat (word_of_nat (8 + length payload) :: u16) = 8 + length payload"
    using w(7) by (intro unat_word_of_nat_small) simp
  have nl: "\<not> length payload < 240" using w(6) by simp
  show ?thesis unfolding f_def [symmetric]
    by (simp add: nl parseServerFrame_def parseUDP_def lf lu bootpFixedLength_def s t n c w u v x b y Let_def
        del: of_nat_add)
qed

lemma clientFrame_layout:
  assumes "length mac = 6"
  shows "let f = buildClientFrame mac xid mtype requested server hostname in
    length f = 342 \<and> slice f 0 6 = replicate 6 0xff \<and> slice f 6 12 = mac \<and> slice f 12 14 = [8, 0] \<and>
    internetChecksum (slice f 14 34) = 0 \<and> slice f 34 38 = [0, 68, 0, 67] \<and>
    slice f 42 45 = [1, 1, 6] \<and> slice f 46 50 = be_bytes 4 xid \<and> slice f 70 76 = mac \<and>
    slice f 278 282 = dhcpCookie \<and>
    parseOptions (drop 282 f) = Inr (map_of (fitOptions 60 0 (wantedOptions mac mtype requested server hostname)))"
proof -
  define os where "os = clientOptions mac mtype requested server hostname"
  define p where "p = clientPayload mac xid os"
  define b where "b = replicate 6 (0xff :: u8)"
  define f where "f = buildClientFrame mac xid mtype requested server hostname"
  have l: "length (clientIP 328 xid) = 20" "length (clientUDP 308) = 8" "length b = 6" "length os = 60"
    using clientOptions_parse by (simp_all add: clientIP_eq headerIP_def clientUDP_eq b_def os_def)
  have lp: "length p = 300" by (simp add: p_def)
  have f: "f = b @ mac @ [8, 0] @ clientIP 328 xid @ clientUDP 308 @ p"
    using buildClientFrame_eq [OF assms] by (simp add: f_def p_def os_def b_def)
  have "replicate 300 (0 :: u8) = [0, 0, 0] @ replicate 297 0"
    using replicate_add [of 3 297 "0 :: u8"] by (simp add: numeral_3_eq_3)
  then have r: "slice ((replicate 300 (0 :: u8))[0 := 1, Suc 0 := 1, 2 := 6]) 0 3 = [1, 1, 6]"
    by (simp add: slice_def numeral_2_eq_2 numeral_3_eq_3)
  have d: "drop n (copy_at dst n src) = src" if "n + length src = length dst" for n dst and src :: bytes
    using that by (simp add: copy_at_def)
  have p: "slice p 0 3 = [1, 1, 6]" "slice p 4 8 = be_bytes 4 xid" "slice p 28 34 = mac"
    "slice p 236 240 = dhcpCookie" "drop 240 p = os"
    using assms l(4) unfolding p_def clientPayload_def Let_def dhcpMinLength_def bootpFixedLength_def
    by (simp_all add: copy_into_full slice_simps dhcpCookie_def r d)
  show ?thesis unfolding f_def [symmetric] Let_def
    using clientOptions_parse [of mac mtype requested server hostname] p
    by (simp add: f slice_first slice_skip slice_ConsS assms l lp clientIP_checksum b_def flip: os_def)
      (simp add: slice_def clientUDP_eq)
qed

section \<open>Properties\<close>

text \<open>Filling a zeroed checksum field at an even offset with the computed checksum makes the whole
  block sum to zero, the check every IPv4 receiver performs; for blocks short enough that the 32-bit
  sum does not overflow.\<close>

theorem dhcp_checksum_verifies:
  assumes "even (length pre)" "even (length post)" "length pre + length post < 131000"
  shows "internetChecksum (pre @ be_bytes 2 (internetChecksum (pre @ [0, 0] @ post)) @ post) = 0"
  using assms by (intro checksum_fills) auto

theorem dhcp_checksum_verifies_witness:
  "internetChecksum ([0x45, 0, 1, 0x48] @ be_bytes 2 (internetChecksum ([0x45, 0, 1, 0x48] @ [0, 0] @ [64, 17])) @ [64, 17]) = 0"
  by (rule dhcp_checksum_verifies) simp_all

text \<open>C19: the frame the client broadcasts is 342 bytes: broadcast destination, its own MAC, an IPv4
  header whose checksum verifies, ports 68 to 67, the transaction id and MAC in the BOOTP header, and
  an option area from which a parser reads exactly those of the wanted options that fit 60 bytes.\<close>

theorem dhcp_client_frame:
  assumes "length mac = 6"
  shows "let f = buildClientFrame mac xid mtype requested server hostname in
    length f = 342 \<and> slice f 0 6 = replicate 6 0xff \<and> slice f 6 12 = mac \<and> slice f 12 14 = [8, 0] \<and>
    internetChecksum (slice f 14 34) = 0 \<and> slice f 34 38 = [0, 68, 0, 67] \<and>
    slice f 42 45 = [1, 1, 6] \<and> slice f 46 50 = be_bytes 4 xid \<and> slice f 70 76 = mac \<and>
    slice f 278 282 = dhcpCookie \<and>
    parseOptions (drop 282 f) = Inr (map_of (fitOptions 60 0 (wantedOptions mac mtype requested server hostname)))"
  using assms by (rule clientFrame_layout)

theorem dhcp_client_frame_witness:
  "internetChecksum (slice (buildClientFrame [2, 83, 80, 82, 84, 1] 7 1 AddrZero AddrZero []) 14 34) = 0 \<and>
    length (buildClientFrame [2, 83, 80, 82, 84, 1] 7 1 AddrZero AddrZero []) = 342"
  using dhcp_client_frame [of "[2, 83, 80, 82, 84, 1]" 7 1 AddrZero AddrZero "[]"] by (simp add: Let_def)

text \<open>For a 6-byte MAC and a hostname of at most 21 bytes nothing is left out: the options of a
  request read back as the message type, client id, requested address, server, hostname, parameter
  list and message size that were asked for.\<close>

theorem dhcp_options_complete:
  assumes "length mac = 6" "length hostname \<le> 21"
  shows "parseOptions (clientOptions mac mtype requested server hostname) =
    Inr (map_of (wantedOptions mac mtype requested server hostname))"
proof -
  have "length (As4 a) \<le> 4" for a by (cases a) simp_all
  then have "fitOptions 60 0 (wantedOptions mac mtype requested server hostname) =
      wantedOptions mac mtype requested server hostname"
    using assms by (cases requested; cases server) (simp_all add: wantedOptions_def)
  then show ?thesis using clientOptions_parse by simp
qed

theorem dhcp_options_complete_witness:
  "\<exists>m. parseOptions (clientOptions [2, 83, 80, 82, 84, 1] 3 (AddrFrom4 10 20 30 40) (AddrFrom4 10 20 30 1) (ascii ''spr-test'')) =
      Inr m \<and> m 53 = Some [3] \<and> m 50 = Some [10, 20, 30, 40] \<and> m 54 = Some [10, 20, 30, 1] \<and>
      m 12 = Some (ascii ''spr-test'')"
  using dhcp_options_complete [of "[2, 83, 80, 82, 84, 1]" "ascii ''spr-test''"]
  by (simp add: wantedOptions_def ascii_def)

text \<open>The hostname is cut at 63 bytes but the option area only has room for 45 in a discover: a
  longer one is left out altogether, and one of 38 to 45 bytes pushes out the parameter request list
  that asks for the mask, router and name servers.\<close>

theorem dhcp_long_hostname:
  assumes "length mac = 6" "37 < length hostname"
  shows "\<exists>m. parseOptions (clientOptions mac 1 requested server hostname) = Inr m \<and>
    (if length hostname \<le> 45 then m 12 = Some hostname \<and> m 55 = None else m 12 = None \<and> m 55 \<noteq> None)"
proof -
  have "hostname \<noteq> []" using assms(2) by auto
  then show ?thesis
    using clientOptions_parse [of mac 1 requested server hostname] assms
    by (auto simp: wantedOptions_def min_def)
qed

theorem dhcp_long_hostname_witness:
  "\<exists>m. parseOptions (clientOptions [2, 83, 80, 82, 84, 1] 1 AddrZero AddrZero (replicate 40 97)) = Inr m \<and>
    m 12 = Some (replicate 40 97) \<and> m 55 = None"
  using dhcp_long_hostname [of "[2, 83, 80, 82, 84, 1]" "replicate 40 97" AddrZero AddrZero] by simp

lemma parseOptionsFrom_no_panic: "parseOptionsFrom data pos m \<noteq> Inl Panic"
proof (induction data pos m rule: parseOptionsFrom.induct)
  case (1 data pos m)
  then show ?case by (subst parseOptionsFrom.simps) (simp add: Let_def del: fun_upd_apply)
qed

lemma parsePayload_no_panic:
  assumes "240 \<le> length payload"
  shows "parsePayload payload \<noteq> Inl Panic"
proof -
  have "1 < length payload" "2 < length payload" "payload \<noteq> []" using assms by auto
  then show ?thesis using assms parseOptionsFrom_no_panic
    by (simp add: parsePayload_def bootpFixedLength_def parseOptions_def no_panicI)
qed

lemma parseUDP_no_panic:
  assumes "8 \<le> length udp"
  shows "parseUDP udp \<noteq> Inl Panic"
  using assms by (simp add: parseUDP_def Let_def bootpFixedLength_def cong: if_cong)
    (intro impI parsePayload_no_panic, auto)

text \<open>C17: parsing never indexes or slices out of range, whatever bytes arrive.\<close>

theorem dhcp_parse_no_panic: "parseServerFrame frame \<noteq> Inl Panic"
  by (simp add: parseServerFrame_def Let_def bootpFixedLength_def cong: if_cong)
    (intro impI parseUDP_no_panic, auto)

lemma Is4_addr4: "4 \<le> length v \<Longrightarrow> Is4 (addr4 v) \<and> IsValid (addr4 v)"
  by (simp add: addr4_def)

lemma parse_fields:
  assumes "parseServerFrame frame = Inr (p, xid, mac)"
  shows "Is4 (address p) \<and> IsValid (serverAddr p) \<and> length (mask4 p) = 4 \<and> length mac = 6 \<and>
    0 \<le> leaseTime p \<and> leaseTime p < 2 ^ 32 * Second"
proof -
  obtain payload where pp: "parsePayload payload = Inr (p, xid, mac)"
    using assms by (auto simp: parseServerFrame_def parseUDP_def Let_def and_then_Inr_iff split: if_splits)
  then obtain y z opts where m: "length y = 4" "length z = 4" "length mac = 6"
    and p: "p = applyOptions opts (zeroPacket\<lparr>address := addr4 y, serverAddr := addr4 z\<rparr>)"
    by (force simp: parsePayload_def and_then_Inr_iff go_slice_def split: if_splits)
  have "uint (be_word v :: u32) * Second < 2 ^ 32 * Second" for v
    using uint_lt2p [of "be_word v :: u32"] by (simp add: Second_def)
  moreover have "0 \<le> uint (be_word v :: u32) * Second" for v by (simp add: Second_def)
  ultimately show ?thesis
    using m Is4_addr4 by (simp add: p applyOptions_def Let_def zeroPacket_def) (simp add: Second_def)
qed

text \<open>What is accepted. A parsed packet has an IPv4 address and an IPv4 server (so the client's
  check for an offer without a server never fires), a four-byte mask, a lease within 32 bits of
  seconds and a six-byte client MAC.\<close>

theorem dhcp_parse_sound:
  assumes "parseServerFrame frame = Inr (p, xid, mac)"
  shows "Is4 (address p) \<and> IsValid (serverAddr p) \<and> length (mask4 p) = 4 \<and> length mac = 6 \<and>
    0 \<le> leaseTime p \<and> leaseTime p < 2 ^ 32 * Second"
  using assms by (rule parse_fields)

text \<open>C18: the parser inverts a server's encoder: from any well-formed message it reads exactly the
  addresses, options, transaction id and client MAC that were put in.\<close>

theorem dhcp_server_roundtrip:
  assumes "payloadFields yiaddr siaddr mac L" "messageFields eth ip ck (serverPayload xid yiaddr siaddr mac L pad)"
  shows "parseServerFrame (serverMessage eth ip ck (serverPayload xid yiaddr siaddr mac L pad)) =
    Inr (applyOptions (map_of (rev L)) (zeroPacket\<lparr>address := addr4 yiaddr, serverAddr := addr4 siaddr\<rparr>), xid, mac)"
  using assms by (simp add: parseServerFrame_message parsePayload_server)

text \<open>
  The reply of the repository's test server (\<^verbatim>\<open>serverFrame\<close> in \<^verbatim>\<open>dhcp_test.go\<close>), but for the
  checksum of its IPv4 header, left zero here: the client does not look at it.
\<close>

definition testOptions :: "u8 \<Rightarrow> (u8 \<times> bytes) list" where
  "testOptions t = [(53, [t]), (54, [10, 20, 30, 1]), (1, [255, 255, 255, 0]), (3, [10, 20, 30, 1]),
     (6, [10, 20, 30, 1, 1, 1, 1, 1]), (51, [0, 0, 0x0e, 0x10])]"

definition testReply :: "bytes \<Rightarrow> u32 \<Rightarrow> u8 \<Rightarrow> bytes" where
  "testReply mac xid t = serverMessage (mac @ replicate 6 0xff)
     ([0x45, 0, 1, 0x48, 0, 0, 0, 0, 64, 17, 0, 0, 10, 20, 30, 1, 255, 255, 255, 255]) [0, 0]
     (serverPayload xid [10, 20, 30, 40] [10, 20, 30, 1] mac (testOptions t) (replicate 22 0))"

definition testPacket :: "u8 \<Rightarrow> dhcpPacket" where
  "testPacket t = \<lparr>messageType = t, address = AddrFrom4 10 20 30 40, serverAddr = AddrFrom4 10 20 30 1,
     mask4 = [255, 255, 255, 0], router = AddrFrom4 10 20 30 1,
     dns = [AddrFrom4 10 20 30 1, AddrFrom4 1 1 1 1], leaseTime = 3600 * Second\<rparr>"

lemma testOptions_apply: "applyOptions (map_of (rev (testOptions t)))
    (zeroPacket\<lparr>address := addr4 [10, 20, 30, 40], serverAddr := addr4 [10, 20, 30, 1]\<rparr>) = testPacket t"
  by (simp add: testOptions_def applyOptions_def optionValue_def testPacket_def zeroPacket_def addr4_def be_word_def)

lemma testReply_fields:
  assumes "length mac = 6"
  shows "payloadFields [10, 20, 30, 40] [10, 20, 30, 1] mac (testOptions t)"
    "messageFields (mac @ replicate 6 0xff)
      ([0x45, 0, 1, 0x48, 0, 0, 0, 0, 64, 17, 0, 0, 10, 20, 30, 1, 255, 255, 255, 255]) [0, 0]
      (serverPayload xid [10, 20, 30, 40] [10, 20, 30, 1] mac (testOptions t) (replicate 22 0))"
  using assms
  by (simp_all add: payloadFields_def messageFields_def serverPayload_def testOptions_def validOption_def dhcpCookie_def)

lemma testReply_parse: "length mac = 6 \<Longrightarrow> parseServerFrame (testReply mac xid t) = Inr (testPacket t, xid, mac)"
  unfolding testReply_def
  by (simp only: parseServerFrame_message [OF testReply_fields(2)] parsePayload_server [OF testReply_fields(1)]
      testOptions_apply)

theorem dhcp_server_roundtrip_witness:
  "parseServerFrame (testReply [2, 83, 80, 82, 84, 1] 7 2) = Inr (testPacket 2, 7, [2, 83, 80, 82, 84, 1])"
proof -
  have m: "length [2, 83, 80, 82, 84, 1 :: u8] = 6" by simp
  from dhcp_server_roundtrip [OF testReply_fields(1) [OF m, of 2] testReply_fields(2) [OF m, of 7 2]]
  show ?thesis by (simp only: testReply_def testOptions_apply)
qed

theorem dhcp_parse_sound_witness:
  "parseServerFrame (testReply [2, 83, 80, 82, 84, 1] 7 2) = Inr (testPacket 2, 7, [2, 83, 80, 82, 84, 1]) \<and>
    Is4 (address (testPacket 2)) \<and> IsValid (serverAddr (testPacket 2)) \<and> leaseTime (testPacket 2) < 2 ^ 32 * Second"
proof -
  have "parseServerFrame (testReply [2, 83, 80, 82, 84, 1] 7 2) = Inr (testPacket 2, 7, [2, 83, 80, 82, 84, 1])"
    by (simp add: testReply_parse)
  from dhcp_parse_sound [OF this] this show ?thesis by simp
qed

end
