(* ===== verification/Dhcp_Client.thy ===== *)
theory Dhcp_Client
  imports Dhcp_Wire
begin

text \<open>
  The client half of \<^verbatim>\<open>kernel/sprnet/dhcp.go\<close>: \<^verbatim>\<open>Acquire\<close>, \<^verbatim>\<open>waitFor\<close> and \<^verbatim>\<open>mergeLease\<close>. The
  frame device (go-net's VirtIO driver, not in the repository) and the clock are parameters over a
  state \<open>'s\<close>. Times and durations are nanoseconds.
\<close>

section \<open>The environment and the client\<close>

text \<open>
  \<^verbatim>\<open>FrameDevice\<close> with the clock: \<open>devReceive\<close> is given the buffer's size and returns \<^verbatim>\<open>buf[:n]\<close>;
  \<open>pause\<close> is \<^verbatim>\<open>Gosched\<close> and the 2 ms sleep.
\<close>

record ('s, 'e) frameDevice =
  devReceive :: "nat \<Rightarrow> 's \<Rightarrow> ('e + bytes) \<times> 's"
  devTransmit :: "bytes \<Rightarrow> 's \<Rightarrow> 'e option \<times> 's"
  clockNow :: "'s \<Rightarrow> int \<times> 's"
  pause :: "'s \<Rightarrow> 's"

record client =
  clientMAC :: bytes
  clientHostname :: bytes
  clientTimeout :: int

record lease =
  leaseAddress :: addr
  PrefixLen :: int
  Gateway :: addr
  DNS :: "addr list"
  leaseServer :: addr
  Duration :: int
  leaseMAC :: bytes

datatype 'e acquire_error = NilDevice | InvalidMACLength nat | TransmitDiscover 'e
  | TransmitRequest 'e | NoServerIdentifier | ReceiveFailed 'e | ServerRejected
  | MessageTimedOut u8 | NoValidLease | TimedOut

section \<open>Merging the offer and the acknowledgement\<close>

text \<open>\<^verbatim>\<open>net.IPMask.Size\<close>: the number of leading ones of a canonical mask, else (0, 0).\<close>

fun leadingOnes :: "nat \<Rightarrow> u8 \<Rightarrow> nat \<times> u8" where
  "leadingOnes 0 v = (0, v)"
| "leadingOnes (Suc k) v =
     (if v AND 0x80 \<noteq> 0 then (let (n, w) = leadingOnes k (push_bit 1 v) in (Suc n, w)) else (0, v))"

fun maskLength :: "bytes \<Rightarrow> int" where
  "maskLength [] = 0"
| "maskLength (v # rest) =
     (if v = 0xff then (let n = maskLength rest in if n = -1 then -1 else 8 + n)
      else let (n, w) = leadingOnes 8 v in
        if w \<noteq> 0 \<or> (\<exists>c \<in> set rest. c \<noteq> 0) then -1 else int n)"

definition maskSize :: "bytes \<Rightarrow> int \<times> int" where
  "maskSize m = (let n = maskLength m in if n = -1 then (0, 0) else (n, 8 * int (length m)))"

definition mergeLease :: "bytes \<Rightarrow> dhcpPacket \<Rightarrow> dhcpPacket \<Rightarrow> 'e acquire_error + lease" where
  "mergeLease mac offer ack =
     (let ack = (if \<not> IsValid (address ack) \<or> IsUnspecified (address ack)
                 then ack\<lparr>address := address offer\<rparr> else ack);
          ack = (if mask4 ack = [0, 0, 0, 0] then ack\<lparr>mask4 := mask4 offer\<rparr> else ack);
          ack = (if \<not> IsValid (router ack) then ack\<lparr>router := router offer\<rparr> else ack);
          ack = (if length (dns ack) = 0 then ack\<lparr>dns := dns offer\<rparr> else ack);
          ack = (if \<not> IsValid (serverAddr ack) then ack\<lparr>serverAddr := serverAddr offer\<rparr> else ack);
          ack = (if leaseTime ack = 0 then ack\<lparr>leaseTime := leaseTime offer\<rparr> else ack);
          (ones, nbits) = maskSize (mask4 ack)
      in if \<not> Is4 (address ack) \<or> nbits \<noteq> 32 \<or> ones < 0 then Inl NoValidLease
         else Inr \<lparr>leaseAddress = address ack, PrefixLen = ones, Gateway = router ack, DNS = dns ack,
                leaseServer = serverAddr ack, Duration = leaseTime ack, leaseMAC = mac\<rparr>)"

text \<open>\<^verbatim>\<open>Lease.CIDR\<close>, for an IPv4 address and a prefix length of 0 to 32 as every lease has.\<close>

definition CIDR :: "lease \<Rightarrow> string" where
  "CIDR l = (case leaseAddress l of
       AddrFrom4 a b c d \<Rightarrow> decimal (unat a) @ ''.'' @ decimal (unat b) @ ''.'' @ decimal (unat c) @ ''.'' @
         decimal (unat d) @ ''/'' @ decimal (nat (PrefixLen l))
     | AddrZero \<Rightarrow> ''invalid Prefix'')"

section \<open>Waiting for a message\<close>

definition equalMAC :: "bytes \<Rightarrow> bytes \<Rightarrow> bool" where
  "equalMAC a b \<longleftrightarrow> (if length a \<noteq> length b then False else list_all (\<lambda>(x, y). x = y) (zip a b))"

definition boundedDeadline :: "('s, 'e) frameDevice \<Rightarrow> int \<Rightarrow> int \<Rightarrow> 's \<Rightarrow> int \<times> 's" where
  "boundedDeadline D overall wait s =
     (let (t, s) = clockNow D s; next = t + wait in (if next > overall then overall else next, s))"

text \<open>
  The receive loop; \<open>None\<close> would be a loop that never ends. A frame that does not parse is skipped
  (\<open>dhcp_parse_no_panic\<close> shows that parsing cannot panic).
\<close>

partial_function (option) waitFor :: "('s, 'e) frameDevice \<Rightarrow> bytes \<Rightarrow> u32 \<Rightarrow> u8 \<Rightarrow> int \<Rightarrow> 's \<Rightarrow>
    (('e acquire_error + dhcpPacket) \<times> 's) option" where
  "waitFor D mac xid want deadline s =
     (case clockNow D s of (t, s) \<Rightarrow>
        if t < deadline then
          (case devReceive D 1600 s of
             (Inl err, s) \<Rightarrow> Some (Inl (ReceiveFailed err), s)
           | (Inr frame, s) \<Rightarrow>
               if frame = [] then waitFor D mac xid want deadline (pause D s)
               else (case parseServerFrame frame of
                   Inl _ \<Rightarrow> waitFor D mac xid want deadline s
                 | Inr (packet, packetXID, packetMAC) \<Rightarrow>
                     if packetXID \<noteq> xid \<or> \<not> equalMAC packetMAC mac
                     then waitFor D mac xid want deadline s
                     else if messageType packet = 6 then Some (Inl ServerRejected, s)
                     else if messageType packet = want then Some (Inr packet, s)
                     else waitFor D mac xid want deadline s))
        else Some (Inl (MessageTimedOut want), s))"

section \<open>Acquire\<close>

text \<open>One pass of the retry loop: the error it ends with, or the lease.\<close>

definition acquireAttempt :: "('s, 'e) frameDevice \<Rightarrow> client \<Rightarrow> u32 \<Rightarrow> int \<Rightarrow> nat \<Rightarrow> 's \<Rightarrow>
    (('e acquire_error + lease) \<times> 's) option" where
  "acquireAttempt D c xid deadline attempt s =
     (case devTransmit D (buildClientFrame (clientMAC c) xid 1 AddrZero AddrZero (clientHostname c)) s of
        (Some err, s) \<Rightarrow> Some (Inl (TransmitDiscover err), s)
      | (None, s) \<Rightarrow>
          (case boundedDeadline D deadline (int (push_bit attempt 2) * Second) s of (dl, s) \<Rightarrow>
          (case waitFor D (clientMAC c) xid 2 dl s of
             None \<Rightarrow> None
           | Some (Inl err, s) \<Rightarrow> Some (Inl err, s)
           | Some (Inr offer, s) \<Rightarrow>
               if \<not> IsValid (serverAddr offer) then Some (Inl NoServerIdentifier, s)
               else (case devTransmit D (buildClientFrame (clientMAC c) xid 3 (address offer)
                         (serverAddr offer) (clientHostname c)) s of
                   (Some err, s) \<Rightarrow> Some (Inl (TransmitRequest err), s)
                 | (None, s) \<Rightarrow>
                     (case boundedDeadline D deadline (4 * Second) s of (dl, s) \<Rightarrow>
                     (case waitFor D (clientMAC c) xid 5 dl s of
                        None \<Rightarrow> None
                      | Some (Inl err, s) \<Rightarrow> Some (Inl err, s)
                      | Some (Inr ack, s) \<Rightarrow> Some (mergeLease (clientMAC c) offer ack, s)))))))"

fun acquireFrom :: "('s, 'e) frameDevice \<Rightarrow> client \<Rightarrow> u32 \<Rightarrow> int \<Rightarrow> nat list \<Rightarrow> 'e acquire_error option \<Rightarrow> 's \<Rightarrow>
    (('e acquire_error + lease) \<times> 's) option" where
  "acquireFrom D c xid deadline [] lastErr s =
     Some (Inl (case lastErr of None \<Rightarrow> TimedOut | Some err \<Rightarrow> err), s)"
| "acquireFrom D c xid deadline (attempt # rest) lastErr s =
     (case clockNow D s of (t, s) \<Rightarrow>
        if t < deadline then
          (case acquireAttempt D c xid deadline attempt s of
             None \<Rightarrow> None
           | Some (Inl err, s) \<Rightarrow> acquireFrom D c xid deadline rest (Some err) s
           | Some (Inr l, s) \<Rightarrow> Some (Inr l, s))
        else Some (Inl (case lastErr of None \<Rightarrow> TimedOut | Some err \<Rightarrow> err), s))"

definition Acquire :: "('s, 'e) frameDevice option \<Rightarrow> client \<Rightarrow> 's \<Rightarrow>
    (('e acquire_error + lease) \<times> 's) option" where
  "Acquire device c s =
     (case device of
        None \<Rightarrow> Some (Inl NilDevice, s)
      | Some D \<Rightarrow>
          if length (clientMAC c) \<noteq> 6 then Some (Inl (InvalidMACLength (length (clientMAC c))), s)
          else
            let timeout = (if clientTimeout c \<le> 0 then 20 * Second else clientTimeout c);
                (t0, s) = clockNow D s;
                deadline = t0 + timeout;
                (t1, s) = clockNow D s;
                xid = be_word (slice (clientMAC c) 2 6) XOR word_of_int t1
            in acquireFrom D c xid deadline [0, 1, 2, 3] None s)"

section \<open>Masks\<close>

text \<open>The \<open>i\<close>-th bit of a mask from the left.\<close>

definition maskBit :: "bytes \<Rightarrow> nat \<Rightarrow> bool" where
  "maskBit m i = bit (m ! (i div 8)) (7 - i mod 8)"

lemma leadingOnes_bits:
  "leadingOnes k v = (n, w) \<Longrightarrow> k \<le> 8 \<Longrightarrow> n \<le> k \<and> w = push_bit n v \<and> (\<forall>i < n. bit v (7 - i)) \<and> (n < k \<longrightarrow> \<not> bit v (7 - n))"
proof (induction k arbitrary: v n w)
  case (Suc k)
  have b: "v AND 0x80 \<noteq> 0 \<longleftrightarrow> bit v 7"
    using bit_iff_and_push_bit_not_eq_0 [of v 7] by simp
  show ?case
  proof (cases "bit v 7")
    case False
    then show ?thesis using Suc.prems b by simp
  next
    case True
    obtain n1 where r: "leadingOnes k (push_bit 1 v) = (n1, w)" and n: "n = Suc n1"
      using Suc.prems(1) True b by (auto split: prod.splits)
    from Suc.IH [OF r] Suc.prems(2) have IH: "n1 \<le> k" "w = push_bit n1 (push_bit 1 v)"
      "\<forall>i < n1. bit (push_bit 1 v) (7 - i)" "n1 < k \<longrightarrow> \<not> bit (push_bit 1 v) (7 - n1)" by auto
    have s: "bit (push_bit 1 v) (7 - i) \<longleftrightarrow> bit v (7 - Suc i)" if "i < 7" for i
      using that by (subst bit_push_bit_iff) auto
    have "bit v (7 - i)" if "i < n" for i
      using that True IH(1,3) s [of "i - 1"] Suc.prems(2) n by (cases i) auto
    moreover have "\<not> bit v (7 - n)" if "n < Suc k"
      using that IH(4) s [of n1] Suc.prems(2) n by auto
    moreover have "w = push_bit n v" by (simp add: IH(2) n push_bit_push_bit)
    ultimately show ?thesis using IH(1) n by auto
  qed
qed simp

lemma leadingOnes_8:
  assumes "leadingOnes 8 v = (n, w)"
  shows "n \<le> 8 \<and> (\<forall>i < n. bit v (7 - i)) \<and> (n < 8 \<longrightarrow> \<not> bit v (7 - n)) \<and> (w = 0 \<longleftrightarrow> (\<forall>i < 8. bit v (7 - i) \<longleftrightarrow> i < n))"
proof -
  from leadingOnes_bits [OF assms] have l: "n \<le> 8" "w = push_bit n v" "\<forall>i < n. bit v (7 - i)"
    "n < 8 \<longrightarrow> \<not> bit v (7 - n)" by auto
  have "w = 0 \<longleftrightarrow> (\<forall>j < 8. \<not> bit w j)" by (auto simp: bit_eq_iff dest: bit_imp_le_length)
  also have "\<dots> \<longleftrightarrow> (\<forall>i < 8. n \<le> i \<longrightarrow> \<not> bit v (7 - i))"
  proof
    assume a: "\<forall>j < 8. \<not> bit w j"
    show "\<forall>i < 8. n \<le> i \<longrightarrow> \<not> bit v (7 - i)"
    proof (intro allI impI)
      fix i assume "i < 8" "n \<le> i"
      then show "\<not> bit v (7 - i)" using a [rule_format, of "7 - i + n"] by (simp add: l(2) bit_push_bit_iff)
    qed
  next
    assume a: "\<forall>i < 8. n \<le> i \<longrightarrow> \<not> bit v (7 - i)"
    show "\<forall>j < 8. \<not> bit w j"
    proof (intro allI impI)
      fix j :: nat assume "j < 8"
      then show "\<not> bit w j" using a [rule_format, of "7 - (j - n)"] by (auto simp: l(2) bit_push_bit_iff)
    qed
  qed
  finally show ?thesis using l by (meson not_le)
qed

lemma maskBit_Cons: "maskBit (v # rest) i = (if i < 8 then bit v (7 - i) else maskBit rest (i - 8))"
  by (auto simp: maskBit_def nth_Cons' div_eq_0_iff le_div_geq le_mod_geq not_less)

lemma all_split: "(\<forall>i < a + b. P i) \<longleftrightarrow> (\<forall>i < a. P i) \<and> (\<forall>i < b. P (a + i))" for a b :: nat
proof
  assume r: "(\<forall>i < a. P i) \<and> (\<forall>i < b. P (a + i))"
  show "\<forall>i < a + b. P i"
  proof (intro allI impI)
    fix i assume "i < a + b"
    with r show "P i" by (cases "i < a") (auto dest: spec [of _ "i - a"])
  qed
qed auto

lemma maskBit_zero: "(\<forall>c \<in> set m. c = 0) \<longleftrightarrow> (\<forall>i < 8 * length m. \<not> maskBit m i)"
proof (induction m)
  case (Cons v m)
  have "v = 0 \<longleftrightarrow> (\<forall>i < 8. \<not> bit v (7 - i))"
  proof
    assume a: "\<forall>i < 8. \<not> bit v (7 - i)"
    have "\<not> bit v j" if "j < 8" for j using a [rule_format, of "7 - j"] that by simp
    then show "v = 0" by (auto simp: bit_eq_iff dest: bit_imp_le_length)
  qed simp
  moreover have "(\<forall>i < 8 * length (v # m). \<not> maskBit (v # m) i) \<longleftrightarrow>
      (\<forall>i < 8. \<not> bit v (7 - i)) \<and> (\<forall>i < 8 * length m. \<not> maskBit m i)"
    using all_split [of 8 "8 * length m" "\<lambda>i. \<not> maskBit (v # m) i"] by (simp add: maskBit_Cons)
  ultimately show ?case using Cons by auto
qed simp

text \<open>A mask has length \<open>n\<close> exactly when its first \<open>n\<close> bits are the ones.\<close>

definition maskOf :: "bytes \<Rightarrow> nat \<Rightarrow> bool" where
  "maskOf m n \<longleftrightarrow> n \<le> 8 * length m \<and> (\<forall>i < 8 * length m. maskBit m i \<longleftrightarrow> i < n)"

lemma maskOf_unique: "maskOf m n \<Longrightarrow> maskOf m k \<Longrightarrow> n = k"
proof -
  have False if "maskOf m n" "maskOf m k" "n < k" for n k
  proof -
    from that have "n < 8 * length m" by (simp add: maskOf_def)
    with that show False by (metis maskOf_def less_irrefl)
  qed
  then show "maskOf m n \<Longrightarrow> maskOf m k \<Longrightarrow> n = k" by (metis linorder_neqE_nat)
qed

lemma maskLength_of:
  "maskLength m = -1 \<and> (\<nexists>n. maskOf m n) \<or> (\<exists>n. maskLength m = int n \<and> maskOf m n)"
proof (induction m)
  case Nil
  then show ?case by (auto simp: maskOf_def)
next
  case (Cons v m)
  have split: "(\<forall>i < 8 * length (v # m). maskBit (v # m) i \<longleftrightarrow> i < n) \<longleftrightarrow>
      (\<forall>i < 8. bit v (7 - i) \<longleftrightarrow> i < n) \<and> (\<forall>i < 8 * length m. maskBit m i \<longleftrightarrow> 8 + i < n)" for n
    using all_split [of 8 "8 * length m" "\<lambda>i. maskBit (v # m) i \<longleftrightarrow> i < n"] by (simp add: maskBit_Cons)
  show ?case
  proof (cases "v = 0xff")
    case True
    have ones: "bit v (7 - i)" for i
    proof -
      have "v = mask 8" using True by (simp add: mask_eq_exp_minus_1)
      then show ?thesis by (simp add: bit_mask_iff)
    qed
    have "maskOf (v # m) n \<longleftrightarrow> 8 \<le> n \<and> maskOf m (n - 8)" for n
    proof (cases "8 \<le> n")
      case True
      then show ?thesis unfolding maskOf_def split using ones by (auto simp: less_diff_conv2 add.commute)
    next
      case False
      then have "\<not> (\<forall>i < 8. bit v (7 - i) \<longleftrightarrow> i < n)" using ones by (metis less_irrefl not_le)
      with False show ?thesis unfolding maskOf_def split by blast
    qed
    then have "maskOf (v # m) (8 + k) \<longleftrightarrow> maskOf m k" "(\<exists>n. maskOf (v # m) n) \<longleftrightarrow> (\<exists>k. maskOf m k)" for k
      by (auto, metis le_add1 add_diff_cancel_left')
    note shift = this
    show ?thesis
    proof (cases "\<exists>k. maskOf m k")
      case False
      with Cons shift(2) show ?thesis using \<open>v = 0xff\<close> by auto
    next
      case True
      with Cons obtain k where "maskLength m = int k" "maskOf m k" by blast
      with shift(1) [of k] \<open>v = 0xff\<close> show ?thesis by (auto simp: Let_def intro!: exI [of _ "8 + k"])
    qed
  next
    case False
    obtain n w where l: "leadingOnes 8 v = (n, w)" by fastforce
    note L = leadingOnes_8 [OF l]
    have n8: "k < 8" if "\<forall>i < 8. bit v (7 - i) \<longleftrightarrow> i < k" for k
    proof (rule ccontr)
      assume "\<not> k < 8"
      then have "bit v j" if "j < 8" for j using that \<open>\<forall>i < 8. bit v (7 - i) \<longleftrightarrow> i < k\<close> [rule_format, of "7 - j"] by simp
      then have "v = mask 8" by (auto simp: bit_eq_iff bit_mask_iff dest: bit_imp_le_length)
      with False show False by (simp add: mask_eq_exp_minus_1)
    qed
    have of: "maskOf (v # m) k \<longleftrightarrow> (\<forall>i < 8. bit v (7 - i) \<longleftrightarrow> i < k) \<and> (\<forall>c \<in> set m. c = 0)" for k
      unfolding maskOf_def split maskBit_zero using n8 [of k] by auto
    have zero: "k = n" if "\<forall>i < 8. bit v (7 - i) \<longleftrightarrow> i < k" for k
    proof (rule linorder_cases [of k n])
      assume "k < n"
      with L that n8 [OF that] show ?thesis by (metis less_irrefl)
    next
      assume "n < k"
      with L that n8 [OF that] have "n < 8" "\<not> bit v (7 - n)" by auto
      with that \<open>n < k\<close> show ?thesis by blast
    qed
    show ?thesis
    proof (cases "w = 0 \<and> (\<forall>c \<in> set m. c = 0)")
      case True
      then have "maskLength (v # m) = int n" using False l by auto
      moreover have "maskOf (v # m) n" using True L of by blast
      ultimately show ?thesis by blast
    next
      case bad: False
      then have "maskLength (v # m) = -1" using False l by auto
      moreover have "\<not> maskOf (v # m) k" for k
        using bad of [of k] zero [of k] L by blast
      ultimately show ?thesis by blast
    qed
  qed
qed

lemma maskSize_32:
  assumes "length m = 4"
  shows "maskSize m = (x, 32) \<longleftrightarrow> 0 \<le> x \<and> maskOf m (nat x)"
    and "(\<nexists>n. maskOf m n) \<Longrightarrow> maskSize m = (0, 0)"
proof -
  consider "maskLength m = -1" "\<nexists>n. maskOf m n" | n where "maskLength m = int n" "maskOf m n"
    using maskLength_of [of m] by blast
  then have "(maskSize m = (x, 32) \<longleftrightarrow> 0 \<le> x \<and> maskOf m (nat x)) \<and> ((\<nexists>n. maskOf m n) \<longrightarrow> maskSize m = (0, 0))"
  proof cases
    case 2
    then have "int n = x \<longleftrightarrow> 0 \<le> x \<and> maskOf m (nat x)"
      by (metis maskOf_unique int_nat_eq nat_int of_nat_0_le_iff)
    with 2 assms show ?thesis by (auto simp: maskSize_def Let_def)
  qed (auto simp: maskSize_def Let_def)
  then show "maskSize m = (x, 32) \<longleftrightarrow> 0 \<le> x \<and> maskOf m (nat x)"
    and "(\<nexists>n. maskOf m n) \<Longrightarrow> maskSize m = (0, 0)" by blast+
qed

section \<open>Merging\<close>

text \<open>The merged fields: the acknowledgement's where it has them, else the offer's.\<close>

definition mergedMask :: "dhcpPacket \<Rightarrow> dhcpPacket \<Rightarrow> bytes" where
  "mergedMask offer ack = (if mask4 ack = [0, 0, 0, 0] then mask4 offer else mask4 ack)"

definition mergedAddress :: "dhcpPacket \<Rightarrow> dhcpPacket \<Rightarrow> addr" where
  "mergedAddress offer ack =
     (if IsValid (address ack) \<and> \<not> IsUnspecified (address ack) then address ack else address offer)"

definition mergedLease :: "bytes \<Rightarrow> dhcpPacket \<Rightarrow> dhcpPacket \<Rightarrow> int \<Rightarrow> lease" where
  "mergedLease mac offer ack n =
     \<lparr>leaseAddress = mergedAddress offer ack, PrefixLen = n,
      Gateway = (if IsValid (router ack) then router ack else router offer),
      DNS = (if dns ack = [] then dns offer else dns ack),
      leaseServer = (if IsValid (serverAddr ack) then serverAddr ack else serverAddr offer),
      Duration = (if leaseTime ack = 0 then leaseTime offer else leaseTime ack), leaseMAC = mac\<rparr>"

lemma mergeLease_eq: "mergeLease mac offer ack =
    (let (n, b) = maskSize (mergedMask offer ack) in
     if \<not> Is4 (mergedAddress offer ack) \<or> b \<noteq> 32 \<or> n < 0 then Inl NoValidLease
     else Inr (mergedLease mac offer ack n))"
proof -
  have [simp]: "f (if c then x else y) = (if c then f x else f y)" for f :: "dhcpPacket \<Rightarrow> 'b" and c x y
    by simp
  show ?thesis
    by (simp add: mergeLease_def Let_def mergedLease_def mergedMask_def mergedAddress_def split_beta
        if_distrib [of address] if_distrib [of mask4] if_distrib [of router] if_distrib [of dns]
        if_distrib [of serverAddr] if_distrib [of leaseTime])
qed

section \<open>What a wait returns\<close>

text \<open>A packet for this client and transaction that the device delivered at some point.\<close>

definition heard :: "('s, 'e) frameDevice \<Rightarrow> bytes \<Rightarrow> u32 \<Rightarrow> dhcpPacket \<Rightarrow> bool" where
  "heard D mac xid p \<longleftrightarrow> (\<exists>s frame s'. devReceive D 1600 s = (Inr frame, s') \<and>
     parseServerFrame frame = Inr (p, xid, mac))"

lemma equalMAC_iff: "equalMAC a b \<longleftrightarrow> a = b"
  by (auto simp: equalMAC_def list_all_iff list_eq_iff_zip_eq)

lemma waitFor_Some:
  fixes D :: "('s, 'e) frameDevice"
  assumes "waitFor D mac xid want deadline s = Some r"
  shows "case r of (Inr p, s') \<Rightarrow> messageType p = want \<and> heard D mac xid p
    | (Inl err, s') \<Rightarrow> (\<exists>x. err = ReceiveFailed x) \<or> err = ServerRejected \<or> err = MessageTimedOut want"
  using assms
proof (rule waitFor.raw_induct [where P = "\<lambda>D mac xid want deadline s r. case r of
    (Inr p, s') \<Rightarrow> messageType p = want \<and> heard D mac xid p
  | (Inl err, s') \<Rightarrow> (\<exists>x. err = ReceiveFailed x) \<or> err = ServerRejected \<or> err = MessageTimedOut want", rotated])
  fix loop and D :: "('s, 'e) frameDevice" and mac xid want deadline s r
  assume IH: "\<And>D mac xid want deadline s r. loop D mac xid want deadline s = Some r \<Longrightarrow> (case r of
      (Inr p, s') \<Rightarrow> messageType p = want \<and> heard D mac xid p
    | (Inl err, s') \<Rightarrow> (\<exists>x. err = ReceiveFailed x) \<or> err = ServerRejected \<or> err = MessageTimedOut want)"
    and eq: "(case clockNow D s of (t, s) \<Rightarrow>
        if t < deadline then
          (case devReceive D 1600 s of
             (Inl err, s) \<Rightarrow> Some (Inl (ReceiveFailed err), s)
           | (Inr frame, s) \<Rightarrow>
               if frame = [] then loop D mac xid want deadline (pause D s)
               else (case parseServerFrame frame of
                   Inl _ \<Rightarrow> loop D mac xid want deadline s
                 | Inr (packet, packetXID, packetMAC) \<Rightarrow>
                     if packetXID \<noteq> xid \<or> \<not> equalMAC packetMAC mac
                     then loop D mac xid want deadline s
                     else if messageType packet = 6 then Some (Inl ServerRejected, s)
                     else if messageType packet = want then Some (Inr packet, s)
                     else loop D mac xid want deadline s))
        else Some (Inl (MessageTimedOut want), s)) = Some r"
  obtain t s1 where c: "clockNow D s = (t, s1)" by fastforce
  obtain x s2 where d: "devReceive D 1600 s1 = (x, s2)" by fastforce
  show "case r of (Inr p, s') \<Rightarrow> messageType p = want \<and> heard D mac xid p
    | (Inl err, s') \<Rightarrow> (\<exists>x. err = ReceiveFailed x) \<or> err = ServerRejected \<or> err = MessageTimedOut want"
  proof (cases "t < deadline \<and> (\<exists>frame. x = Inr frame)")
    case False
    with eq c d show ?thesis by (cases x) (auto split: if_splits)
  next
    case True
    then obtain frame where x: "x = Inr frame" and t: "t < deadline" by blast
    show ?thesis
    proof (cases "frame = []")
      case True
      with eq c d x t have "loop D mac xid want deadline (pause D s2) = Some r" by simp
      then show ?thesis by (rule IH)
    next
      case f: False
      show ?thesis
      proof (cases "parseServerFrame frame")
        case (Inl e)
        with eq c d x t f have "loop D mac xid want deadline s2 = Some r" by simp
        then show ?thesis by (rule IH)
      next
        case (Inr y)
        obtain p pxid pmac where y: "y = (p, pxid, pmac)" by (cases y)
        show ?thesis
        proof (cases "pxid = xid \<and> pmac = mac \<and> (messageType p = 6 \<or> messageType p = want)")
          case True
          then have "heard D mac xid p" using d x Inr y unfolding heard_def by blast
          with True eq c d x t f Inr y show ?thesis by (auto simp: equalMAC_iff split: if_splits)
        next
          case False
          then have "loop D mac xid want deadline s2 = Some r"
            using eq c d x t f Inr y by (auto simp: equalMAC_iff split: if_splits)
          then show ?thesis by (rule IH)
        qed
      qed
    qed
  qed
qed

section \<open>Waiting ends\<close>

text \<open>Between two readings of the clock in the receive loop, time has passed.\<close>

definition ticks :: "('s, 'e) frameDevice \<Rightarrow> bool" where
  "ticks D \<longleftrightarrow> (\<forall>s t s1 frame s2. clockNow D s = (t, s1) \<longrightarrow> devReceive D 1600 s1 = (Inr frame, s2) \<longrightarrow>
     t < fst (clockNow D s2) \<and> t < fst (clockNow D (pause D s2)))"

lemma waitFor_ends:
  assumes "ticks D"
  shows "\<exists>r. waitFor D mac xid want deadline s = Some r"
proof (induction "nat (deadline - fst (clockNow D s))" arbitrary: s rule: less_induct)
  case less
  obtain t s1 where c: "clockNow D s = (t, s1)" by fastforce
  obtain x s2 where d: "devReceive D 1600 s1 = (x, s2)" by fastforce
  show ?case
  proof (cases "t < deadline \<and> (\<exists>frame. x = Inr frame)")
    case False
    then show ?thesis using c d by (cases x) (subst waitFor.simps, auto)+
  next
    case True
    then obtain frame where x: "x = Inr frame" by blast
    have "t < fst (clockNow D s2)" "t < fst (clockNow D (pause D s2))"
      using assms c d x unfolding ticks_def by blast+
    then have "\<exists>r. waitFor D mac xid want deadline s2 = Some r"
      "\<exists>r. waitFor D mac xid want deadline (pause D s2) = Some r"
      using True c by (intro less; simp)+
    then show ?thesis using c d x True
      by (subst waitFor.simps) (auto split: sum.splits)
  qed
qed

lemma acquireAttempt_ends: "ticks D \<Longrightarrow> \<exists>r. acquireAttempt D c xid deadline attempt s = Some r"
proof -
  assume t: "ticks D"
  obtain e1 s1 where 1: "devTransmit D (buildClientFrame (clientMAC c) xid 1 AddrZero AddrZero (clientHostname c)) s = (e1, s1)"
    by fastforce
  obtain dl s2 where 2: "boundedDeadline D deadline (int (push_bit attempt 2) * Second) s1 = (dl, s2)" by fastforce
  obtain o1 s3 where 3: "waitFor D (clientMAC c) xid 2 dl s2 = Some (o1, s3)"
    using waitFor_ends [OF t] by fastforce
  show ?thesis
  proof (cases "e1 = None \<and> (\<exists>offer. o1 = Inr offer \<and> IsValid (serverAddr offer))")
    case False
    then show ?thesis using 1 2 3 by (cases e1; cases o1) (auto simp: acquireAttempt_def)
  next
    case True
    then obtain offer where o1: "o1 = Inr offer" "IsValid (serverAddr offer)" by blast
    obtain e2 s4 where 4: "devTransmit D (buildClientFrame (clientMAC c) xid 3 (address offer)
        (serverAddr offer) (clientHostname c)) s3 = (e2, s4)" by fastforce
    obtain dl2 s5 where 5: "boundedDeadline D deadline (4 * Second) s4 = (dl2, s5)" by fastforce
    obtain a s6 where 6: "waitFor D (clientMAC c) xid 5 dl2 s5 = Some (a, s6)"
      using waitFor_ends [OF t] by fastforce
    show ?thesis using True o1 1 2 3 4 5 6 by (cases e2; cases a) (auto simp: acquireAttempt_def)
  qed
qed

lemma acquireFrom_ends: "ticks D \<Longrightarrow> \<exists>r. acquireFrom D c xid deadline attempts lastErr s = Some r"
proof (induction attempts arbitrary: lastErr s)
  case (Cons attempt attempts)
  obtain t s1 where 1: "clockNow D s = (t, s1)" by fastforce
  obtain x s2 where 2: "acquireAttempt D c xid deadline attempt s1 = Some (x, s2)"
    using acquireAttempt_ends [OF Cons.prems] by fastforce
  then show ?case using Cons 1 by (cases x) auto
qed simp

section \<open>What a lease comes from\<close>

lemma acquireAttempt_lease:
  fixes D :: "('s, 'e) frameDevice"
  assumes "acquireAttempt D c xid deadline attempt s = Some (Inr l, s')"
  shows "\<exists>offer ack. heard D (clientMAC c) xid offer \<and> messageType offer = 2 \<and>
    heard D (clientMAC c) xid ack \<and> messageType ack = 5 \<and> mergeLease (clientMAC c) offer ack = (Inr l :: 'e acquire_error + lease)"
proof -
  obtain e1 s1 where 1: "devTransmit D (buildClientFrame (clientMAC c) xid 1 AddrZero AddrZero (clientHostname c)) s = (e1, s1)"
    by fastforce
  have e1: "e1 = None" using assms 1 by (cases e1) (auto simp: acquireAttempt_def)
  obtain dl s2 where 2: "boundedDeadline D deadline (int (push_bit attempt 2) * Second) s1 = (dl, s2)" by fastforce
  obtain o1 s3 where 3: "waitFor D (clientMAC c) xid 2 dl s2 = Some (o1, s3)"
    using assms 1 2 e1 by (cases "waitFor D (clientMAC c) xid 2 dl s2") (auto simp: acquireAttempt_def)
  obtain offer where o1: "o1 = Inr offer" using assms 1 2 3 e1 by (cases o1) (auto simp: acquireAttempt_def)
  have v: "IsValid (serverAddr offer)" using assms 1 2 3 e1 o1 by (auto simp: acquireAttempt_def split: if_splits)
  obtain e2 s4 where 4: "devTransmit D (buildClientFrame (clientMAC c) xid 3 (address offer)
      (serverAddr offer) (clientHostname c)) s3 = (e2, s4)" by fastforce
  have e2: "e2 = None" using assms 1 2 3 4 e1 o1 v by (cases e2) (auto simp: acquireAttempt_def)
  obtain dl2 s5 where 5: "boundedDeadline D deadline (4 * Second) s4 = (dl2, s5)" by fastforce
  obtain o2 s6 where 6: "waitFor D (clientMAC c) xid 5 dl2 s5 = Some (o2, s6)"
    using assms 1 2 3 4 5 e1 e2 o1 v by (cases "waitFor D (clientMAC c) xid 5 dl2 s5") (auto simp: acquireAttempt_def)
  obtain ack where o2: "o2 = Inr ack"
    using assms 1 2 3 4 5 6 e1 e2 o1 v by (cases o2) (auto simp: acquireAttempt_def)
  have "mergeLease (clientMAC c) offer ack = (Inr l :: 'e acquire_error + lease)"
    using assms 1 2 3 4 5 6 e1 e2 o1 o2 v by (simp add: acquireAttempt_def)
  then show ?thesis using waitFor_Some [OF 3] waitFor_Some [OF 6] o1 o2 by auto
qed

lemma acquireFrom_lease:
  fixes D :: "('s, 'e) frameDevice"
  shows "acquireFrom D c xid deadline attempts lastErr s = Some (Inr l, s') \<Longrightarrow>
    \<exists>offer ack. heard D (clientMAC c) xid offer \<and> messageType offer = 2 \<and>
      heard D (clientMAC c) xid ack \<and> messageType ack = 5 \<and>
      mergeLease (clientMAC c) offer ack = (Inr l :: 'e acquire_error + lease)"
proof (induction attempts arbitrary: lastErr s)
  case (Cons attempt attempts)
  obtain t s1 where 1: "clockNow D s = (t, s1)" by fastforce
  from Cons.prems 1 obtain x s2 where 2: "t < deadline" "acquireAttempt D c xid deadline attempt s1 = Some (x, s2)"
    by (auto split: if_splits option.splits)
  show ?case
  proof (cases x)
    case (Inl err)
    with Cons.prems 1 2 have "acquireFrom D c xid deadline attempts (Some err) s2 = Some (Inr l, s')" by simp
    then show ?thesis by (rule Cons.IH)
  next
    case (Inr l')
    with Cons.prems 1 2 have "acquireAttempt D c xid deadline attempt s1 = Some (Inr l, s2)" by auto
    then show ?thesis by (rule acquireAttempt_lease)
  qed
qed simp

section \<open>A device for the examples\<close>

text \<open>
  The repository's \<^verbatim>\<open>fakeDHCPDevice\<close>: it answers a discover with an offer and a request with an
  acknowledgement. Its clock advances by a nanosecond at each reading.
\<close>

definition fakeAnswer :: "bytes \<Rightarrow> bytes \<Rightarrow> bytes list" where
  "fakeAnswer mac frame =
     (case parseOptions (drop 282 frame) of
        Inl _ \<Rightarrow> []
      | Inr options \<Rightarrow>
          if optionValue options 53 = [1] then [testReply mac (be_word (slice frame 46 50)) 2]
          else if optionValue options 53 = [3] then [testReply mac (be_word (slice frame 46 50)) 5]
          else [])"

definition fakeDHCP :: "bytes \<Rightarrow> (int \<times> bytes list, nat) frameDevice" where
  "fakeDHCP mac = \<lparr>
     devReceive = (\<lambda>n (t, queue). case queue of [] \<Rightarrow> (Inr [], (t, [])) | f # fs \<Rightarrow> (Inr (take n f), (t, fs))),
     devTransmit = (\<lambda>frame (t, queue). (None, (t, queue @ fakeAnswer mac frame))),
     clockNow = (\<lambda>(t, queue). (t, (t + 1, queue))),
     pause = (\<lambda>(t, queue). (t + 2000000, queue))\<rparr>"

lemma fakeDHCP_simps [simp]:
  "devReceive (fakeDHCP mac) n (t, []) = (Inr [], (t, []))"
  "devReceive (fakeDHCP mac) n (t, f # fs) = (Inr (take n f), (t, fs))"
  "devTransmit (fakeDHCP mac) frame (t, queue) = (None, (t, queue @ fakeAnswer mac frame))"
  "clockNow (fakeDHCP mac) (t, queue) = (t, (t + 1, queue))"
  "pause (fakeDHCP mac) (t, queue) = (t + 2000000, queue)"
  by (simp_all add: fakeDHCP_def)

lemma ticks_fake: "ticks (fakeDHCP mac)"
  by (auto simp: ticks_def fakeDHCP_def split: list.splits)

lemma fakeAnswer_frame:
  assumes "length mac = 6"
  shows "fakeAnswer mac (buildClientFrame mac xid mtype requested server hostname) =
    (if mtype = 1 then [testReply mac xid 2] else if mtype = 3 then [testReply mac xid 5] else [])"
proof -
  have "map_of (fitOptions 60 0 (wantedOptions mac mtype requested server hostname)) 53 = Some [mtype]"
    by (simp add: wantedOptions_def)
  then show ?thesis
    using clientFrame_layout [OF assms, of xid mtype requested server hostname]
    by (auto simp: fakeAnswer_def Let_def optionValue_def)
qed

lemma length_testReply: "length mac = 6 \<Longrightarrow> length (testReply mac xid t) = 342"
  by (simp add: testReply_def serverMessage_def serverPayload_def testOptions_def tlv_def dhcpCookie_def)

lemma waitFor_fake:
  assumes "length mac = 6" "t0 < deadline" "t \<noteq> 6"
  shows "waitFor (fakeDHCP mac) mac xid t deadline (t0, [testReply mac xid t]) = Some (Inr (testPacket t), (t0 + 1, []))"
proof -
  have "testReply mac xid t \<noteq> []" using length_testReply [OF assms(1), of xid t] by auto
  then show ?thesis
    using assms length_testReply [OF assms(1)] testReply_parse [OF assms(1), of xid t]
    by (subst waitFor.simps) (simp add: equalMAC_iff testPacket_def)
qed

definition testMAC :: bytes where "testMAC = [2, 83, 80, 82, 84, 1]"

definition testClient :: client where
  "testClient = \<lparr>clientMAC = testMAC, clientHostname = ascii ''test'', clientTimeout = Second\<rparr>"

definition testLease :: lease where
  "testLease = \<lparr>leaseAddress = AddrFrom4 10 20 30 40, PrefixLen = 24, Gateway = AddrFrom4 10 20 30 1,
     DNS = [AddrFrom4 10 20 30 1, AddrFrom4 1 1 1 1], leaseServer = AddrFrom4 10 20 30 1,
     Duration = 3600 * Second, leaseMAC = testMAC\<rparr>"

lemma acquire_fake_lease:
  assumes mac: "length (clientMAC c) = 6" and time: "Second \<le> clientTimeout c"
  shows "\<exists>s'. Acquire (Some (fakeDHCP (clientMAC c))) c (t, []) = Some (Inr (testLease\<lparr>leaseMAC := clientMAC c\<rparr>), s')"
proof -
  have o8: "leadingOnes 8 0 = (0, 0)" using leadingOnes.simps(2) [of 7 0] by simp
  have l: "mergeLease (clientMAC c) (testPacket 2) (testPacket 5) =
      (Inr (testLease\<lparr>leaseMAC := clientMAC c\<rparr>) :: nat acquire_error + lease)"
    by (simp add: mergeLease_eq mergedMask_def mergedAddress_def mergedLease_def testPacket_def testLease_def
        maskSize_def o8)
  show ?thesis
    using l time by (simp add: Acquire_def acquireAttempt_def boundedDeadline_def Let_def Second_def
        fakeAnswer_frame [OF mac] waitFor_fake [OF mac] mac testPacket_def)
qed

lemma acquire_fake: "\<exists>s'. Acquire (Some (fakeDHCP testMAC)) testClient (0, []) = Some (Inr testLease, s')"
  using acquire_fake_lease [of testClient 0] by (simp add: testClient_def testMAC_def testLease_def)

section \<open>Properties\<close>

text \<open>C15: a lease comes from two frames the device delivered for this client and transaction, an offer
  and an acknowledgement; it is their merge, carries the client's MAC, an IPv4 address and a prefix
  length of 0 to 32.\<close>

theorem dhcp_acquire_sound:
  fixes D :: "('s, 'e) frameDevice"
  assumes "Acquire (Some D) c s = Some (Inr l, s')"
  shows "(\<exists>xid offer ack. heard D (clientMAC c) xid offer \<and> messageType offer = 2 \<and>
      heard D (clientMAC c) xid ack \<and> messageType ack = 5 \<and>
      mergeLease (clientMAC c) offer ack = (Inr l :: 'e acquire_error + lease)) \<and>
    length (clientMAC c) = 6 \<and> leaseMAC l = clientMAC c \<and> Is4 (leaseAddress l) \<and>
    0 \<le> PrefixLen l \<and> PrefixLen l \<le> 32 \<and> IsValid (leaseServer l)"
proof -
  have len: "length (clientMAC c) = 6" using assms by (auto simp: Acquire_def split: if_splits)
  then obtain xid deadline s1 where "acquireFrom D c xid deadline [0, 1, 2, 3] None s1 = Some (Inr l, s')"
    using assms by (auto simp: Acquire_def Let_def split: prod.splits)
  from acquireFrom_lease [OF this] obtain offer ack where
    h: "heard D (clientMAC c) xid offer" "messageType offer = 2" "heard D (clientMAC c) xid ack" "messageType ack = 5"
    and m: "mergeLease (clientMAC c) offer ack = (Inr l :: 'e acquire_error + lease)" by blast
  from h have p: "length (mask4 offer) = 4" "length (mask4 ack) = 4" "IsValid (serverAddr ack)"
    using parse_fields unfolding heard_def by blast+
  have k: "length (mergedMask offer ack) = 4" using p by (simp add: mergedMask_def)
  obtain x y where z: "maskSize (mergedMask offer ack) = (x, y)" by fastforce
  have l: "Is4 (mergedAddress offer ack)" "y = 32" "0 \<le> x" "l = mergedLease (clientMAC c) offer ack x"
    using m z by (auto simp: mergeLease_eq split: if_splits)
  then have "maskOf (mergedMask offer ack) (nat x)" using maskSize_32(1) [OF k, of x] z by simp
  then have "x \<le> 32" using k by (simp add: maskOf_def nat_le_iff)
  moreover have "leaseMAC l = clientMAC c" "leaseAddress l = mergedAddress offer ack" "PrefixLen l = x"
    "leaseServer l = serverAddr ack"
    using l(4) p(3) by (simp_all add: mergedLease_def)
  ultimately show ?thesis using l(1,3) h m p(3) len by auto
qed

theorem dhcp_acquire_sound_witness:
  "\<exists>s'. Acquire (Some (fakeDHCP testMAC)) testClient (0, []) = Some (Inr testLease, s') \<and>
    (\<exists>xid offer ack. heard (fakeDHCP testMAC) testMAC xid offer \<and> messageType offer = 2 \<and>
      heard (fakeDHCP testMAC) testMAC xid ack \<and> messageType ack = 5) \<and> CIDR testLease = ''10.20.30.40/24''"
proof -
  obtain s' where s': "Acquire (Some (fakeDHCP testMAC)) testClient (0, []) = Some (Inr testLease, s')"
    using acquire_fake by blast
  have "CIDR testLease = ''10.20.30.40/24''" by (simp add: CIDR_def testLease_def decimal.simps)
  with dhcp_acquire_sound [OF s'] s' show ?thesis by (auto simp: testClient_def)
qed

text \<open>C16: if time passes while the client polls, \<^verbatim>\<open>Acquire\<close> returns, with a lease or an error.\<close>

theorem dhcp_acquire_returns:
  assumes "ticks D"
  shows "\<exists>r s'. Acquire (Some D) c s = Some (r, s')"
proof (cases "length (clientMAC c) = 6")
  case True
  have "\<exists>r s'. acquireFrom D c xid deadline attempts None s1 = Some (r, s')" for xid deadline attempts s1
    using acquireFrom_ends [OF assms] by (metis surj_pair)
  with True show ?thesis by (simp add: Acquire_def Let_def split_beta del: acquireFrom.simps)
qed (simp add: Acquire_def)

theorem dhcp_acquire_returns_witness:
  "\<exists>r s'. Acquire (Some (fakeDHCP testMAC)) (testClient\<lparr>clientTimeout := 1\<rparr>) (0, []) = Some (r, s')"
  by (rule dhcp_acquire_returns [OF ticks_fake])

text \<open>C20: the merge takes each field from the acknowledgement when it is there and from the offer
  otherwise; it fails exactly when there is no IPv4 address or the mask's ones are not leading.\<close>

theorem dhcp_merge:
  assumes "length (mask4 offer) = 4" "length (mask4 ack) = 4"
  shows "mergeLease mac offer ack = Inr l \<longleftrightarrow> Is4 (mergedAddress offer ack) \<and>
    (\<exists>n. maskOf (mergedMask offer ack) n \<and> l = mergedLease mac offer ack (int n))"
proof -
  have m: "length (mergedMask offer ack) = 4" using assms by (simp add: mergedMask_def)
  obtain x y where s: "maskSize (mergedMask offer ack) = (x, y)" by fastforce
  show ?thesis
  proof (cases "y = 32")
    case True
    then have x: "0 \<le> x" "maskOf (mergedMask offer ack) (nat x)" using maskSize_32(1) [OF m, of x] s by auto
    then have "(\<exists>n. maskOf (mergedMask offer ack) n \<and> l = mergedLease mac offer ack (int n)) \<longleftrightarrow>
        l = mergedLease mac offer ack x"
      using maskOf_unique [OF x(2)] by (metis int_nat_eq)
    then show ?thesis using s True x(1) by (auto simp: mergeLease_eq)
  next
    case False
    have "\<not> maskOf (mergedMask offer ack) n" for n
      using maskSize_32(1) [OF m, of "int n"] s False by auto
    then show ?thesis using s False by (auto simp: mergeLease_eq)
  qed
qed

text \<open>A server that never sends a subnet mask is not refused: the zero mask counts as the canonical
  mask of length 0, and the lease spans the whole address space.\<close>

theorem dhcp_missing_mask:
  assumes "mask4 offer = [0, 0, 0, 0]" "mask4 ack = [0, 0, 0, 0]" "Is4 (mergedAddress offer ack)"
  shows "mergeLease mac offer ack = Inr (mergedLease mac offer ack 0)"
proof -
  have "leadingOnes 8 0 = (0, 0)" using leadingOnes.simps(2) [of 7 0] by simp
  then show ?thesis using assms by (simp add: mergeLease_eq mergedMask_def maskSize_def)
qed

theorem dhcp_missing_mask_witness:
  "\<exists>l. mergeLease testMAC (testPacket 2\<lparr>mask4 := [0, 0, 0, 0]\<rparr>) (testPacket 5\<lparr>mask4 := [0, 0, 0, 0]\<rparr>) = (Inr l :: nat acquire_error + lease) \<and>
    CIDR l = ''10.20.30.40/0''"
proof -
  define offer where "offer = testPacket 2\<lparr>mask4 := [0, 0, 0, 0]\<rparr>"
  define ack where "ack = testPacket 5\<lparr>mask4 := [0, 0, 0, 0]\<rparr>"
  have "mergeLease testMAC offer ack = (Inr (mergedLease testMAC offer ack 0) :: nat acquire_error + lease)"
    by (rule dhcp_missing_mask) (simp_all add: offer_def ack_def mergedAddress_def testPacket_def)
  moreover have "CIDR (mergedLease testMAC offer ack 0) = ''10.20.30.40/0''"
    by (simp add: mergedAddress_def mergedLease_def testPacket_def CIDR_def decimal.simps offer_def ack_def)
  ultimately show ?thesis by (auto simp: offer_def ack_def)
qed

theorem dhcp_merge_witness:
  "(mergeLease testMAC (testPacket 2) (testPacket 5) = (Inr testLease :: nat acquire_error + lease)) =
    (Is4 (AddrFrom4 10 20 30 40) \<and> (\<exists>n. maskOf [255, 255, 255, 0] n \<and>
      testLease = mergedLease testMAC (testPacket 2) (testPacket 5) (int n)))"
  using dhcp_merge [of "testPacket 2" "testPacket 5" testMAC testLease]
  by (simp add: testPacket_def mergedAddress_def mergedMask_def)

end
