(* ===== verification/Mmio_Scan.thy ===== *)
theory Mmio_Scan
  imports Vsock_Device
begin

text \<open>
  The two MMIO scans: \<^verbatim>\<open>findVsockDevice\<close> (\<^verbatim>\<open>kernel/main.go\<close>) and \<^verbatim>\<open>FindVirtioNet\<close>
  (\<^verbatim>\<open>kernel/sprnet/virtio_tamago.go\<close>). The transport at each base address is a parameter, as is
  go-net's network driver (its device id, feature bit, \<^verbatim>\<open>Init\<close> and \<^verbatim>\<open>Start\<close>).
\<close>

definition virtioMMIOStart :: u32 where "virtioMMIOStart = 0x0a002000"
definition virtioMMIOEnd :: u32 where "virtioMMIOEnd = 0x0a020000"
definition virtioMMIOStep :: u32 where "virtioMMIOStep = 0x1000"

section \<open>The loop\<close>

text \<open>
  \<^verbatim>\<open>for base := start; base < end; base += step\<close> on 32-bit words, whose body either returns
  (\<open>Some\<close>) or continues. The addition wraps, so the loop need not end; \<open>None\<close> is divergence.
\<close>

partial_function (option) scanFrom :: "(u32 \<Rightarrow> 'q \<Rightarrow> 'r option \<times> 'q) \<Rightarrow> u32 \<Rightarrow> u32 \<Rightarrow> u32 \<Rightarrow> 'q \<Rightarrow>
    ('r option \<times> 'q) option" where
  "scanFrom body base limit step q =
     (if base < limit then
        (case body base q of
           (Some r, q) \<Rightarrow> Some (Some r, q)
         | (None, q) \<Rightarrow> scanFrom body (base + step) limit step q)
      else Some (None, q))"

section \<open>The vsock device\<close>

datatype 'e find_error = VsockInit u32 "'e device_error" | VsockNotFound

definition vsockBody :: "(u32 \<Rightarrow> ('q, 'v, 'e) virtio) \<Rightarrow> u32 \<Rightarrow> 'q \<Rightarrow>
    ('e find_error + 'v device \<times> u32) option \<times> 'q" where
  "vsockBody bus base q =
     (if tDeviceID (bus base) q \<noteq> DeviceID then (None, q)
      else (case deviceInit (bus base) newDevice q of
          (Some err, d, q) \<Rightarrow> (Some (Inl (VsockInit base err)), q)
        | (None, d, q) \<Rightarrow> (Some (Inr (d, base)), q)))"

definition findVsockDevice :: "(u32 \<Rightarrow> ('q, 'v, 'e) virtio) \<Rightarrow> 'q \<Rightarrow>
    (('e find_error + 'v device \<times> u32) \<times> 'q) option" where
  "findVsockDevice bus q =
     (case scanFrom (vsockBody bus) virtioMMIOStart virtioMMIOEnd virtioMMIOStep q of
        None \<Rightarrow> None
      | Some (None, q) \<Rightarrow> Some (Inl VsockNotFound, q)
      | Some (Some r, q) \<Rightarrow> Some (r, q))"

section \<open>The network device\<close>

text \<open>\<^verbatim>\<open>net.ParseMAC\<close>: pairs of hex digits separated by colons or hyphens, or groups of four by dots.\<close>

definition hexValue :: "char \<Rightarrow> nat option" where
  "hexValue c = (let n = of_char c in
     if 48 \<le> n \<and> n \<le> 57 then Some (n - 48)
     else if 97 \<le> n \<and> n \<le> 102 then Some (n - 87)
     else if 65 \<le> n \<and> n \<le> 70 then Some (n - 55) else None)"

definition hexPair :: "char \<Rightarrow> char \<Rightarrow> u8 option" where
  "hexPair a b = (case (hexValue a, hexValue b) of
     (Some x, Some y) \<Rightarrow> Some (word_of_nat (16 * x + y)) | _ \<Rightarrow> None)"

fun macPairs :: "char \<Rightarrow> string \<Rightarrow> bytes option" where
  "macPairs sep [a, b] = map_option (\<lambda>x. [x]) (hexPair a b)"
| "macPairs sep (a # b # s # rest) =
     (if s \<noteq> sep then None else
      (case (hexPair a b, macPairs sep rest) of (Some x, Some xs) \<Rightarrow> Some (x # xs) | _ \<Rightarrow> None))"
| "macPairs sep _ = None"

fun macGroups :: "string \<Rightarrow> bytes option" where
  "macGroups [a, b, c, d] = (case (hexPair a b, hexPair c d) of (Some x, Some y) \<Rightarrow> Some [x, y] | _ \<Rightarrow> None)"
| "macGroups (a # b # c # d # s # rest) =
     (if s \<noteq> CHR ''.'' then None else
      (case (hexPair a b, hexPair c d, macGroups rest) of
         (Some x, Some y, Some xs) \<Rightarrow> Some (x # y # xs) | _ \<Rightarrow> None))"
| "macGroups _ = None"

definition ParseMAC :: "string \<Rightarrow> bytes option" where
  "ParseMAC s =
     (let parsed = (if length s < 14 then None
        else if s ! 2 = CHR '':'' \<or> s ! 2 = CHR ''-'' then macPairs (s ! 2) s
        else if s ! 4 = CHR ''.'' then macGroups s else None)
      in case parsed of
           Some mac \<Rightarrow> if length mac \<in> {6, 8, 20} then Some mac else None
         | None \<Rightarrow> None)"

definition invalidMAC :: "bytes \<Rightarrow> bool" where
  "invalidMAC mac \<longleftrightarrow> (if length mac \<noteq> 6 \<or> mac ! 0 AND 1 \<noteq> 0 then True else list_all (\<lambda>b. b = 0) mac)"

text \<open>go-net's driver over the transport at a base address.\<close>

record ('q, 'e) netDriver =
  netDeviceID :: u32
  FeatureMAC :: u64
  netInit :: "u32 \<Rightarrow> 'q \<Rightarrow> 'e option \<times> 'q"
  netStart :: "u32 \<Rightarrow> 'q \<Rightarrow> 'q"

datatype 'e net_error = ParseFallbackMAC | NetInit u32 'e | NoMACConfiguration u32 | NetNotFound

definition netBody :: "(u32 \<Rightarrow> ('q, 'v, 'e) virtio) \<Rightarrow> ('q, 'e) netDriver \<Rightarrow> bytes \<Rightarrow> u32 \<Rightarrow> 'q \<Rightarrow>
    ('e net_error + u32 \<times> bytes) option \<times> 'q" where
  "netBody bus N fallback base q =
     (let T = bus base in
      if tDeviceID T q \<noteq> netDeviceID N then (None, q)
      else (case netInit N base q of
          (Some err, q) \<Rightarrow> (Some (Inl (NetInit base err)), q)
        | (None, q) \<Rightarrow>
            let config = tConfig T 6 q;
                offered = (tNegotiatedFeatures T q AND FeatureMAC N \<noteq> 0)
            in if offered \<and> length config \<noteq> 6 then (Some (Inl (NoMACConfiguration base)), q)
               else
                 let mac = (if offered then config else fallback);
                     mac = (if invalidMAC mac then fallback else mac)
                 in (Some (Inr (base, mac)), netStart N base q)))"

definition FindVirtioNet :: "(u32 \<Rightarrow> ('q, 'v, 'e) virtio) \<Rightarrow> ('q, 'e) netDriver \<Rightarrow> u32 \<Rightarrow> u32 \<Rightarrow> u32 \<Rightarrow> string \<Rightarrow> 'q \<Rightarrow>
    (('e net_error + u32 \<times> bytes) \<times> 'q) option" where
  "FindVirtioNet bus N start limit step fallbackMAC q =
     (case ParseMAC fallbackMAC of
        None \<Rightarrow> Some (Inl ParseFallbackMAC, q)
      | Some fallback \<Rightarrow>
          (case scanFrom (netBody bus N fallback) start limit step q of
             None \<Rightarrow> None
           | Some (None, q) \<Rightarrow> Some (Inl NetNotFound, q)
           | Some (Some r, q) \<Rightarrow> Some (r, q)))"

section \<open>The loop visits the slots in order\<close>

fun scanList :: "(u32 \<Rightarrow> 'q \<Rightarrow> 'r option \<times> 'q) \<Rightarrow> u32 list \<Rightarrow> 'q \<Rightarrow> 'r option \<times> 'q" where
  "scanList body [] q = (None, q)"
| "scanList body (b # bs) q = (case body b q of (Some r, q) \<Rightarrow> (Some r, q) | (None, q) \<Rightarrow> scanList body bs q)"

fun slotsFrom :: "nat \<Rightarrow> u32 \<Rightarrow> u32 \<Rightarrow> u32 list" where
  "slotsFrom 0 base step = []"
| "slotsFrom (Suc n) base step = base # slotsFrom n (base + step) step"

lemma scanFrom_slots:
  "\<forall>b \<in> set (slotsFrom n base step). b < limit \<Longrightarrow> \<not> base + word_of_nat n * step < limit \<Longrightarrow>
    scanFrom body base limit step q = Some (scanList body (slotsFrom n base step) q)"
proof (induction n arbitrary: base q)
  case 0
  then show ?case by (simp add: scanFrom.simps)
next
  case (Suc n)
  have "base + step + word_of_nat n * step = base + word_of_nat (Suc n) * step"
    by (simp add: algebra_simps)
  with Suc.prems(2) have "\<not> base + step + word_of_nat n * step < limit" by metis
  with Suc.prems(1) have "scanFrom body (base + step) limit step q = Some (scanList body (slotsFrom n (base + step) step) q)" for q
    by (intro Suc.IH) auto
  then show ?case using Suc.prems
    by (subst scanFrom.simps) (auto split: prod.split option.split)
qed

text \<open>The 30 slots between the kernel's bounds.\<close>

definition mmioSlots :: "u32 list" where
  "mmioSlots = slotsFrom 30 virtioMMIOStart virtioMMIOStep"

lemma scan_mmio: "scanFrom body virtioMMIOStart virtioMMIOEnd virtioMMIOStep q = Some (scanList body mmioSlots q)"
proof -
  have "list_all (\<lambda>b. b < virtioMMIOEnd) (slotsFrom 30 virtioMMIOStart virtioMMIOStep)"
    by code_simp
  moreover have "\<not> virtioMMIOStart + word_of_nat 30 * virtioMMIOStep < virtioMMIOEnd"
    by (simp add: virtioMMIOStart_def virtioMMIOEnd_def virtioMMIOStep_def)
  ultimately show ?thesis unfolding mmioSlots_def by (intro scanFrom_slots) (auto simp: list_all_iff)
qed

text \<open>
  What the loop needs of a body: it leaves the state alone where it continues, and it returns at every
  slot it selects. Then the scan of the kernel's range returns what the body does at the first selected slot.
\<close>

locale slot_body =
  fixes body :: "u32 \<Rightarrow> 'q \<Rightarrow> 'r option \<times> 'q"
    and sel :: "u32 \<Rightarrow> 'q \<Rightarrow> bool"
  assumes skip: "\<not> sel b q \<Longrightarrow> body b q = (None, q)"
    and stops: "sel b q \<Longrightarrow> fst (body b q) \<noteq> None"
begin

lemma scanList_find:
  "scanList body bs q = (case List.find (\<lambda>b. sel b q) bs of None \<Rightarrow> (None, q) | Some b \<Rightarrow> body b q)"
proof (induction bs)
  case (Cons b bs)
  then show ?case using skip [of b q] stops [of b q]
    by (cases "sel b q") (auto split: prod.split option.split)
qed simp

lemma scan:
  "scanFrom body virtioMMIOStart virtioMMIOEnd virtioMMIOStep q =
    Some (case List.find (\<lambda>b. sel b q) mmioSlots of None \<Rightarrow> (None, q) | Some b \<Rightarrow> body b q)"
  by (simp add: scan_mmio scanList_find)

lemma first_sel: "List.find (\<lambda>b. sel b q) mmioSlots = Some b \<Longrightarrow> sel b q \<and> b \<in> set mmioSlots"
  by (auto simp: find_Some_iff)

end

interpretation vsock_slots: slot_body "vsockBody bus" "\<lambda>b q. tDeviceID (bus b) q = DeviceID" for bus
  by unfold_locales (auto simp: vsockBody_def split: prod.split option.split)

interpretation net_slots: slot_body "netBody bus N fallback" "\<lambda>b q. tDeviceID (bus b) q = netDeviceID N" for bus N fallback
  by unfold_locales (auto simp: netBody_def Let_def split: prod.split option.split)

lemma findVsockDevice_first:
  "findVsockDevice bus q = Some
     (case List.find (\<lambda>b. tDeviceID (bus b) q = DeviceID) mmioSlots of
        None \<Rightarrow> (Inl VsockNotFound, q)
      | Some b \<Rightarrow> (case deviceInit (bus b) newDevice q of
          (Some err, d, q') \<Rightarrow> (Inl (VsockInit b err), q')
        | (None, d, q') \<Rightarrow> (Inr (d, b), q')))"
  using vsock_slots.first_sel [of bus q]
  by (auto simp: findVsockDevice_def vsock_slots.scan vsockBody_def split: option.split prod.split)

lemma invalidMAC_iff: "\<not> invalidMAC mac \<longleftrightarrow> length mac = 6 \<and> mac ! 0 AND 1 = 0 \<and> (\<exists>b \<in> set mac. b \<noteq> 0)"
  by (auto simp: invalidMAC_def list_all_iff)

section \<open>Properties\<close>

text \<open>C33: \<^verbatim>\<open>findVsockDevice\<close> always returns: it initialises the transport at the first of the 30 slots that
  reports the vsock device id, returning its device or its error, and reports not found when none
  does.\<close>

theorem vsock_scan:
  "findVsockDevice bus q = Some
     (case List.find (\<lambda>b. tDeviceID (bus b) q = DeviceID) mmioSlots of
        None \<Rightarrow> (Inl VsockNotFound, q)
      | Some b \<Rightarrow> (case deviceInit (bus b) newDevice q of
          (Some err, d, q') \<Rightarrow> (Inl (VsockInit b err), q')
        | (None, d, q') \<Rightarrow> (Inr (d, b), q')))"
  by (rule findVsockDevice_first)

text \<open>C34: the network scan over the kernel's range always returns. It picks the first of the 30
  slots with the driver's device id, reports not found when there is none, and returns the driver's
  error when its initialisation fails. Otherwise, read after the initialisation: a device that
  negotiated the MAC feature without a 6-byte address is an error; the MAC returned is the device's own
  exactly if the feature is negotiated and that address is usable, and the fallback in every other
  case; and the driver is started exactly when the device is returned. The address returned is a
  non-zero unicast address of 6 bytes, given that the fallback is one.\<close>

theorem net_scan:
  assumes "ParseMAC fallbackMAC = Some fallback" "\<not> invalidMAC fallback"
  shows "FindVirtioNet bus N virtioMMIOStart virtioMMIOEnd virtioMMIOStep fallbackMAC q = Some
     (case List.find (\<lambda>b. tDeviceID (bus b) q = netDeviceID N) mmioSlots of
        None \<Rightarrow> (Inl NetNotFound, q)
      | Some b \<Rightarrow> (case netInit N b q of
          (Some err, q1) \<Rightarrow> (Inl (NetInit b err), q1)
        | (None, q1) \<Rightarrow>
            let config = tConfig (bus b) 6 q1; offered = (tNegotiatedFeatures (bus b) q1 AND FeatureMAC N \<noteq> 0)
            in if offered \<and> length config \<noteq> 6 then (Inl (NoMACConfiguration b), q1)
               else (Inr (b, if offered \<and> \<not> invalidMAC config then config else fallback), netStart N b q1))) \<and>
   (\<forall>b mac. fst (the (FindVirtioNet bus N virtioMMIOStart virtioMMIOEnd virtioMMIOStep fallbackMAC q)) = Inr (b, mac) \<longrightarrow>
      length mac = 6 \<and> mac ! 0 AND 1 = 0 \<and> (\<exists>x \<in> set mac. x \<noteq> 0))" (is "?F = Some ?R \<and> ?U")
proof -
  have run: "?F = Some ?R" using net_slots.first_sel [where q = q]
    by (auto simp: FindVirtioNet_def assms(1) net_slots.scan netBody_def Let_def split: option.split prod.split)
  have "?U" unfolding run using assms(2)
    by (auto simp: Let_def invalidMAC_iff split: option.splits prod.splits if_splits)
  with run show ?thesis by simp
qed

text \<open>The kernel's own fallback address, and a bus with a network device in the second slot.\<close>

definition testBus :: "u32 \<Rightarrow> (unit, nat, nat) virtio" where
  "testBus base = \<lparr>tInit = (\<lambda>_ q. (None, q)), tDeviceID = (\<lambda>_. if base = 0x0a003000 then 1 else 0),
     tNegotiatedFeatures = (\<lambda>_. 32), tQueueReady = (\<lambda>_ _. False), tConfig = (\<lambda>_ _. [0, 0, 0, 0, 0, 0]),
     tMaxQueueSize = (\<lambda>_ _. 256), tNewQueue = (\<lambda>_ _ _. 0), tSetQueueSize = (\<lambda>_ _ q. q), tSetQueue = (\<lambda>_ _ q. q),
     tSetReady = (\<lambda>q. q), tQueueNotify = (\<lambda>_ q. q), qPop = (\<lambda>_ q. (Inr [], q)), qPushTx = (\<lambda>_ q. q),
     qUsedTx = (\<lambda>_. 0), goMapOrder = (\<lambda>q. ([], q)), goSleep = (\<lambda>q. q)\<rparr>"

definition testDriver :: "(unit, nat) netDriver" where
  "testDriver = \<lparr>netDeviceID = 1, FeatureMAC = 32, netInit = (\<lambda>_ q. (None, q)), netStart = (\<lambda>_ q. q)\<rparr>"

definition pluginMAC :: string where "pluginMAC = ''02:53:50:52:47:01''"

lemma pluginMAC_parse: "ParseMAC pluginMAC = Some [2, 0x53, 0x50, 0x52, 0x47, 1]"
  by (simp add: ParseMAC_def pluginMAC_def hexPair_def hexValue_def)

theorem net_scan_witness:
  "FindVirtioNet testBus testDriver virtioMMIOStart virtioMMIOEnd virtioMMIOStep pluginMAC () =
     Some (Inr (0x0a003000, [2, 0x53, 0x50, 0x52, 0x47, 1]), ())"
proof -
  have "\<not> invalidMAC [2, 0x53, 0x50, 0x52, 0x47, 1]" by (simp add: invalidMAC_def)
  note run = net_scan [OF pluginMAC_parse this, of testBus testDriver "()"]
  have "List.find (\<lambda>b. b = 0x0a003000) mmioSlots = Some 0x0a003000" by code_simp
  then have "List.find (\<lambda>b. tDeviceID (testBus b) () = netDeviceID testDriver) mmioSlots = Some 0x0a003000"
    by (auto simp: testBus_def testDriver_def find_Some_iff)
  with run show ?thesis by (simp add: testBus_def testDriver_def invalidMAC_def)
qed

end
