(* ===== verification/Hello_Elf.thy ===== *)
theory Hello_Elf
  imports Prelude
begin

text \<open>
  The embedded executable of \<^verbatim>\<open>kernel/gvisor_sentry.go\<close>: \<^verbatim>\<open>linuxHelloELF\<close> with its instruction
  encoders, and, to say what it does, a loader for such files and the A64 instructions and Linux
  system calls it uses. \<^verbatim>\<open>hostarch.PageSize\<close> is gVisor's and is a parameter.
\<close>

section \<open>The encoders\<close>

definition movz :: "u32 \<Rightarrow> u16 \<Rightarrow> u32" where
  "movz reg imm = 0xd2800000 OR push_bit 5 (ucast imm) OR reg"

definition adr :: "u32 \<Rightarrow> u64 \<Rightarrow> u32" where
  "adr reg delta =
     (let imm = ucast delta AND 0x1fffff in
      0x10000000 OR push_bit 29 (imm AND 3) OR push_bit 5 (drop_bit 2 imm AND 0x7ffff) OR reg)"

definition loadAddr :: u64 where "loadAddr = 0x400000"
definition entryOff :: u64 where "entryOff = 0x80"

definition codeWords :: "bytes \<Rightarrow> u32 list" where
  "codeWords message =
     (let words = [movz 0 1, 0, movz 2 (word_of_nat (length message)), movz 8 64, 0xd4000001,
                   movz 0 0, movz 8 93, 0xd4000001];
          messageOff = entryOff + word_of_nat (4 * length words)
      in words[1 := adr 1 (messageOff - (entryOff + 4))])"

text \<open>\<^verbatim>\<open>binary.LittleEndian.PutUint16/32/64(elf[off:], w)\<close>.\<close>

definition put16 :: "nat \<Rightarrow> u16 \<Rightarrow> bytes \<Rightarrow> bytes" where "put16 off w elf = copy_at elf off (le_bytes 2 w)"
definition put32 :: "nat \<Rightarrow> u32 \<Rightarrow> bytes \<Rightarrow> bytes" where "put32 off w elf = copy_at elf off (le_bytes 4 w)"
definition put64 :: "nat \<Rightarrow> u64 \<Rightarrow> bytes \<Rightarrow> bytes" where "put64 off w elf = copy_at elf off (le_bytes 8 w)"

fun putWords :: "nat \<Rightarrow> u32 list \<Rightarrow> bytes \<Rightarrow> bytes" where
  "putWords off [] elf = elf"
| "putWords off (w # ws) elf = putWords (off + 4) ws (put32 off w elf)"

definition elfHeader :: "u64 \<Rightarrow> bytes \<Rightarrow> bytes" where
  "elfHeader fileSize elf =
     (let elf = copy_at elf 0 [0x7f, 0x45, 0x4c, 0x46, 2, 1, 1];
          elf = put16 16 2 elf;
          elf = put16 18 183 elf;
          elf = put32 20 1 elf;
          elf = put64 24 (loadAddr + entryOff) elf;
          elf = put64 32 64 elf;
          elf = put16 52 64 elf;
          elf = put16 54 56 elf
      in put16 56 1 elf)"

definition programHeader :: "u64 \<Rightarrow> u64 \<Rightarrow> bytes \<Rightarrow> bytes" where
  "programHeader pageSize fileSize elf =
     (let elf = put32 64 1 elf;
          elf = put32 68 (4 OR 1) elf;
          elf = put64 72 0 elf;
          elf = put64 80 loadAddr elf;
          elf = put64 88 loadAddr elf;
          elf = put64 96 fileSize elf;
          elf = put64 104 fileSize elf
      in put64 112 pageSize elf)"

definition linuxHelloELF :: "u64 \<Rightarrow> bytes \<Rightarrow> bytes" where
  "linuxHelloELF pageSize message =
     (let words = codeWords message;
          messageOff = entryOff + word_of_nat (4 * length words);
          fileSize = messageOff + word_of_nat (length message);
          elf = replicate (unat fileSize) 0;
          elf = elfHeader fileSize elf;
          elf = programHeader pageSize fileSize elf;
          elf = putWords (unat entryOff) words elf
      in copy_at elf (unat messageOff) message)"

section \<open>What such a file does\<close>

text \<open>
  The loader: a little-endian 64-bit AArch64 executable with one readable and executable segment;
  the image is the file's bytes at the segment's address.
\<close>

record image =
  imgBase :: u64
  imgBytes :: bytes
  imgEntry :: u64

definition loadELF :: "bytes \<Rightarrow> image option" where
  "loadELF elf =
     (let filesz = unat (le_word (slice elf 96 104) :: u64); off = unat (le_word (slice elf 72 80) :: u64) in
      if 120 \<le> length elf \<and> slice elf 0 7 = [0x7f, 0x45, 0x4c, 0x46, 2, 1, 1] \<and>
         (le_word (slice elf 16 18) :: u16) = 2 \<and> (le_word (slice elf 18 20) :: u16) = 183 \<and>
         (le_word (slice elf 20 24) :: u32) = 1 \<and> (le_word (slice elf 32 40) :: u64) = 64 \<and>
         (le_word (slice elf 52 54) :: u16) = 64 \<and> (le_word (slice elf 54 56) :: u16) = 56 \<and>
         (le_word (slice elf 56 58) :: u16) = 1 \<and> (le_word (slice elf 64 68) :: u32) = 1 \<and>
         (le_word (slice elf 68 72) :: u32) = 5 \<and> off + filesz \<le> length elf \<and>
         (le_word (slice elf 104 112) :: u64) = le_word (slice elf 96 104)
      then Some \<lparr>imgBase = le_word (slice elf 80 88), imgBytes = slice elf off (off + filesz),
                 imgEntry = le_word (slice elf 24 32)\<rparr>
      else None)"

datatype instr = Movz u32 u16 | Adr u32 u64 | Svc | Undefined

definition decodeA64 :: "u32 \<Rightarrow> instr" where
  "decodeA64 w =
     (if w AND 0xffe00000 = 0xd2800000 then Movz (w AND 31) (ucast (drop_bit 5 w))
      else if w AND 0x9f000000 = 0x10000000 then
        Adr (w AND 31) (signed_take_bit 20
          (push_bit 2 (ucast (drop_bit 5 w AND 0x7ffff)) OR ucast (drop_bit 29 w AND 3)))
      else if w = 0xd4000001 then Svc else Undefined)"

record cpu =
  xregs :: "u32 \<Rightarrow> u64"
  pc :: u64
  written :: "(u64 \<times> bytes) list"

datatype outcome = Running cpu | Exited u64 "(u64 \<times> bytes) list" | Fault

text \<open>Bytes of memory: readable only inside the image.\<close>

definition readMem :: "image \<Rightarrow> u64 \<Rightarrow> nat \<Rightarrow> bytes option" where
  "readMem img a n = (let i = unat (a - imgBase img) in
     if imgBase img \<le> a \<and> i + n \<le> length (imgBytes img) then Some (slice (imgBytes img) i (i + n)) else None)"

text \<open>\<^verbatim>\<open>write(fd, buf, count)\<close> and \<^verbatim>\<open>exit(status)\<close>; any other call faults.\<close>

definition syscall :: "image \<Rightarrow> cpu \<Rightarrow> outcome" where
  "syscall img c =
     (if xregs c 8 = 64 then
        (case readMem img (xregs c 1) (unat (xregs c 2)) of
           None \<Rightarrow> Fault
         | Some bs \<Rightarrow> Running (c\<lparr>written := written c @ [(xregs c 0, bs)], xregs := (xregs c)(0 := xregs c 2), pc := pc c + 4\<rparr>))
      else if xregs c 8 = 93 then Exited (xregs c 0) (written c) else Fault)"

definition stepA64 :: "image \<Rightarrow> cpu \<Rightarrow> outcome" where
  "stepA64 img c =
     (case readMem img (pc c) 4 of
        None \<Rightarrow> Fault
      | Some bs \<Rightarrow> (case decodeA64 (le_word bs) of
            Movz r imm \<Rightarrow> Running (c\<lparr>xregs := (xregs c)(r := ucast imm), pc := pc c + 4\<rparr>)
          | Adr r d \<Rightarrow> Running (c\<lparr>xregs := (xregs c)(r := pc c + d), pc := pc c + 4\<rparr>)
          | Svc \<Rightarrow> syscall img c
          | Undefined \<Rightarrow> Fault))"

fun runA64 :: "nat \<Rightarrow> image \<Rightarrow> cpu \<Rightarrow> outcome" where
  "runA64 0 img c = Running c"
| "runA64 (Suc n) img c = (case stepA64 img c of Running c \<Rightarrow> runA64 n img c | r \<Rightarrow> r)"

definition runELF :: "nat \<Rightarrow> bytes \<Rightarrow> outcome" where
  "runELF fuel elf = (case loadELF elf of
     None \<Rightarrow> Fault
   | Some img \<Rightarrow> runA64 fuel img \<lparr>xregs = (\<lambda>_. 0), pc = imgEntry img, written = []\<rparr>)"

section \<open>Encodings decode back\<close>

lemma high_bits: "reg < 32 \<Longrightarrow> 5 \<le> i \<Longrightarrow> \<not> bit (reg :: u32) i"
proof -
  assume r: "reg < 32" and i: "5 \<le> i"
  have "unat reg < 2 ^ 5" using r by (simp add: word_less_nat_alt)
  then have "unat reg < 2 ^ i" using i by (meson le_less_trans less_le_trans one_le_numeral power_increasing)
  then have "\<not> bit (unat reg) i" by (simp add: bit_iff_odd)
  then show ?thesis by (simp add: bit_unsigned_iff)
qed

lemma decode_movz:
  assumes "reg < 32"
  shows "decodeA64 (movz reg imm) = Movz reg imm"
proof -
  note h = high_bits [OF assms]
  have a: "movz reg imm AND 0xffe00000 = 0xd2800000"
    by (rule word32_eqI) (simp add: bits32 movz_def bit_simps h bit16)
  have b: "movz reg imm AND 31 = reg"
    by (rule word32_eqI) (simp add: bits32 movz_def bit_simps h bit16)
  have c: "ucast (drop_bit 5 (movz reg imm)) = imm"
    by (rule word16_eqI) (simp add: bits16 movz_def bit_simps h)
  show ?thesis by (simp add: decodeA64_def a b c)
qed

lemma decode_adr:
  assumes "reg < 32"
  shows "decodeA64 (adr reg delta) = Adr reg (signed_take_bit 20 delta)"
proof -
  note h = high_bits [OF assms]
  have n: "adr reg delta AND 0xffe00000 \<noteq> 0xd2800000"
  proof
    assume "adr reg delta AND 0xffe00000 = 0xd2800000"
    then have "bit (adr reg delta AND 0xffe00000) 31 = bit (0xd2800000 :: u32) 31"
      "bit (adr reg delta AND 0xffe00000) 28 = bit (0xd2800000 :: u32) 28"
      "bit (adr reg delta AND 0xffe00000) 27 = bit (0xd2800000 :: u32) 27"
      "bit (adr reg delta AND 0xffe00000) 25 = bit (0xd2800000 :: u32) 25" by simp_all
    then show False by (simp add: adr_def Let_def bit_simps h)
  qed
  have a: "adr reg delta AND 0x9f000000 = 0x10000000"
    by (rule word32_eqI) (simp add: bits32 adr_def Let_def bit_simps h)
  have b: "adr reg delta AND 31 = reg"
    by (rule word32_eqI) (simp add: bits32 adr_def Let_def bit_simps h)
  have "take_bit 21 (push_bit 2 (ucast (drop_bit 5 (adr reg delta) AND 0x7ffff)) OR
      ucast (drop_bit 29 (adr reg delta) AND 3)) = take_bit 21 delta"
    by (rule take_bit_21_eqI, simp add: bits21 adr_def Let_def bit_simps h)
      (simp add: numeral_2_eq_2 numeral_3_eq_3)
  then have c: "signed_take_bit 20 (push_bit 2 (ucast (drop_bit 5 (adr reg delta) AND 0x7ffff)) OR
      ucast (drop_bit 29 (adr reg delta) AND 3)) = signed_take_bit 20 delta"
    by (simp add: signed_take_bit_eq_iff_take_bit_eq)
  show ?thesis by (simp add: decodeA64_def a b c n)
qed

section \<open>The file's layout\<close>

lemma codeWords_eq: "codeWords message = [movz 0 1, adr 1 28, movz 2 (word_of_nat (length message)), movz 8 64,
    0xd4000001, movz 0 0, movz 8 93, 0xd4000001]"
  by (simp add: codeWords_def Let_def entryOff_def)

lemma fileSize_unat:
  assumes "length message < 2 ^ 32"
  shows "unat (160 + word_of_nat (length message) :: u64) = 160 + length message"
proof -
  have "unat (word_of_nat (length message) :: u64) = length message"
    using assms by (intro unat_word_of_nat_small) simp
  then show ?thesis using assms by (simp add: unat_word_ariths)
qed

lemma linuxHelloELF_eq:
  assumes "length message < 2 ^ 32"
  shows "linuxHelloELF pageSize message =
    copy_at (putWords 128 (codeWords message) (programHeader pageSize (160 + word_of_nat (length message))
      (elfHeader (160 + word_of_nat (length message)) (replicate (160 + length message) 0)))) 160 message"
  using fileSize_unat [OF assms]
  by (simp add: linuxHelloELF_def Let_def entryOff_def codeWords_eq)

lemmas layout_defs = putWords.simps codeWords_eq programHeader_def elfHeader_def put16_def put32_def put64_def Let_def

lemma elf_length: "length message < 2 ^ 32 \<Longrightarrow> length (linuxHelloELF pageSize message) = 160 + length message"
  by (simp add: linuxHelloELF_eq layout_defs)

lemma elf_fields:
  fixes message :: bytes and pageSize :: u64
  assumes "length message < 2 ^ 32"
  defines "elf \<equiv> linuxHelloELF pageSize message"
  shows "slice elf 0 7 = [0x7f, 0x45, 0x4c, 0x46, 2, 1, 1]" "slice elf 16 18 = le_bytes 2 (2 :: u16)"
    "slice elf 18 20 = le_bytes 2 (183 :: u16)" "slice elf 20 24 = le_bytes 4 (1 :: u32)"
    "slice elf 24 32 = le_bytes 8 (loadAddr + entryOff)" "slice elf 32 40 = le_bytes 8 (64 :: u64)"
    "slice elf 52 54 = le_bytes 2 (64 :: u16)" "slice elf 54 56 = le_bytes 2 (56 :: u16)"
    "slice elf 56 58 = le_bytes 2 (1 :: u16)" "slice elf 64 68 = le_bytes 4 (1 :: u32)"
    "slice elf 68 72 = le_bytes 4 (5 :: u32)" "slice elf 72 80 = le_bytes 8 (0 :: u64)"
    "slice elf 80 88 = le_bytes 8 loadAddr"
    "slice elf 96 104 = le_bytes 8 (160 + word_of_nat (length message) :: u64)"
    "slice elf 104 112 = le_bytes 8 (160 + word_of_nat (length message) :: u64)"
    "slice elf 112 120 = le_bytes 8 pageSize"
  unfolding elf_def linuxHelloELF_eq [OF assms(1)]
  by (simp_all add: layout_defs slice_simps)

lemma elf_code:
  fixes message :: bytes and pageSize :: u64
  assumes "length message < 2 ^ 32"
  defines "elf \<equiv> linuxHelloELF pageSize message"
  shows "slice elf 128 132 = le_bytes 4 (movz 0 1)" "slice elf 132 136 = le_bytes 4 (adr 1 28)"
    "slice elf 136 140 = le_bytes 4 (movz 2 (word_of_nat (length message)))"
    "slice elf 140 144 = le_bytes 4 (movz 8 64)" "slice elf 144 148 = le_bytes 4 (0xd4000001 :: u32)"
    "slice elf 148 152 = le_bytes 4 (movz 0 0)" "slice elf 152 156 = le_bytes 4 (movz 8 93)"
    "slice elf 156 160 = le_bytes 4 (0xd4000001 :: u32)"
    "slice elf 160 (160 + length message) = message"
  unfolding elf_def linuxHelloELF_eq [OF assms(1)]
  by (simp_all add: layout_defs slice_simps)

section \<open>Running it\<close>

definition helloImage :: "u64 \<Rightarrow> bytes \<Rightarrow> image" where
  "helloImage pageSize message =
     \<lparr>imgBase = 0x400000, imgBytes = linuxHelloELF pageSize message, imgEntry = 0x400080\<rparr>"

lemma helloImage_simps [simp]: "imgBase (helloImage pageSize message) = 0x400000"
  "imgEntry (helloImage pageSize message) = 0x400080"
  "imgBytes (helloImage pageSize message) = linuxHelloELF pageSize message"
  by (simp_all add: helloImage_def)

lemma load_hello:
  assumes "length message < 2 ^ 32"
  shows "loadELF (linuxHelloELF pageSize message) = Some (helloImage pageSize message)"
proof -
  have l: "length (linuxHelloELF pageSize message) = 160 + length message"
    using assms by (rule elf_length)
  have "slice (linuxHelloELF pageSize message) 0 (160 + length message) = linuxHelloELF pageSize message"
    by (metis l slice_all)
  then show ?thesis
    by (simp add: loadELF_def helloImage_def Let_def elf_fields [OF assms] l fileSize_unat [OF assms]
        loadAddr_def entryOff_def)
qed

lemma fetch:
  assumes "length message < 2 ^ 32" "128 + 4 * k + 4 \<le> 160 + length message"
  shows "readMem (helloImage pageSize message) (0x400080 + word_of_nat (4 * k)) 4 =
    Some (slice (linuxHelloELF pageSize message) (128 + 4 * k) (132 + 4 * k))"
proof -
  have u: "unat (word_of_nat (4 * k) :: u64) = 4 * k"
    using assms by (intro unat_word_of_nat_small) simp
  then have "unat (0x400080 + word_of_nat (4 * k) :: u64) = 0x400080 + 4 * k"
    using assms by (simp add: unat_word_ariths)
  then have "(0x400000 :: u64) \<le> 0x400080 + word_of_nat (4 * k)" by (simp add: word_le_nat_alt)
  moreover have "unat (0x400080 + word_of_nat (4 * k) - 0x400000 :: u64) = 128 + 4 * k"
  proof -
    have "(0x400080 + word_of_nat (4 * k) - 0x400000 :: u64) = 128 + word_of_nat (4 * k)" by simp
    then show ?thesis using u assms by (simp add: unat_word_ariths)
  qed
  ultimately show ?thesis using assms by (simp add: readMem_def Let_def elf_length)
qed

lemma message_read:
  assumes "length message < 2 ^ 32"
  shows "readMem (helloImage pageSize message) 0x4000a0 (length message mod 65536) =
    Some (take (length message mod 65536) message)"
proof -
  have "slice (linuxHelloELF pageSize message) 160 (160 + n) =
      take n (slice (linuxHelloELF pageSize message) 160 (160 + length message))" if "n \<le> length message" for n
    using that by (simp add: slice_def)
  moreover have "length message mod 65536 \<le> length message" by simp
  ultimately show ?thesis
    using elf_code(9) [OF assms, of pageSize] elf_length [OF assms, of pageSize]
    by (simp add: readMem_def Let_def)
qed

lemma hello_steps:
  fixes message :: bytes and pageSize :: u64
  assumes "length message < 2 ^ 32"
  defines "img \<equiv> helloImage pageSize message"
  shows "xregs c = r \<Longrightarrow> pc c = 0x400080 \<Longrightarrow> stepA64 img c = Running (c\<lparr>xregs := r(0 := 1), pc := 0x400084\<rparr>)"
    "xregs c = r \<Longrightarrow> pc c = 0x400084 \<Longrightarrow> stepA64 img c = Running (c\<lparr>xregs := r(1 := 0x4000a0), pc := 0x400088\<rparr>)"
    "xregs c = r \<Longrightarrow> pc c = 0x400088 \<Longrightarrow> stepA64 img c =
      Running (c\<lparr>xregs := r(2 := word_of_nat (length message mod 65536)), pc := 0x40008c\<rparr>)"
    "xregs c = r \<Longrightarrow> pc c = 0x40008c \<Longrightarrow> stepA64 img c = Running (c\<lparr>xregs := r(8 := 64), pc := 0x400090\<rparr>)"
    "pc c = 0x400090 \<Longrightarrow> stepA64 img c = syscall img c"
    "xregs c = r \<Longrightarrow> pc c = 0x400094 \<Longrightarrow> stepA64 img c = Running (c\<lparr>xregs := r(0 := 0), pc := 0x400098\<rparr>)"
    "xregs c = r \<Longrightarrow> pc c = 0x400098 \<Longrightarrow> stepA64 img c = Running (c\<lparr>xregs := r(8 := 93), pc := 0x40009c\<rparr>)"
    "pc c = 0x40009c \<Longrightarrow> stepA64 img c = syscall img c"
proof -
  have d: "decodeA64 0xd4000001 = Svc" by (simp add: decodeA64_def)
  have s: "signed_take_bit 20 (28 :: u64) = 28" by simp
  have u: "ucast (word_of_nat (length message) :: u16) = (word_of_nat (length message mod 65536) :: u64)"
  proof (rule unsigned_word_eqI [where 'a = nat])
    have "length message mod 65536 < 65536" by simp
    then have "length message mod 65536 < 2 ^ 64" by (rule less_trans) simp
    then show "unat (ucast (word_of_nat (length message) :: u16) :: u64) = unat (word_of_nat (length message mod 65536) :: u64)"
      by (simp add: unat_ucast_mod unat_of_nat)
  qed
  note f = fetch [OF assms(1), of 0] fetch [OF assms(1), of 1] fetch [OF assms(1), of 2] fetch [OF assms(1), of 3]
    fetch [OF assms(1), of 4] fetch [OF assms(1), of 5] fetch [OF assms(1), of 6] fetch [OF assms(1), of 7]
  note facts = f [simplified] elf_code [OF assms(1)] decode_movz decode_adr d s u
  show "xregs c = r \<Longrightarrow> pc c = 0x400080 \<Longrightarrow> stepA64 img c = Running (c\<lparr>xregs := r(0 := 1), pc := 0x400084\<rparr>)"
    "xregs c = r \<Longrightarrow> pc c = 0x400084 \<Longrightarrow> stepA64 img c = Running (c\<lparr>xregs := r(1 := 0x4000a0), pc := 0x400088\<rparr>)"
    "xregs c = r \<Longrightarrow> pc c = 0x400088 \<Longrightarrow> stepA64 img c =
      Running (c\<lparr>xregs := r(2 := word_of_nat (length message mod 65536)), pc := 0x40008c\<rparr>)"
    "xregs c = r \<Longrightarrow> pc c = 0x40008c \<Longrightarrow> stepA64 img c = Running (c\<lparr>xregs := r(8 := 64), pc := 0x400090\<rparr>)"
    "pc c = 0x400090 \<Longrightarrow> stepA64 img c = syscall img c"
    "xregs c = r \<Longrightarrow> pc c = 0x400094 \<Longrightarrow> stepA64 img c = Running (c\<lparr>xregs := r(0 := 0), pc := 0x400098\<rparr>)"
    "xregs c = r \<Longrightarrow> pc c = 0x400098 \<Longrightarrow> stepA64 img c = Running (c\<lparr>xregs := r(8 := 93), pc := 0x40009c\<rparr>)"
    "pc c = 0x40009c \<Longrightarrow> stepA64 img c = syscall img c"
    by (simp_all add: stepA64_def img_def facts)
qed

lemma run_hello:
  assumes "length message < 2 ^ 32"
  shows "runA64 8 (helloImage pageSize message) \<lparr>xregs = (\<lambda>_. 0), pc = 0x400080, written = []\<rparr> =
    Exited 0 [(1, take (length message mod 65536) message)]"
proof -
  have e: "8 = Suc (Suc (Suc (Suc (Suc (Suc (Suc (Suc 0)))))))" by simp
  have n: "unat (word_of_nat (length message mod 65536) :: u64) = length message mod 65536"
    by (intro unat_word_of_nat_small) (simp add: less_trans [OF mod_less_divisor])
  show ?thesis
    unfolding e
    by (simp add: hello_steps [OF assms] syscall_def message_read [OF assms] n del: helloImage_simps)
qed

section \<open>Properties\<close>

definition sentryHello :: bytes where
  "sentryHello = ascii ''Hello World from gVisor Sentry!'' @ [10]"

text \<open>C35: loaded and run, the generated file executes eight instructions that write the message to
  file descriptor 1 and exit with status 0. The length goes through a 16-bit immediate, so of a
  message of 64 KiB or more only the length modulo 65536 is written.\<close>

theorem hello_writes_message:
  assumes "length message < 2 ^ 32"
  shows "runELF 8 (linuxHelloELF pageSize message) = Exited 0 [(1, take (length message mod 65536) message)]"
  by (simp add: runELF_def load_hello [OF assms] run_hello [OF assms] del: runA64.simps)

theorem hello_writes_message_witness:
  "runELF 8 (linuxHelloELF 4096 sentryHello) = Exited 0 [(1, sentryHello)] \<and> length sentryHello = 32"
  using hello_writes_message [of sentryHello 4096] by (simp add: sentryHello_def)

text \<open>The two instruction encoders: a decoder of the architecture's encodings reads back the
  register and the immediate, the address offset as a signed 21-bit number.\<close>

theorem encoders_decode:
  assumes "reg < 32"
  shows "decodeA64 (movz reg imm) = Movz reg imm \<and> decodeA64 (adr reg delta) = Adr reg (signed_take_bit 20 delta)"
  using decode_movz [OF assms] decode_adr [OF assms] by blast

theorem encoders_decode_witness:
  "decodeA64 (movz 8 64) = Movz 8 64 \<and> decodeA64 (adr 1 28) = Adr 1 28"
  using encoders_decode [of 8 64 0] encoders_decode [of 1 0 28] by simp

text \<open>The file is a 64-bit little-endian AArch64 executable whose single segment maps the whole file,
  header included, read-only and executable at 0x400000.\<close>

theorem hello_loads:
  assumes "length message < 2 ^ 32"
  shows "loadELF (linuxHelloELF pageSize message) = Some \<lparr>imgBase = 0x400000,
      imgBytes = linuxHelloELF pageSize message, imgEntry = 0x400080\<rparr> \<and>
    length (linuxHelloELF pageSize message) = 160 + length message \<and>
    slice (linuxHelloELF pageSize message) 112 120 = le_bytes 8 pageSize"
  using load_hello [OF assms] elf_length [OF assms] elf_fields(16) [OF assms] by (simp add: helloImage_def)

theorem hello_loads_witness:
  "loadELF (linuxHelloELF 4096 sentryHello) = Some \<lparr>imgBase = 0x400000,
     imgBytes = linuxHelloELF 4096 sentryHello, imgEntry = 0x400080\<rparr> \<and> length (linuxHelloELF 4096 sentryHello) = 192"
  using hello_loads [of sentryHello 4096] by (simp add: sentryHello_def)

end
