(* ===== verification/Elf2raw.thy ===== *)
theory Elf2raw
  imports Prelude
begin

text \<open>
  \<^verbatim>\<open>tools/elf2raw.go\<close>: flattening a TamaGo ELF into the raw image krun loads. The file is what the
  standard library's \<^verbatim>\<open>debug/elf\<close> reads; writing the output is an argument.
\<close>

section \<open>The file\<close>

text \<open>\<open>progData\<close> is what a segment's section reader yields: at most \<^verbatim>\<open>Filesz\<close> bytes, fewer when the
  file is truncated.\<close>

record elfProg =
  progType :: u32
  Paddr :: u64
  Vaddr :: u64
  Filesz :: u64
  progData :: bytes

record elfFile =
  fileClass :: u8
  fileData :: u8
  fileMachine :: u16
  Entry :: u64
  Progs :: "elfProg list"

definition ELFCLASS64 :: u8 where "ELFCLASS64 = 2"
definition ELFDATA2LSB :: u8 where "ELFDATA2LSB = 1"
definition EM_AARCH64 :: u16 where "EM_AARCH64 = 183"
definition PT_LOAD :: u32 where "PT_LOAD = 1"
definition maxImageSize :: u64 where "maxImageSize = push_bit 20 128"

section \<open>The branch\<close>

datatype branch_error = Unaligned | OutOfRange

text \<open>\<^verbatim>\<open>int64\<close> subtraction wraps; the comparisons are signed.\<close>

definition branchInstruction :: "u64 \<Rightarrow> u64 \<Rightarrow> branch_error + u32" where
  "branchInstruction from to =
     (if from AND 3 \<noteq> 0 \<or> to AND 3 \<noteq> 0 then Inl Unaligned
      else
        let delta = to - from in
        if sint delta < - (128 * 2 ^ 20) \<or> sint delta \<ge> 128 * 2 ^ 20 then Inl OutOfRange
        else
          let imm26 = ucast (signed_drop_bit 2 delta) AND 0x03ffffff
          in Inr (0x14000000 OR imm26))"

definition programAddress :: "elfProg \<Rightarrow> u64" where
  "programAddress p = (if Paddr p \<noteq> 0 then Paddr p else Vaddr p)"

section \<open>Conversion\<close>

datatype 'e convert_error = OpenFailed 'e | NotAArch64 | OutsideImage u64 u64 | TooLarge u64
  | ReadFailed | EntryFailed u64 branch_error | WriteFailed 'e

definition skipped :: "elfProg \<Rightarrow> bool" where
  "skipped p \<longleftrightarrow> progType p \<noteq> PT_LOAD \<or> Filesz p = 0"

text \<open>The first loop: the end of the image.\<close>

fun imageEnd :: "u64 \<Rightarrow> u64 \<Rightarrow> elfProg list \<Rightarrow> ('e convert_error, u64) result" where
  "imageEnd base limit [] = Inr limit"
| "imageEnd base limit (p # ps) =
     (if skipped p then imageEnd base limit ps
      else
        let addr = programAddress p in
        if addr < base \<or> addr + Filesz p < addr
        then Inl (Err (OutsideImage addr (addr + Filesz p)))
        else imageEnd base (if addr + Filesz p > limit then addr + Filesz p else limit) ps)"

text \<open>The second: copying the segments in. \<^verbatim>\<open>io.ReadFull\<close> fails on a short segment.\<close>

fun loadProgs :: "u64 \<Rightarrow> bytes \<Rightarrow> elfProg list \<Rightarrow> ('e convert_error, bytes) result" where
  "loadProgs base img [] = Inr img"
| "loadProgs base img (p # ps) =
     (if skipped p then loadProgs base img ps
      else
        let offset = programAddress p - base in
        and_then (go_slice img (unat offset) (unat (offset + Filesz p))) (\<lambda>_.
        if length (progData p) < unat (Filesz p) then Inl (Err ReadFailed)
        else loadProgs base (copy_at img (unat offset) (take (unat (Filesz p)) (progData p))) ps))"

definition convert :: "'e + elfFile \<Rightarrow> u64 \<Rightarrow> (bytes \<Rightarrow> 'e option) \<Rightarrow> ('e convert_error, bytes) result" where
  "convert opened base writeFile =
     (case opened of
        Inl err \<Rightarrow> Inl (Err (OpenFailed err))
      | Inr f \<Rightarrow>
          if fileClass f \<noteq> ELFCLASS64 \<or> fileMachine f \<noteq> EM_AARCH64 \<or> fileData f \<noteq> ELFDATA2LSB
          then Inl (Err NotAArch64)
          else
            and_then (imageEnd base (base + 4) (Progs f)) (\<lambda>limit.
            if limit - base > maxImageSize then Inl (Err (TooLarge (limit - base)))
            else
            and_then (loadProgs base (replicate (unat (limit - base)) 0) (Progs f)) (\<lambda>img.
            case branchInstruction base (Entry f) of
              Inl err \<Rightarrow> Inl (Err (EntryFailed (Entry f) err))
            | Inr branch \<Rightarrow>
                and_then (go_slice img 0 4) (\<lambda>_.
                let img = copy_at img 0 (le_bytes 4 branch) in
                (case writeFile img of
                   Some err \<Rightarrow> Inl (Err (WriteFailed err))
                 | None \<Rightarrow> Inr img)))))"

text \<open>\<^verbatim>\<open>main\<close>'s default for the base, and its exit status; a panic ends a Go program with 2.\<close>

definition elf2rawBase :: u64 where "elf2rawBase = 0x80000000"

definition elf2rawMain :: "string \<Rightarrow> string \<Rightarrow> 'e + elfFile \<Rightarrow> u64 \<Rightarrow> (bytes \<Rightarrow> 'e option) \<Rightarrow> nat" where
  "elf2rawMain inp out opened base writeFile =
     (if inp = [] \<or> out = [] then 2
      else (case convert opened base writeFile of
          Inl Panic \<Rightarrow> 2
        | Inl (Err _) \<Rightarrow> 1
        | Inr _ \<Rightarrow> 0))"

section \<open>The branch reaches the entry\<close>

text \<open>The architecture's reading of a \<^verbatim>\<open>B\<close> instruction at an address: its target.\<close>

definition branchTarget :: "u64 \<Rightarrow> u32 \<Rightarrow> u64 option" where
  "branchTarget at w =
     (if w AND 0xfc000000 = 0x14000000
      then Some (at + signed_take_bit 27 (push_bit 2 (ucast (w AND 0x03ffffff)))) else None)"

lemma branchInstruction_target:
  assumes "branchInstruction from to = Inr w"
  shows "branchTarget from w = Some to"
proof -
  define d where "d = to - from"
  have a: "from AND 3 = 0" "to AND 3 = 0" "- (128 * 2 ^ 20) \<le> sint d" "sint d < 128 * 2 ^ 20"
    and w: "w = 0x14000000 OR (ucast (signed_drop_bit 2 d) AND 0x03ffffff)"
    using assms by (auto simp: branchInstruction_def Let_def d_def split: if_splits)
  have "d = push_bit 2 (drop_bit 2 to - drop_bit 2 from)"
  proof -
    have "(3 :: u64) = mask 2" by (simp add: mask_eq_exp_minus_1)
    then have "take_bit 2 from = 0" "take_bit 2 to = 0" using a(1,2) by (simp_all add: take_bit_eq_mask)
    then have "from = push_bit 2 (drop_bit 2 from)" "to = push_bit 2 (drop_bit 2 to)"
      using bits_ident [of 2 "from"] bits_ident [of 2 "to"] by simp_all
    then obtain x y where "from = push_bit 2 x" "to = push_bit 2 y" and xy: "x = drop_bit 2 from" "y = drop_bit 2 to" by blast
    then have "from = 4 * x" "to = 4 * y" by (simp_all add: push_bit_eq_mult mult.commute)
    then have "d = 4 * (y - x)" by (simp add: d_def)
    then show ?thesis by (simp add: push_bit_eq_mult mult.commute flip: xy)
  qed
  then have low: "\<not> bit d 0" "\<not> bit d (Suc 0)" by (simp_all add: bit_push_bit_iff)
  have op: "w AND 0xfc000000 = 0x14000000"
    by (rule word32_eqI) (simp add: bits32 w bit_simps)
  have imm: "bit (w AND 0x03ffffff) i \<longleftrightarrow> i < 26 \<and> bit d (i + 2)" for i
  proof (cases "i < 26")
    case True
    have "list_all (\<lambda>i. bit (w AND 0x03ffffff) i = (i < 26 \<and> bit d (i + 2))) [0..<32]"
      by (simp add: bits32 w bit_simps) (simp add: numeral_2_eq_2 numeral_3_eq_3)
    then show ?thesis using True by (simp add: list_all_iff)
  next
    case False
    have "(0x03ffffff :: u32) = mask 26" by (simp add: mask_eq_exp_minus_1)
    then show ?thesis using False by (simp only: bit_and_iff bit_mask_iff) simp
  qed
  have push: "push_bit 2 (ucast (w AND 0x03ffffff)) = take_bit 28 d"
  proof (rule bit_word_eqI)
    fix n :: nat
    assume n: "n < LENGTH(64)"
    consider "n = 0" | "n = Suc 0" | m where "n = m + 2"
      by (metis One_nat_def add.commute le_Suc_ex less_2_cases not_le)
    then show "bit (push_bit 2 (ucast (w AND 0x03ffffff)) :: u64) n = bit (take_bit 28 d) n"
    proof cases
      case 3
      have "bit (push_bit 2 (ucast (w AND 0x03ffffff)) :: u64) n \<longleftrightarrow> bit (w AND 0x03ffffff) m"
        using n 3 by (simp only: bit_push_bit_iff bit_ucast_iff) simp
      then show ?thesis using 3 by (simp only: imm bit_take_bit_iff) auto
    qed (simp_all add: bit_push_bit_iff bit_take_bit_iff low)
  qed
  have sgn: "signed_take_bit 27 d = d"
  proof -
    have stk: "signed_take_bit 27 (sint d) = sint d" using a(3,4) by (intro signed_take_bit_int_eq_self) auto
    have b: "bit (sint d) n = bit (sint d) (min 27 n)" for n
      by (subst (1) stk [symmetric]) (simp add: bit_signed_take_bit_iff)
    have c: "bit d n = bit d (min 27 n)" if "n < 64" for n
    proof -
      have "bit (sint d) n = bit d n" "bit (sint d) (min 27 n) = bit d (min 27 n)"
        using that by (simp_all add: bit_sint_iff)
      with b [of n] show ?thesis by blast
    qed
    show ?thesis
    proof (rule bit_word_eqI)
      fix n assume "n < LENGTH(64)"
      then have "n < 64" by simp
      show "bit (signed_take_bit 27 d) n = bit d n"
        using c [OF \<open>n < 64\<close>] \<open>n < 64\<close> by (simp only: bit_signed_take_bit_iff possible_bit_def) simp
    qed
  qed
  have "signed_take_bit 27 (push_bit 2 (ucast (w AND 0x03ffffff))) = d"
  proof -
    have "signed_take_bit 27 (take_bit 28 d) = signed_take_bit 27 d"
      by (simp add: signed_take_bit_eq_iff_take_bit_eq)
    with push sgn show ?thesis by simp
  qed
  then show ?thesis by (simp add: branchTarget_def op d_def)
qed

lemma branchInstruction_Inr:
  "(\<exists>w. branchInstruction from to = Inr w) \<longleftrightarrow>
    from AND 3 = 0 \<and> to AND 3 = 0 \<and> - (2 ^ 27) \<le> sint (to - from) \<and> sint (to - from) < 2 ^ 27"
  by (auto simp: branchInstruction_def Let_def not_less not_le)

section \<open>What the image holds\<close>

definition segOffset :: "u64 \<Rightarrow> elfProg \<Rightarrow> nat" where
  "segOffset base p = unat (programAddress p - base)"

text \<open>The segment lies inside an image that ends at \<open>limit\<close>.\<close>

definition segFits :: "u64 \<Rightarrow> u64 \<Rightarrow> elfProg \<Rightarrow> bool" where
  "segFits base limit p \<longleftrightarrow> base \<le> programAddress p \<and>
     segOffset base p + unat (Filesz p) \<le> unat (limit - base) \<and>
     unat (programAddress p - base + Filesz p) = segOffset base p + unat (Filesz p)"

lemma segFits_grow: "segFits base l p \<Longrightarrow> l \<le> l' \<Longrightarrow> base \<le> l \<Longrightarrow> segFits base l' p"
proof -
  assume s: "segFits base l p" and le: "l \<le> l'" and b: "base \<le> l"
  then have "l - base \<le> l' - base" by (simp add: word_le_minus_mono_left)
  then have "unat (l - base) \<le> unat (l' - base)" by (simp add: word_le_nat_alt)
  with s show ?thesis by (simp add: segFits_def)
qed

lemma segment_fits:
  assumes "base \<le> addr" "\<not> addr + n < addr" "addr + n \<le> limit"
  shows "unat (addr - base) + unat n \<le> unat (limit - base) \<and>
    unat (addr - base + n) = unat (addr - base) + unat n \<and> base \<le> (limit :: u64)"
proof -
  have a: "unat (addr + n) = unat addr + unat n"
    using assms(2) by (meson not_le unat_plus_simple)
  have b: "unat base \<le> unat addr" using assms(1) by (simp add: word_le_nat_alt)
  have c: "unat addr + unat n \<le> unat limit" using assms(3) a by (simp add: word_le_nat_alt)
  have d: "unat (addr - base) = unat addr - unat base" using assms(1) by (simp add: unat_sub)
  have e: "base \<le> limit" using b c by (simp add: word_le_nat_alt)
  then have f: "unat (limit - base) = unat limit - unat base" by (simp add: unat_sub)
  have g: "addr - base + n = addr + n - base" by simp
  have "base \<le> addr + n" using a b by (simp add: word_le_nat_alt)
  then have "unat (addr - base + n) = unat addr + unat n - unat base" by (simp only: g unat_sub a)
  with b c d e f show ?thesis by simp
qed

lemma imageEnd_Inr:
  "(imageEnd base limit ps :: ('e convert_error, u64) result) = Inr e \<Longrightarrow> base \<le> limit \<Longrightarrow>
    limit \<le> e \<and> (\<forall>p \<in> set ps. \<not> skipped p \<longrightarrow> segFits base e p)"
proof (induction ps arbitrary: limit)
  case (Cons p ps)
  show ?case
  proof (cases "skipped p")
    case True
    with Cons show ?thesis by auto
  next
    case False
    define addr where "addr = programAddress p"
    define l where "l = (if addr + Filesz p > limit then addr + Filesz p else limit)"
    have a: "base \<le> addr" "\<not> addr + Filesz p < addr" and r: "(imageEnd base l ps :: ('e convert_error, u64) result) = Inr e"
      using Cons.prems(1) False by (auto simp: Let_def addr_def l_def split: if_splits)
    have l: "limit \<le> l" "addr + Filesz p \<le> l" by (auto simp: l_def)
    from Cons.IH [OF r] Cons.prems(2) l have IH: "l \<le> e" "\<forall>p \<in> set ps. \<not> skipped p \<longrightarrow> segFits base e p" by auto
    have "segFits base l p"
      using segment_fits [OF a l(2)] a by (simp add: segFits_def segOffset_def addr_def)
    then have "segFits base e p" using IH(1) Cons.prems(2) l(1) by (meson segFits_grow order_trans)
    with IH l(1) show ?thesis by auto
  qed
qed simp

lemma imageEnd_no_panic: "imageEnd base limit ps \<noteq> Inl Panic"
  by (induction base limit ps rule: imageEnd.induct) (auto simp: Let_def)

text \<open>The reference: each byte comes from the last segment that covers it.\<close>

fun flatByte :: "u64 \<Rightarrow> elfProg list \<Rightarrow> nat \<Rightarrow> u8 \<Rightarrow> u8" where
  "flatByte base [] i b = b"
| "flatByte base (p # ps) i b = flatByte base ps i
     (if \<not> skipped p \<and> segOffset base p \<le> i \<and> i < segOffset base p + unat (Filesz p)
      then progData p ! (i - segOffset base p) else b)"

lemma nth_copy_at:
  "n + length src \<le> length dst \<Longrightarrow> i < length dst \<Longrightarrow>
    copy_at dst n src ! i = (if n \<le> i \<and> i < n + length src then src ! (i - n) else dst ! i)"
  using nth_copy_at_same [of n src dst "i - n"] nth_copy_at_before [of i n dst src] nth_copy_at_after [of n src i dst]
  by auto

lemma loadProgs_spec:
  assumes "length img = unat (e - base)" "\<forall>p \<in> set ps. \<not> skipped p \<longrightarrow> segFits base e p"
  shows "loadProgs base img ps \<noteq> Inl Panic \<and>
    (loadProgs base img ps = Inr img' \<longrightarrow> length img' = length img \<and>
      (\<forall>i < length img. img' ! i = flatByte base ps i (img ! i)))"
  using assms
proof (induction ps arbitrary: img)
  case (Cons p ps)
  show ?case
  proof (cases "skipped p")
    case True
    with Cons show ?thesis by simp
  next
    case False
    define o1 where "o1 = segOffset base p"
    define n where "n = unat (Filesz p)"
    have f: "o1 + n \<le> length img" "unat (programAddress p - base + Filesz p) = o1 + n"
      using Cons.prems False by (simp_all add: segFits_def o1_def n_def)
    show ?thesis
    proof (cases "length (progData p) < n")
      case True
      then show ?thesis using False f by (simp add: Let_def n_def o1_def segOffset_def)
    next
      case enough: False
      define img1 where "img1 = copy_at img o1 (take n (progData p))"
      have step: "loadProgs base img (p # ps) = loadProgs base img1 ps"
        using False f enough by (simp add: Let_def n_def o1_def segOffset_def img1_def)
      have b: "img1 ! i = (if o1 \<le> i \<and> i < o1 + n then progData p ! (i - o1) else img ! i)" if "i < length img" for i
        using nth_copy_at [of o1 "take n (progData p)" img i] that f enough by (auto simp: img1_def)
      have "length img1 = unat (e - base)" using Cons.prems(1) by (simp add: img1_def)
      from Cons.IH [OF this] Cons.prems(2) show ?thesis
        using b False by (auto simp: step img1_def o1_def n_def simp del: loadProgs.simps)
    qed
  qed
qed simp

lemma limit_base:
  assumes "unat base + 4 < 2 ^ 64" "base + 4 \<le> (e :: u64)"
  shows "base \<le> base + 4 \<and> 4 \<le> unat (e - base)"
proof -
  have b: "unat (base + 4) = unat base + 4" using assms(1) by (simp add: unat_word_ariths)
  then have "base \<le> e" using assms(2) by (simp add: word_le_nat_alt)
  with b assms(2) show ?thesis by (simp add: word_le_nat_alt unat_sub)
qed

lemma convert_Inr:
  assumes "(convert (Inr f) base writeFile :: ('e convert_error, bytes) result) = Inr img"
  obtains e w img0 where "(imageEnd base (base + 4) (Progs f) :: ('e convert_error, u64) result) = Inr e"
    "e - base \<le> maxImageSize"
    "(loadProgs base (replicate (unat (e - base)) 0) (Progs f) :: ('e convert_error, bytes) result) = Inr img0"
    "branchInstruction base (Entry f) = Inr w" "img = copy_at img0 0 (le_bytes 4 w)" "writeFile img = None"
proof -
  from assms obtain e img0 where 1: "(imageEnd base (base + 4) (Progs f) :: ('e convert_error, u64) result) = Inr e"
    "e - base \<le> maxImageSize"
    "(loadProgs base (replicate (unat (e - base)) 0) (Progs f) :: ('e convert_error, bytes) result) = Inr img0"
    and rest: "(case branchInstruction base (Entry f) of
        Inl err \<Rightarrow> Inl (Err (EntryFailed (Entry f) err))
      | Inr branch \<Rightarrow> and_then (go_slice img0 0 4) (\<lambda>_. let img = copy_at img0 0 (le_bytes 4 branch) in
          case writeFile img of Some err \<Rightarrow> Inl (Err (WriteFailed err)) | None \<Rightarrow> Inr img)) =
      (Inr img :: ('e convert_error, bytes) result)"
    by (fastforce simp: convert_def and_then_Inr_iff not_less split: if_splits)
  from rest obtain w where w: "branchInstruction base (Entry f) = Inr w"
    by (cases "branchInstruction base (Entry f)") auto
  with rest have "img = copy_at img0 0 (le_bytes 4 w)" "writeFile img = None"
    by (auto simp: and_then_Inr_iff Let_def split: option.splits)
  with 1 w show ?thesis by (rule that)
qed

section \<open>Properties\<close>

text \<open>The branch written at the load address reaches the entry point: an instruction is produced
  exactly for aligned addresses less than 128 MiB apart, and the architecture's reading of it is a
  jump from the first address to the second.\<close>

theorem branch_reaches_entry:
  "(case branchInstruction from to of
      Inr w \<Rightarrow> branchTarget from w = Some to \<and> from AND 3 = 0 \<and> to AND 3 = 0 \<and>
        - (2 ^ 27) \<le> sint (to - from) \<and> sint (to - from) < 2 ^ 27
    | Inl Unaligned \<Rightarrow> \<not> (from AND 3 = 0 \<and> to AND 3 = 0)
    | Inl OutOfRange \<Rightarrow> \<not> (- (2 ^ 27) \<le> sint (to - from) \<and> sint (to - from) < 2 ^ 27))"
proof (cases "branchInstruction from to")
  case (Inr w)
  then show ?thesis
    using branchInstruction_target [OF Inr] branchInstruction_Inr [of "from" "to"] by auto
next
  case (Inl err)
  then show ?thesis
    by (cases err) (auto simp: branchInstruction_def Let_def split: if_splits)
qed

text \<open>C36: the raw image. A conversion that succeeds writes an image of at most 128 MiB in which every
  byte past the first four is that of the last load segment covering its address, zero where none
  does, and whose first four bytes are the branch to the entry point.\<close>

theorem convert_image:
  assumes "convert (Inr f) base writeFile = Inr img" "unat base + 4 < 2 ^ 64"
  shows "4 \<le> length img \<and> length img \<le> 2 ^ 27 \<and> writeFile img = None \<and>
    branchTarget base (le_word (slice img 0 4)) = Some (Entry f) \<and>
    (\<forall>i < length img. 4 \<le> i \<longrightarrow> img ! i = flatByte base (Progs f) i 0) \<and>
    (\<forall>p \<in> set (Progs f). \<not> skipped p \<longrightarrow> base \<le> programAddress p \<and>
       segOffset base p + unat (Filesz p) \<le> length img)"
proof -
  obtain e w img0 where
    e: "(imageEnd base (base + 4) (Progs f) :: ('a convert_error, u64) result) = Inr e"
    and small: "e - base \<le> maxImageSize"
    and load: "(loadProgs base (replicate (unat (e - base)) 0) (Progs f) :: ('a convert_error, bytes) result) = Inr img0"
    and w: "branchInstruction base (Entry f) = Inr w"
    and img: "img = copy_at img0 0 (le_bytes 4 w)" and wr: "writeFile img = None"
    using assms(1) by (rule convert_Inr)
  have b4: "base \<le> base + 4"
    using assms(2) by (simp add: word_le_nat_alt unat_word_ariths)
  from imageEnd_Inr [OF e b4] have le: "base + 4 \<le> e"
    and fits: "\<forall>p \<in> set (Progs f). \<not> skipped p \<longrightarrow> segFits base e p" by auto
  from limit_base [OF assms(2) le] have four: "4 \<le> unat (e - base)" by simp
  have spec: "length img0 = unat (e - base)" "\<forall>i < unat (e - base). img0 ! i = flatByte base (Progs f) i 0"
    using loadProgs_spec [of "replicate (unat (e - base)) 0" e base "Progs f" img0] fits load by auto
  have "unat (e - base) \<le> 2 ^ 27"
    using small by (simp add: maxImageSize_def word_le_nat_alt)
  moreover have "slice img 0 4 = le_bytes 4 w"
    using spec(1) four by (simp add: img slice_copy_at_same)
  moreover have "img ! i = flatByte base (Progs f) i 0" if "i < unat (e - base)" "4 \<le> i" for i
    using that spec by (simp add: img nth_copy_at_after)
  ultimately show ?thesis
    using four spec(1) fits wr branchInstruction_target [OF w] by (auto simp: img segFits_def)
qed

definition testFile :: elfFile where
  "testFile = \<lparr>fileClass = 2, fileData = 1, fileMachine = 183, Entry = 0x80000010,
     Progs = [\<lparr>progType = 1, Paddr = 0x80000004, Vaddr = 0, Filesz = 2, progData = [7, 8]\<rparr>]\<rparr>"

lemma convert_test: "convert (Inr testFile) 0x80000000 (\<lambda>_. None) = (Inr [4, 0, 0, 0x14, 7, 8] :: (nat convert_error, bytes) result)"
  by code_simp

text \<open>The conversion never indexes out of range, whatever the file claims, for a load address with
  room for the branch below 2^64.\<close>

theorem convert_no_panic:
  assumes "unat base + 4 < 2 ^ 64"
  shows "convert opened base writeFile \<noteq> Inl Panic"
proof (cases opened)
  case (Inr f)
  have b4: "base \<le> base + 4"
    using assms by (simp add: word_le_nat_alt unat_word_ariths)
  have A: "and_then (loadProgs base (replicate (unat (e - base)) 0) (Progs f)) k \<noteq> Inl Panic"
    if e: "imageEnd base (base + 4) (Progs f) = Inr e"
      and k: "\<And>img. 4 \<le> length img \<Longrightarrow> k img \<noteq> Inl Panic" for e k
  proof -
    from imageEnd_Inr [OF e b4] have le: "base + 4 \<le> e"
      and fits: "\<forall>p \<in> set (Progs f). \<not> skipped p \<longrightarrow> segFits base e p" by auto
    from limit_base [OF assms le] have "4 \<le> unat (e - base)" by simp
    then have l: "loadProgs base (replicate (unat (e - base)) 0) (Progs f) = Inr x \<Longrightarrow> 4 \<le> length x"
      "loadProgs base (replicate (unat (e - base)) 0) (Progs f) \<noteq> Inl Panic" for x
      using loadProgs_spec [of "replicate (unat (e - base)) 0" e base "Progs f" x] fits by auto
    show ?thesis by (intro no_panicI l(2) k l(1))
  qed
  have B: "(case branchInstruction base (Entry f) of
        Inl err \<Rightarrow> Inl (Err (EntryFailed (Entry f) err))
      | Inr branch \<Rightarrow> and_then (go_slice img 0 4) (\<lambda>_. let img = copy_at img 0 (le_bytes 4 branch) in
          case writeFile img of Some err \<Rightarrow> Inl (Err (WriteFailed err)) | None \<Rightarrow> Inr img)) \<noteq> Inl Panic"
    if "4 \<le> length img" for img
    using that by (simp add: Let_def split: sum.split option.split)
  show ?thesis
    by (simp add: convert_def Inr) (intro impI no_panicI imageEnd_no_panic, simp, intro impI A B, assumption+)
qed (simp add: convert_def)

theorem convert_image_witness:
  "convert (Inr testFile) 0x80000000 (\<lambda>_. None) = (Inr [4, 0, 0, 0x14, 7, 8] :: (nat convert_error, bytes) result) \<and>
    branchTarget 0x80000000 (le_word (slice [4, 0, 0, 0x14, 7, 8] 0 4)) = Some (Entry testFile)"
  using convert_image [OF convert_test] convert_test by simp

theorem convert_no_panic_witness:
  "convert (Inr (testFile\<lparr>Progs := [\<lparr>progType = 1, Paddr = 0xffffffffffffffff, Vaddr = 0, Filesz = 1, progData = []\<rparr>]\<rparr>))
     0x80000000 (\<lambda>_. None) \<noteq> (Inl Panic :: (nat convert_error, bytes) result)"
  by (rule convert_no_panic) simp

end
