(* ===== verification/Platform.thy ===== *)
theory Platform
  imports Hello_Elf
begin

text \<open>
  \<^verbatim>\<open>kernel/gvisorplatform/platform.go\<close>: the direct-EL0 platform backend. gVisor's page tables,
  register context and TLB flush are not in the repository, nor is the EL0 machine: they are the
  fields of a parameter. \<^verbatim>\<open>runUser\<close> is assembly; it is a function of the switch state and the
  machine's memory.
\<close>

section \<open>Constants and types\<close>

definition ramStart :: u64 where "ramStart = 0x80000000"
definition ramSize :: u64 where "ramSize = push_bit 20 256"
definition tcrEL1 :: u64 where "tcrEL1 = 0x32b5103510"
definition mairEL1 :: u64 where "mairEL1 = 0x000044ff"

text \<open>\<^verbatim>\<open>hostarch.AccessType\<close>, \<^verbatim>\<open>hostarch.MemoryType\<close> and \<^verbatim>\<open>pagetables.MapOpts\<close>.\<close>

record accessType =
  aRead :: bool
  aWrite :: bool
  aExecute :: bool

definition AnyAccess :: accessType where "AnyAccess = \<lparr>aRead = True, aWrite = True, aExecute = True\<rparr>"
definition NoAccess :: accessType where "NoAccess = \<lparr>aRead = False, aWrite = False, aExecute = False\<rparr>"
definition ReadExecute :: accessType where "ReadExecute = \<lparr>aRead = True, aWrite = False, aExecute = True\<rparr>"
definition ReadWrite :: accessType where "ReadWrite = \<lparr>aRead = True, aWrite = True, aExecute = False\<rparr>"

datatype memoryType = MemoryTypeWriteBack | MemoryTypeWriteCombine | MemoryTypeUncached

record mapOpts =
  AccessType :: accessType
  Global :: bool
  User :: bool
  MemoryType :: memoryType

text \<open>The registers a gVisor task context holds.\<close>

record ctx =
  Regs :: "u64 list"
  Sp :: u64
  Pc :: u64
  Pstate :: u64
  TLS :: u64

record switchState =
  UserRegs :: "u64 list"
  UserSP :: u64
  UserPC :: u64
  UserPstate :: u64
  KernelTTBR :: u64
  AppTTBR :: u64
  KernelSP :: u64
  ExceptionSP :: u64
  KernelRegs :: "u64 list"
  ESR :: u64
  FAR :: u64
  Vector :: u64
  UserTLS :: u64

text \<open>What the platform uses of gVisor and of the machine; \<open>'pt\<close> is a page table, \<open>'m\<close> the memory.\<close>

record ('pt, 'm) gvisor =
  PageSize :: u64
  KernelStartAddress :: u64
  MaximumUserAddress :: u64
  ptNew :: 'pt
  ptNewWithUpper :: "'pt \<Rightarrow> 'pt"
  ptMap :: "u64 \<Rightarrow> u64 \<Rightarrow> mapOpts \<Rightarrow> u64 \<Rightarrow> 'pt \<Rightarrow> 'pt"
  ptUnmap :: "u64 \<Rightarrow> u64 \<Rightarrow> 'pt \<Rightarrow> 'pt"
  ptReadOnly :: "'pt \<Rightarrow> 'pt"
  TTBR0_EL1 :: "'pt \<Rightarrow> u16 \<Rightarrow> u64"
  TTBR1_EL1 :: "'pt \<Rightarrow> u16 \<Rightarrow> u64"
  ESRAccessType :: "u64 \<Rightarrow> accessType"
  SyscallSaveOrig :: "ctx \<Rightarrow> ctx"
  SyscallArgs :: "ctx \<Rightarrow> u64 list"
  SyscallNo :: "ctx \<Rightarrow> u64"
  SetReturn :: "u64 \<Rightarrow> ctx \<Rightarrow> ctx"
  archNew :: ctx
  SetIP :: "u64 \<Rightarrow> ctx \<Rightarrow> ctx"
  SetStack :: "u64 \<Rightarrow> ctx \<Rightarrow> ctx"
  runUser :: "switchState \<Rightarrow> 'm \<Rightarrow> switchState \<times> 'm"
  addrOfVectors :: u64
  addrOfSmokeEntry :: u64

record 'pt platform =
  upper :: 'pt
  kernelPT :: 'pt
  switcher :: switchState
  switcherAddr :: u64
  exStackAddr :: u64

definition zeroSwitch :: switchState where
  "zeroSwitch = \<lparr>UserRegs = replicate 31 0, UserSP = 0, UserPC = 0, UserPstate = 0, KernelTTBR = 0, AppTTBR = 0,
     KernelSP = 0, ExceptionSP = 0, KernelRegs = replicate 12 0, ESR = 0, FAR = 0, Vector = 0, UserTLS = 0\<rparr>"

section \<open>New\<close>

text \<open>The arguments of \<^verbatim>\<open>installMMU\<close>.\<close>

record mmuArgs =
  mmuTTBR0 :: u64
  mmuTTBR1 :: u64
  mmuTCR :: u64
  mmuMAIR :: u64
  mmuVBAR :: u64
  mmuTPIDR :: u64

definition deviceOpts :: mapOpts where
  "deviceOpts = \<lparr>AccessType = AnyAccess, Global = True, User = False, MemoryType = MemoryTypeUncached\<rparr>"

definition ramOpts :: mapOpts where
  "ramOpts = \<lparr>AccessType = AnyAccess, Global = True, User = False, MemoryType = MemoryTypeWriteBack\<rparr>"

definition newUpper :: "('pt, 'm) gvisor \<Rightarrow> 'pt" where
  "newUpper G = ptReadOnly G (ptMap G (KernelStartAddress G OR ramStart) ramSize ramOpts ramStart (ptNew G))"

definition newKernelPT :: "('pt, 'm) gvisor \<Rightarrow> 'pt \<Rightarrow> 'pt" where
  "newKernelPT G up =
     (let pt = ptNewWithUpper G up;
          pt = ptMap G 0 ramStart deviceOpts 0 pt;
          pt = ptMap G ramStart ramSize ramOpts ramStart pt
      in ptMap G (ramStart + ramSize) (push_bit 32 1 - ramStart - ramSize) deviceOpts (ramStart + ramSize) pt)"

text \<open>
  \<^verbatim>\<open>New\<close>, for a platform allocated with its switch state and exception stack at given addresses: the
  size passed to \<^verbatim>\<open>ConfigureAddressSpace\<close>, the platform, and the arguments of \<^verbatim>\<open>installMMU\<close>.
\<close>

definition newPlatform :: "('pt, 'm) gvisor \<Rightarrow> u64 \<Rightarrow> u64 \<Rightarrow> u64 \<times> 'pt platform \<times> mmuArgs" where
  "newPlatform G swAddr exAddr =
     (let up = newUpper G; kpt = newKernelPT G up in
      (push_bit 48 1, \<lparr>upper = up, kernelPT = kpt, switcher = zeroSwitch, switcherAddr = swAddr, exStackAddr = exAddr\<rparr>,
       \<lparr>mmuTTBR0 = TTBR0_EL1 G kpt 1, mmuTTBR1 = TTBR1_EL1 G kpt 1, mmuTCR = tcrEL1, mmuMAIR = mairEL1,
        mmuVBAR = KernelStartAddress G OR addrOfVectors G, mmuTPIDR = KernelStartAddress G OR swAddr\<rparr>))"

text \<open>The constant answers.\<close>

definition MapUnit :: u64 where "MapUnit = push_bit 20 16"
definition MinUserAddress :: "('pt, 'm) gvisor \<Rightarrow> u64" where "MinUserAddress G = PageSize G"
definition MaxUserAddress :: "('pt, 'm) gvisor \<Rightarrow> u64" where "MaxUserAddress G = MaximumUserAddress G"

definition SupportsAddressSpaceIO :: bool where "SupportsAddressSpaceIO = False"
definition HaveGlobalMemoryBarrier :: bool where "HaveGlobalMemoryBarrier = False"
definition GlobalMemoryBarrier :: "('e, unit) result" where "GlobalMemoryBarrier = Inl Panic"
definition ConcurrencyCount :: int where "ConcurrencyCount = 1"
definition PlatformName :: string where "PlatformName = ''tamago-ring0''"

definition NewAddressSpace :: "('pt, 'm) gvisor \<Rightarrow> 'pt platform \<Rightarrow> 'pt" where
  "NewAddressSpace G p = ptNewWithUpper G (upper p)"

section \<open>Address spaces\<close>

datatype 'e map_error = MapInternal 'e | UnalignedBacking u64 u64

text \<open>
  The loop of \<^verbatim>\<open>MapFile\<close> over the blocks of internal mappings (address and length). An unaligned
  block stops it with the earlier ones mapped.
\<close>

fun mapBlocks :: "('pt, 'm) gvisor \<Rightarrow> mapOpts \<Rightarrow> u64 \<Rightarrow> (u64 \<times> u64) list \<Rightarrow> 'pt \<Rightarrow> 'e map_error option \<times> 'pt" where
  "mapBlocks G opts addr [] pt = (None, pt)"
| "mapBlocks G opts addr ((baddr, len) # blocks) pt =
     (if baddr AND (PageSize G - 1) \<noteq> 0 \<or> len AND (PageSize G - 1) \<noteq> 0
      then (Some (UnalignedBacking baddr len), pt)
      else mapBlocks G opts (addr + len) blocks (ptMap G addr len opts baddr pt))"

text \<open>
  \<^verbatim>\<open>MapFile\<close>: \<open>mapInternal\<close> and \<open>mt\<close> are the file's \<^verbatim>\<open>MapInternal\<close> and \<^verbatim>\<open>MemoryType\<close>. The last
  component says whether the TLB was flushed.
\<close>

definition MapFile :: "('pt, 'm) gvisor \<Rightarrow> u64 \<Rightarrow> (accessType \<Rightarrow> 'e + (u64 \<times> u64) list) \<Rightarrow> memoryType \<Rightarrow>
    accessType \<Rightarrow> bool \<Rightarrow> 'pt \<Rightarrow> 'e map_error option \<times> 'pt \<times> bool" where
  "MapFile G addr mapInternal mt acc precommit pt =
     (case mapInternal \<lparr>aRead = aRead acc \<or> aExecute acc \<or> precommit, aWrite = aWrite acc, aExecute = False\<rparr> of
        Inl err \<Rightarrow> (Some (MapInternal err), pt, False)
      | Inr blocks \<Rightarrow>
          (case mapBlocks G \<lparr>AccessType = acc, Global = False, User = True, MemoryType = mt\<rparr> addr blocks pt of
             (Some err, pt) \<Rightarrow> (Some err, pt, False)
           | (None, pt) \<Rightarrow> (None, pt, True)))"

text \<open>\<open>ptUnmap\<close> is the page tables' \<^verbatim>\<open>Unmap\<close> and their allocator's \<^verbatim>\<open>Recycle\<close>. \<^verbatim>\<open>Unmap\<close> flushes the TLB afterwards; \<^verbatim>\<open>Release\<close> unmaps the user half.\<close>

definition unmapSpace :: "('pt, 'm) gvisor \<Rightarrow> u64 \<Rightarrow> u64 \<Rightarrow> 'pt \<Rightarrow> 'pt \<times> bool" where
  "unmapSpace G addr len pt = (ptUnmap G addr len pt, True)"

definition releaseSpace :: "('pt, 'm) gvisor \<Rightarrow> 'pt \<Rightarrow> 'pt \<times> bool" where
  "releaseSpace G pt = unmapSpace G 0 (KernelStartAddress G) pt"

section \<open>Switching to EL0\<close>

datatype ring0Vector = Syscall | PageFault | El0SyncInv

definition classify :: "u64 \<Rightarrow> ring0Vector" where
  "classify esr =
     (let ec = drop_bit 26 esr AND 0x3f in
      if ec = 0x15 then Syscall
      else if ec = 0x20 \<or> ec = 0x24 then PageFault
      else El0SyncInv)"

definition loadSwitch :: "('pt, 'm) gvisor \<Rightarrow> 'pt platform \<Rightarrow> 'pt \<Rightarrow> ctx \<Rightarrow> switchState" where
  "loadSwitch G p pt ac =
     (switcher p)\<lparr>UserRegs := copy_at (UserRegs (switcher p)) 0 (Regs ac), UserSP := Sp ac, UserPC := Pc ac,
        UserPstate := Pstate ac, UserTLS := TLS ac, KernelTTBR := TTBR0_EL1 G (kernelPT p) 1,
        AppTTBR := TTBR0_EL1 G pt 2, ExceptionSP := KernelStartAddress G OR (exStackAddr p + 4096),
        Vector := 0, ESR := 0, FAR := 0\<rparr>"

definition storeSwitch :: "switchState \<Rightarrow> ctx \<Rightarrow> ctx" where
  "storeSwitch s ac = \<lparr>Regs = copy_at (Regs ac) 0 (UserRegs s), Sp = UserSP s, Pc = UserPC s,
     Pstate = UserPstate s, TLS = UserTLS s\<rparr>"

text \<open>\<open>runUser\<close> stands for all that follows the loading: the flush of the TLB and the assembly routine.\<close>

definition switchToUser :: "('pt, 'm) gvisor \<Rightarrow> 'pt platform \<Rightarrow> 'pt \<Rightarrow> ctx \<Rightarrow> 'm \<Rightarrow>
    ring0Vector \<times> 'pt platform \<times> ctx \<times> 'm" where
  "switchToUser G p pt ac m =
     (let (s, m) = runUser G (loadSwitch G p pt ac) m in
      (classify (ESR s), p\<lparr>switcher := s\<rparr>, storeSwitch s ac, m))"

text \<open>\<^verbatim>\<open>Switch\<close>'s results: a system call to handle, a fault with its signal, or an unexpected exception.\<close>

record signalInfo =
  Signo :: int
  Code :: int
  sigAddr :: u64

datatype switchResult = SwitchSyscall | SwitchFault signalInfo accessType | SwitchError ring0Vector | UnexpectedAddressSpace

text \<open>\<open>aspace\<close> is the memory manager's address space, \<open>None\<close> when it is of another platform.\<close>

definition Switch :: "('pt, 'm) gvisor \<Rightarrow> 'pt platform \<Rightarrow> 'pt option \<Rightarrow> ctx \<Rightarrow> 'm \<Rightarrow>
    switchResult \<times> 'pt platform \<times> ctx \<times> 'm" where
  "Switch G p aspace ac m =
     (case aspace of
        None \<Rightarrow> (UnexpectedAddressSpace, p, ac, m)
      | Some pt \<Rightarrow>
          let (vector, p, ac, m) = switchToUser G p pt ac m in
          (case vector of
             Syscall \<Rightarrow> (SwitchSyscall, p, ac, m)
           | PageFault \<Rightarrow> (SwitchFault \<lparr>Signo = 11, Code = 1, sigAddr = FAR (switcher p)\<rparr>
               (ESRAccessType G (ESR (switcher p))), p, ac, m)
           | El0SyncInv \<Rightarrow> (SwitchError vector, p, ac, m)))"

section \<open>The boot smoke test\<close>

datatype smoke_error = SmokeVector ring0Vector | InvalidWrite u64 u64 u64 | UnexpectedSyscall u64 | NoExit

definition userBase :: u64 where "userBase = 0x400000"
definition dataBase :: u64 where "dataBase = 0x500000"

text \<open>
  \<^verbatim>\<open>s[i:i+n]\<close> with 64-bit signed indices on a slice of the given capacity, as the loop computes it
  from an unchecked length.
\<close>

definition sliceInt :: "bytes \<Rightarrow> u64 \<Rightarrow> u64 \<Rightarrow> ('e, bytes) result" where
  "sliceInt page off len =
     (if 0 \<le> sint off \<and> sint off \<le> sint (off + len) \<and> sint (off + len) \<le> int (length page)
      then Inr (slice page (nat (sint off)) (nat (sint (off + len)))) else Inl Panic)"

text \<open>
  The loop over at most four exits; \<open>readPage\<close> is the content of the data page, with the rest of its
  slice's capacity, in the machine's memory.
\<close>

fun smokeLoop :: "nat \<Rightarrow> ('pt, 'm) gvisor \<Rightarrow> ('m \<Rightarrow> bytes) \<Rightarrow> 'pt platform \<Rightarrow> 'pt \<Rightarrow> ctx \<Rightarrow> 'm \<Rightarrow> bytes \<Rightarrow>
    (smoke_error, bytes) result \<times> 'pt platform \<times> 'm" where
  "smokeLoop 0 G readPage p pt ac m output = (Inl (Err NoExit), p, m)"
| "smokeLoop (Suc n) G readPage p pt ac m output =
     (let (vector, p, ac, m) = switchToUser G p pt ac m in
      if vector \<noteq> Syscall then (Inl (Err (SmokeVector vector)), p, m)
      else
        let ac = SyscallSaveOrig G ac; args = SyscallArgs G ac; no = SyscallNo G ac in
        if no = 64 then
          let fd = args ! 0; addr = args ! 1; len = args ! 2 in
          if fd \<noteq> 1 \<or> addr < dataBase \<or> addr + len > dataBase + PageSize G
          then (Inl (Err (InvalidWrite fd addr len)), p, m)
          else (case sliceInt (readPage m) (addr - dataBase) len of
              Inl e \<Rightarrow> (Inl e, p, m)
            | Inr bs \<Rightarrow> smokeLoop n G readPage p pt (SetReturn G len ac) m (output @ bs))
        else if no = 93 then (Inr output, p, m)
        else (Inl (Err (UnexpectedSyscall no)), p, m))"

definition smokeMap :: "('pt, 'm) gvisor \<Rightarrow> 'pt platform \<Rightarrow> u64 \<Rightarrow> 'pt" where
  "smokeMap G p pagePhysical =
     (let entryPage = addrOfSmokeEntry G AND NOT (PageSize G - 1);
          pt = NewAddressSpace G p;
          pt = ptMap G userBase (PageSize G)
            \<lparr>AccessType = ReadExecute, Global = False, User = True, MemoryType = MemoryTypeWriteBack\<rparr> entryPage pt
      in ptMap G dataBase (PageSize G)
            \<lparr>AccessType = ReadWrite, Global = False, User = True, MemoryType = MemoryTypeWriteBack\<rparr> pagePhysical pt)"

text \<open>
  \<open>writePage\<close> is \<^verbatim>\<open>copy(page, message)\<close> on the page found in fresh storage. The last component of the
  result is the address space as the deferred \<^verbatim>\<open>Release\<close> leaves it.
\<close>

definition RunEL0Smoke :: "('pt, 'm) gvisor \<Rightarrow> ('m \<Rightarrow> bytes) \<Rightarrow> (bytes \<Rightarrow> 'm \<Rightarrow> 'm) \<Rightarrow> u64 \<Rightarrow> 'pt platform \<Rightarrow> 'm \<Rightarrow>
    (smoke_error, bytes) result \<times> 'pt platform \<times> 'm \<times> 'pt" where
  "RunEL0Smoke G readPage writePage storageAddr p m =
     (let offset = (- storageAddr) AND (PageSize G - 1);
          m = writePage sentryHello m;
          entryPhysical = addrOfSmokeEntry G;
          entryPage = entryPhysical AND NOT (PageSize G - 1);
          entryOffset = entryPhysical - entryPage;
          pt = smokeMap G p (storageAddr + offset);
          ac = SetStack G (dataBase + PageSize G - 16) (SetIP G (userBase + entryOffset) (archNew G));
          (r, p, m) = smokeLoop 4 G readPage p pt ac m []
      in (r, p, m, fst (releaseSpace G pt)))"

section \<open>What the page tables promise\<close>

text \<open>
  A translation view \<open>tr\<close> of page tables, whether they are marked read-only shared (\<open>ro\<close>), and whether their
  upper half is their own (\<open>own\<close>) and not another table's. The laws are the documented contract of gVisor's
  tables and claim nothing outside of it: \<^verbatim>\<open>Map\<close> is used on tables that are not read-only, for page-aligned
  ranges that lie in the user half, or in an upper half of the table's own, and end before \<open>2 ^ 64\<close>, over
  physical addresses of 48 bits. Without any access it unmaps the range; otherwise the entries are
  present, which on this architecture makes them readable. \<^verbatim>\<open>NewWithUpper\<close> takes a read-only table
  and shares the mappings of its upper half.
\<close>

type_synonym 'pt view = "'pt \<Rightarrow> u64 \<Rightarrow> (u64 \<times> mapOpts) option"

definition anyAccess :: "mapOpts \<Rightarrow> bool" where
  "anyAccess opts \<longleftrightarrow> AccessType opts \<noteq> NoAccess"

definition entryOf :: "u64 \<Rightarrow> mapOpts \<Rightarrow> (u64 \<times> mapOpts) option" where
  "entryOf b opts = (if anyAccess opts then Some (b, opts\<lparr>AccessType := (AccessType opts)\<lparr>aRead := True\<rparr>\<rparr>) else None)"

definition mapLaws :: "('pt, 'm) gvisor \<Rightarrow> 'pt view \<Rightarrow> ('pt \<Rightarrow> bool) \<Rightarrow> ('pt \<Rightarrow> bool) \<Rightarrow> bool" where
  "mapLaws G tr ro own \<longleftrightarrow> PageSize G = 4096 \<and> KernelStartAddress G = 0xffff000000000000 \<and>
     2 ^ 32 \<le> unat (MaximumUserAddress G) \<and> unat (MaximumUserAddress G) \<le> 2 ^ 48 \<and>
     (\<forall>a l opts b pt x. \<not> ro pt \<longrightarrow> take_bit 12 a = 0 \<longrightarrow> take_bit 12 l = 0 \<longrightarrow> take_bit 12 b = 0 \<longrightarrow>
        unat b + unat l \<le> 2 ^ 48 \<longrightarrow>
        unat a + unat l \<le> unat (MaximumUserAddress G) \<or> own pt \<and> KernelStartAddress G \<le> a \<and> unat a + unat l < 2 ^ 64 \<longrightarrow>
        tr (ptMap G a l opts b pt) x = (if x - a < l then entryOf (b + (x - a)) opts else tr pt x)) \<and>
     (\<forall>a l opts b pt. \<not> ro pt \<longrightarrow> \<not> ro (ptMap G a l opts b pt) \<and> own (ptMap G a l opts b pt) = own pt) \<and>
     (\<forall>pt. tr (ptReadOnly G pt) = tr pt \<and> ro (ptReadOnly G pt)) \<and>
     tr (ptNew G) = (\<lambda>_. None) \<and> \<not> ro (ptNew G) \<and> own (ptNew G) \<and>
     (\<forall>up x. ro up \<longrightarrow> tr (ptNewWithUpper G up) x = (if KernelStartAddress G \<le> x then tr up x else None)) \<and>
     (\<forall>up. ro up \<longrightarrow> \<not> ro (ptNewWithUpper G up))"

lemma mapLaws_Map:
  assumes "mapLaws G tr ro own" "\<not> ro pt" "take_bit 12 a = 0" "take_bit 12 l = 0" "take_bit 12 b = 0"
    and "unat b + unat l \<le> 2 ^ 48"
    and "unat a + unat l \<le> unat (MaximumUserAddress G) \<or> own pt \<and> KernelStartAddress G \<le> a \<and> unat a + unat l < 2 ^ 64"
  shows "tr (ptMap G a l opts b pt) x = (if x - a < l then entryOf (b + (x - a)) opts else tr pt x)"
  using assms unfolding mapLaws_def by blast

lemma mapLaws_rest:
  assumes "mapLaws G tr ro own"
  shows "PageSize G = 4096" "tr (ptReadOnly G pt) = tr pt" "KernelStartAddress G = 0xffff000000000000"
    "tr (ptNew G) x = None" "ro up \<Longrightarrow> tr (ptNewWithUpper G up) x = (if 0xffff000000000000 \<le> x then tr up x else None)"
    "ro (ptReadOnly G pt)" "\<not> ro (ptNew G)" "own (ptNew G)" "ro up \<Longrightarrow> \<not> ro (ptNewWithUpper G up)"
    "\<not> ro pt \<Longrightarrow> \<not> ro (ptMap G a l opts b pt)"
    "2 ^ 32 \<le> unat (MaximumUserAddress G)" "unat (MaximumUserAddress G) \<le> 2 ^ 48"
  using assms unfolding mapLaws_def by simp_all

lemma entryOf_any [simp]: "entryOf b deviceOpts = Some (b, deviceOpts)" "entryOf b ramOpts = Some (b, ramOpts)"
  by (simp_all add: entryOf_def anyAccess_def deviceOpts_def ramOpts_def AnyAccess_def NoAccess_def)

lemma aligned_iff: "(w :: u64) AND (4096 - 1) = 0 \<longleftrightarrow> take_bit 12 w = 0"
proof -
  have "(4096 - 1 :: u64) = mask 12" by (simp add: mask_eq_exp_minus_1)
  then show ?thesis by (simp only: take_bit_eq_mask)
qed

lemma aligned_dvd: "take_bit 12 (w :: u64) = 0 \<longleftrightarrow> 4096 dvd unat w"
proof -
  have "unat (take_bit 12 w) = unat w mod 4096" by (simp add: take_bit_eq_mod unat_mod)
  then show ?thesis by (metis dvd_eq_mod_eq_0 unat_eq_zero)
qed

text \<open>The physical address behind an offset into a list of blocks.\<close>

fun blockAt :: "(u64 \<times> u64) list \<Rightarrow> nat \<Rightarrow> u64" where
  "blockAt [] off = 0"
| "blockAt ((b, len) # blocks) off =
     (if off < unat len then b + word_of_nat off else blockAt blocks (off - unat len))"

definition blocksLen :: "(u64 \<times> u64) list \<Rightarrow> nat" where
  "blocksLen blocks = sum_list (map (unat \<circ> snd) blocks)"

definition alignedBlock :: "u64 \<times> u64 \<Rightarrow> bool" where
  "alignedBlock bl \<longleftrightarrow> take_bit 12 (fst bl) = 0 \<and> take_bit 12 (snd bl) = 0"

definition physBlock :: "u64 \<times> u64 \<Rightarrow> bool" where
  "physBlock bl \<longleftrightarrow> unat (fst bl) + unat (snd bl) \<le> 2 ^ 48"

lemma blocksLen_simps [simp]: "blocksLen [] = 0" "blocksLen ((b, len) # blocks) = unat len + blocksLen blocks"
  by (simp_all add: blocksLen_def)

lemma sub_word_of_nat:
  fixes x a :: u64
  assumes "unat (x - a) = k" "n \<le> k"
  shows "unat (x - (a + word_of_nat n)) = k - n"
proof -
  have n: "n < 2 ^ 64" using assms unsigned_less [of "x - a", where 'a = nat] by simp
  have eq: "x - (a + word_of_nat n) = (x - a) - word_of_nat n" by (simp add: algebra_simps)
  have u: "unat (word_of_nat n :: u64) = n" using n by (intro unat_word_of_nat_small) simp
  then have "word_of_nat n \<le> x - a" using assms by (simp add: word_le_nat_alt)
  then show ?thesis using assms(1) u by (simp only: eq unat_sub)
qed

lemma aligned_add: "take_bit 12 a = 0 \<Longrightarrow> take_bit 12 l = 0 \<Longrightarrow> take_bit 12 (a + l :: u64) = 0"
  by (simp add: aligned_dvd unat_word_ariths dvd_mod_iff)

lemma word_before_block:
  fixes x a l :: u64
  assumes "unat (x - a) < unat l" "unat a + unat l + n \<le> 2 ^ 64"
  shows "\<not> unat (x - (a + l)) < n"
proof -
  have eq: "x - (a + l) = (x - a) - l" by (simp add: algebra_simps)
  have lt: "x - a < l" using assms(1) by (simp add: word_less_nat_alt)
  have "unat ((x - a) - l) = unat (x - a) + (2 ^ 64 - unat l)"
  proof -
    have "unat l < 2 ^ 64" using unsigned_less [of l, where 'a = nat] by simp
    then show ?thesis using lt unat_sub_if' [of "x - a" l] assms(1) by (simp add: word_le_nat_alt)
  qed
  then show ?thesis using assms(2) by (simp add: eq)
qed

lemma mapBlocks_aligned:
  assumes laws: "mapLaws G tr ro own"
  shows "list_all alignedBlock blocks \<Longrightarrow> take_bit 12 addr = 0 \<Longrightarrow> \<not> ro pt \<Longrightarrow> list_all physBlock blocks \<Longrightarrow>
      unat addr + blocksLen blocks \<le> unat (MaximumUserAddress G) \<Longrightarrow>
    fst (mapBlocks G opts addr blocks pt) = None \<and>
    tr (snd (mapBlocks G opts addr blocks pt)) x =
      (if unat (x - addr) < blocksLen blocks then entryOf (blockAt blocks (unat (x - addr))) opts else tr pt x)"
proof (induction blocks arbitrary: addr pt)
  case (Cons bl blocks)
  obtain b len where bl: "bl = (b, len)" by fastforce
  from Cons.prems bl have al: "take_bit 12 b = 0" "take_bit 12 len = 0" and rest: "list_all alignedBlock blocks"
    by (simp_all add: alignedBlock_def [of "(b, len)"])
  from Cons.prems(5) bl have user: "unat addr + unat len + blocksLen blocks \<le> unat (MaximumUserAddress G)" by simp
  with mapLaws_rest(12) [OF laws] have size: "unat addr + unat len + blocksLen blocks \<le> 2 ^ 64" by simp
  have next_addr: "unat (addr + len) + blocksLen blocks \<le> unat (MaximumUserAddress G)"
    using user mapLaws_rest(12) [OF laws] by (simp add: unat_word_ariths)
  have phys: "unat b + unat len \<le> 2 ^ 48" "list_all physBlock blocks" using Cons.prems(4)
    by (simp_all add: bl physBlock_def [of "(b, len)"])
  have rw: "\<not> ro (ptMap G addr len opts b pt)" using mapLaws_rest(10) [OF laws Cons.prems(3)] .
  have ps: "PageSize G = 4096" using laws by (simp add: mapLaws_def)
  have step: "mapBlocks G opts addr (bl # blocks) pt = mapBlocks G opts (addr + len) blocks (ptMap G addr len opts b pt)"
    using al by (simp add: bl ps aligned_iff [simplified])
  have one: "tr (ptMap G addr len opts b pt) x = (if x - addr < len then entryOf (b + (x - addr)) opts else tr pt x)"
    using user by (intro mapLaws_Map [OF laws] al Cons.prems(2,3) phys(1)) simp
  note IH = Cons.IH [OF rest aligned_add [OF Cons.prems(2) al(2)] rw phys(2) next_addr]
  show ?case
  proof (cases "x - addr < len")
    case True
    then have "unat (x - addr) < unat len" by (simp add: word_less_nat_alt)
    with word_before_block [OF this size] IH one True show ?thesis by (simp add: step) (simp add: bl)
  next
    case False
    then have ge: "unat len \<le> unat (x - addr)" by (simp add: word_less_nat_alt)
    have "unat (x - (addr + len)) = unat (x - addr) - unat len"
      using sub_word_of_nat [OF refl ge] by simp
    with IH one False ge show ?thesis by (simp add: step) (auto simp: bl)
  qed
qed simp

lemma mapBlocks_prefix:
  assumes "PageSize G = 4096"
  shows "mapBlocks G opts addr blocks pt =
    (case dropWhile alignedBlock blocks of [] \<Rightarrow> None | (b, len) # _ \<Rightarrow> Some (UnalignedBacking b len),
     snd (mapBlocks G opts addr (takeWhile alignedBlock blocks) pt :: 'e map_error option \<times> 'pt))"
  by (induction blocks arbitrary: addr pt) (auto simp: assms alignedBlock_def aligned_iff [simplified])

section \<open>What the smoke test observes\<close>

text \<open>A write the test's own check lets through, and one whose end wraps past \<open>2 ^ 64\<close>.\<close>

definition passesCheck :: "('pt, 'm) gvisor \<Rightarrow> ring0Vector \<times> ctx \<times> bytes \<Rightarrow> bool" where
  "passesCheck G e = (case e of (vector, ac, page) \<Rightarrow>
     let args = SyscallArgs G ac in
     vector = Syscall \<and> SyscallNo G ac = 64 \<and> args ! 0 = 1 \<and> dataBase \<le> args ! 1 \<and> args ! 1 + args ! 2 \<le> dataBase + 4096)"

definition wraps :: "('pt, 'm) gvisor \<Rightarrow> ring0Vector \<times> ctx \<times> bytes \<Rightarrow> bool" where
  "wraps G e = (case e of (vector, ac, page) \<Rightarrow>
     let args = SyscallArgs G ac in 2 ^ 64 \<le> unat (args ! 1) + unat (args ! 2))"

definition writeData :: "('pt, 'm) gvisor \<Rightarrow> ring0Vector \<times> ctx \<times> bytes \<Rightarrow> bytes" where
  "writeData G e = (case e of (vector, ac, page) \<Rightarrow>
     let args = SyscallArgs G ac; off = unat (args ! 1) - 0x500000 in slice page off (off + unat (args ! 2)))"

text \<open>The exits of the user program: vector, context and data page, up to the first that is not a write
  the loop accepts.\<close>

fun smokeExits :: "nat \<Rightarrow> ('pt, 'm) gvisor \<Rightarrow> ('m \<Rightarrow> bytes) \<Rightarrow> 'pt platform \<Rightarrow> 'pt \<Rightarrow> ctx \<Rightarrow> 'm \<Rightarrow>
    (ring0Vector \<times> ctx \<times> bytes) list" where
  "smokeExits 0 G readPage p pt ac m = []"
| "smokeExits (Suc n) G readPage p pt ac m =
     (let (vector, p, ac, m) = switchToUser G p pt ac m; ac = SyscallSaveOrig G ac in
      (vector, ac, readPage m) #
      (if passesCheck G (vector, ac, readPage m) \<and> \<not> wraps G (vector, ac, readPage m)
       then smokeExits n G readPage p pt (SetReturn G (SyscallArgs G ac ! 2) ac) m else []))"

lemma sint_small: "unat (w :: u64) = n \<Longrightarrow> n < 2 ^ 63 \<Longrightarrow> sint w = int n"
proof -
  assume a: "unat w = n" "n < 2 ^ 63"
  then have "uint w = int n" by auto
  with a(2) have "signed_take_bit 63 (uint w) = uint w" by (intro signed_take_bit_int_eq_self) simp_all
  with \<open>uint w = int n\<close> show ?thesis by (simp add: sint_uint)
qed

lemma sint_large:
  assumes "unat (w :: u64) = n" "2 ^ 63 \<le> n"
  shows "sint w = int n - 2 ^ 64"
proof -
  have "n < 2 ^ 64" using unsigned_less [of w, where 'a = nat] assms(1) by simp
  then have "take_bit 64 (int n + 2 ^ 63) = int n + 2 ^ 63 - 2 ^ 64"
    using assms(2) by (simp add: take_bit_eq_mod mod_pos_geq)
  moreover have "uint w = int n" using assms(1) by auto
  ultimately show ?thesis by (simp add: sint_uint signed_take_bit_eq_take_bit_shift)
qed

lemma sliceInt_cases:
  fixes addr len :: u64
  assumes "dataBase \<le> addr" "addr + len \<le> dataBase + 4096" "4096 \<le> length page"
  shows "sliceInt page (addr - dataBase) len =
    (if 2 ^ 64 \<le> unat addr + unat len then Inl Panic
     else Inr (slice page (unat addr - 0x500000) (unat addr - 0x500000 + unat len)))"
proof -
  define n where "n = unat addr - 0x500000"
  define l where "l = unat len"
  have a: "unat addr = n + 0x500000" "unat (addr - dataBase) = n" "unat len = l"
    using assms(1) by (simp_all add: dataBase_def unat_sub word_le_nat_alt n_def l_def)
  have lt: "n + 0x500000 < 2 ^ 64" "l < 2 ^ 64"
    using unsigned_less [of addr, where 'a = nat] unsigned_less [of len, where 'a = nat] a by simp_all
  have sum: "unat (addr + len) = (n + 0x500000 + l) mod 2 ^ 64" "unat (addr - dataBase + len) = (n + l) mod 2 ^ 64"
    by (simp_all only: unat_word_ariths a len_of_numeral_defs) simp_all
  show ?thesis
  proof (cases "2 ^ 64 \<le> n + 0x500000 + l")
    case False
    with sum have le: "n + l \<le> 4096" using assms(2) by (simp add: word_le_nat_alt dataBase_def)
    moreover have "unat (addr - dataBase + len) = n + l" using le sum by simp
    ultimately have "sint (addr - dataBase) = int n" "sint (addr - dataBase + len) = int (n + l)"
      using sint_small [OF a(2)] sint_small [of "addr - dataBase + len" "n + l"] by simp_all
    then show ?thesis
      using False le assms(3) a by (simp add: sliceInt_def nat_int_add)
  next
    case True
    have "\<not> (0 \<le> sint (addr - dataBase) \<and> sint (addr - dataBase) \<le> sint (addr - dataBase + len))"
    proof (cases "n < 2 ^ 63")
      case False
      then show ?thesis using sint_large [OF a(2)] lt by simp
    next
      case off: True
      show ?thesis
      proof (cases "n + l < 2 ^ 64")
        case T: True
        then have "unat (addr - dataBase + len) = n + l" using sum by simp
        then show ?thesis using sint_large [of "addr - dataBase + len" "n + l"] T True by simp
      next
        case F: False
        then have u: "unat (addr - dataBase + len) = n + l - 2 ^ 64"
        proof -
          have "(n + l) mod 2 ^ 64 = (n + l - 2 ^ 64) mod 2 ^ 64" using F by (intro le_mod_geq) simp
          moreover have "n + l - 2 ^ 64 < 2 ^ 64" using lt by simp
          ultimately show ?thesis using sum(2) by simp
        qed
        moreover have "n + l - 2 ^ 64 < n" using lt F by simp
        ultimately have "sint (addr - dataBase + len) = int (n + l - 2 ^ 64)" using off by (intro sint_small) simp_all
        then show ?thesis using sint_small [OF a(2) off] \<open>n + l - 2 ^ 64 < n\<close> by simp
      qed
    qed
    then show ?thesis using True a by (auto simp: sliceInt_def)
  qed
qed

lemma smokeLoop_exits:
  assumes G: "PageSize G = 4096" and page: "\<And>m. 4096 \<le> length (readPage m)"
  shows "case fst (smokeLoop n G readPage p pt ac m acc) of
      Inl Panic \<Rightarrow> list_ex (\<lambda>e. passesCheck G e \<and> wraps G e) (smokeExits n G readPage p pt ac m)
    | Inl (Err err) \<Rightarrow> list_all (\<lambda>e. passesCheck G e \<longrightarrow> \<not> wraps G e) (smokeExits n G readPage p pt ac m)
    | Inr out \<Rightarrow> \<exists>ws l. smokeExits n G readPage p pt ac m = ws @ [l] \<and> fst l = Syscall \<and> SyscallNo G (fst (snd l)) = 93 \<and>
        list_all (\<lambda>e. passesCheck G e \<and> \<not> wraps G e) ws \<and> out = acc @ concat (map (writeData G) ws)"
proof (induction n arbitrary: p ac m acc)
  case (Suc n)
  obtain v p1 ac1 m1 where sw: "switchToUser G p pt ac m = (v, p1, ac1, m1)" by (metis prod_cases4)
  define c where "c = SyscallSaveOrig G ac1"
  define args where "args = SyscallArgs G c"
  define e where "e = (v, c, readPage m1)"
  consider (vec) "v \<noteq> Syscall" | (wr) "v = Syscall" "SyscallNo G c = 64" | (exit) "v = Syscall" "SyscallNo G c = 93"
    | (other) "v = Syscall" "SyscallNo G c \<noteq> 64" "SyscallNo G c \<noteq> 93" by blast
  then show ?case
  proof cases
    case wr
    have check: "passesCheck G e \<longleftrightarrow> \<not> (args ! 0 \<noteq> 1 \<or> args ! 1 < dataBase \<or> args ! 1 + args ! 2 > dataBase + 4096)"
      using wr by (auto simp: passesCheck_def e_def args_def Let_def not_less)
    have loop: "smokeLoop (Suc n) G readPage p pt ac m acc =
        (if \<not> passesCheck G e then (Inl (Err (InvalidWrite (args ! 0) (args ! 1) (args ! 2))), p1, m1)
         else (case sliceInt (readPage m1) (args ! 1 - dataBase) (args ! 2) of
             Inl err \<Rightarrow> (Inl err, p1, m1)
           | Inr bs \<Rightarrow> smokeLoop n G readPage p1 pt (SetReturn G (args ! 2) c) m1 (acc @ bs)))"
      using wr by (simp add: sw Let_def check G args_def c_def split: sum.split)
    have exits: "smokeExits (Suc n) G readPage p pt ac m =
        e # (if passesCheck G e \<and> \<not> wraps G e then smokeExits n G readPage p1 pt (SetReturn G (args ! 2) c) m1 else [])"
      by (simp add: sw Let_def e_def flip: c_def args_def)
    show ?thesis
    proof (cases "passesCheck G e")
      case False
      then show ?thesis unfolding loop exits by simp
    next
      case True
      then have "dataBase \<le> args ! 1" "args ! 1 + args ! 2 \<le> dataBase + 4096" by (auto simp: check)
      note sl = sliceInt_cases [OF this page [of m1]]
      have w: "wraps G e \<longleftrightarrow> 2 ^ 64 \<le> unat (args ! 1) + unat (args ! 2)"
        by (simp add: wraps_def e_def args_def Let_def)
      show ?thesis
      proof (cases "wraps G e")
        case True
        with w have "sliceInt (readPage m1) (args ! 1 - dataBase) (args ! 2) = (Inl Panic :: (smoke_error, bytes) result)"
          by (simp only: sl if_True)
        then show ?thesis using True \<open>passesCheck G e\<close> unfolding loop exits by simp
      next
        case False
        with w have "sliceInt (readPage m1) (args ! 1 - dataBase) (args ! 2) = (Inr (writeData G e) :: (smoke_error, bytes) result)"
          by (simp only: sl if_False) (simp add: writeData_def e_def args_def Let_def)
        then have l: "smokeLoop (Suc n) G readPage p pt ac m acc =
            smokeLoop n G readPage p1 pt (SetReturn G (args ! 2) c) m1 (acc @ writeData G e)"
          using \<open>passesCheck G e\<close> unfolding loop by simp
        have x: "smokeExits (Suc n) G readPage p pt ac m = e # smokeExits n G readPage p1 pt (SetReturn G (args ! 2) c) m1"
          using False \<open>passesCheck G e\<close> unfolding exits by simp
        show ?thesis
        proof (cases "fst (smokeLoop n G readPage p1 pt (SetReturn G (args ! 2) c) m1 (acc @ writeData G e))")
          case (Inl err)
          then show ?thesis using Suc.IH [of p1 "SetReturn G (args ! 2) c" m1 "acc @ writeData G e"] False
            unfolding l x Inl by (cases err) auto
        next
          case (Inr out)
          then obtain ws l1 where "smokeExits n G readPage p1 pt (SetReturn G (args ! 2) c) m1 = ws @ [l1] \<and> fst l1 = Syscall \<and>
              SyscallNo G (fst (snd l1)) = 93 \<and> list_all (\<lambda>e. passesCheck G e \<and> \<not> wraps G e) ws \<and>
              out = (acc @ writeData G e) @ concat (map (writeData G) ws)"
            using Suc.IH [of p1 "SetReturn G (args ! 2) c" m1 "acc @ writeData G e"] by auto
          then have "e # smokeExits n G readPage p1 pt (SetReturn G (args ! 2) c) m1 = (e # ws) @ [l1] \<and> fst l1 = Syscall \<and>
              SyscallNo G (fst (snd l1)) = 93 \<and> list_all (\<lambda>e. passesCheck G e \<and> \<not> wraps G e) (e # ws) \<and>
              out = acc @ concat (map (writeData G) (e # ws))"
            using False \<open>passesCheck G e\<close> by simp
          then show ?thesis unfolding l x Inr by auto
        qed
      qed
    qed
  qed (auto simp: sw Let_def passesCheck_def simp flip: c_def)
qed simp

section \<open>Properties\<close>

text \<open>C27: mapping a file into the user half of an application's tables installs the file's blocks, one after
  another from the address on, up to the first one that is not page-aligned, and fails exactly when there
  is one, with the earlier blocks left mapped and no TLB flush; every other address translates as before.
  The entries have the access asked for and are readable; with no access at all the range ends unmapped.\<close>

theorem map_file:
  fixes G :: "('pt, 'm) gvisor" and mapInternal :: "accessType \<Rightarrow> 'e + (u64 \<times> u64) list"
  assumes laws: "mapLaws G tr ro own" and addr: "take_bit 12 addr = 0" and rw: "\<not> ro pt"
    and blocks: "mapInternal \<lparr>aRead = aRead acc \<or> aExecute acc \<or> precommit, aWrite = aWrite acc, aExecute = False\<rparr> = Inr blocks"
    and size: "unat addr + blocksLen blocks \<le> unat (MaximumUserAddress G)" and phys: "list_all physBlock blocks"
  shows "let good = takeWhile alignedBlock blocks;
             (err, pt', flushed) = MapFile G addr mapInternal mt acc precommit pt
         in err = (case dropWhile alignedBlock blocks of [] \<Rightarrow> None | (b, len) # _ \<Rightarrow> Some (UnalignedBacking b len)) \<and>
            flushed = (err = None) \<and>
            tr pt' x = (if unat (x - addr) < blocksLen good
              then (if acc = NoAccess then None
                else Some (blockAt good (unat (x - addr)),
                  \<lparr>AccessType = acc\<lparr>aRead := True\<rparr>, Global = False, User = True, MemoryType = mt\<rparr>))
              else tr pt x)"
proof -
  define good where "good = takeWhile alignedBlock blocks"
  have "list_all alignedBlock good" unfolding good_def by (auto simp: list_all_iff dest: set_takeWhileD)
  moreover have "blocksLen good \<le> blocksLen blocks"
  proof -
    have "blocksLen blocks = blocksLen good + blocksLen (dropWhile alignedBlock blocks)"
      unfolding good_def blocksLen_def by (metis map_append sum_list_append takeWhile_dropWhile_id)
    then show ?thesis by simp
  qed
  ultimately have good: "unat addr + blocksLen good \<le> unat (MaximumUserAddress G)" "list_all alignedBlock good" using size by simp_all
  have gphys: "list_all physBlock good" using phys unfolding good_def by (auto simp: list_all_iff dest: set_takeWhileD)
  define opts where "opts = \<lparr>AccessType = acc, Global = False, User = True, MemoryType = mt\<rparr>"
  define run where "run = (mapBlocks G opts addr good pt :: 'e map_error option \<times> 'pt)"
  have tr: "tr (snd run) x = (if unat (x - addr) < blocksLen good then entryOf (blockAt good (unat (x - addr))) opts else tr pt x)"
    using mapBlocks_aligned [OF laws good(2) addr rw gphys good(1), of opts x] unfolding run_def by blast
  have entry: "entryOf y opts = (if acc = NoAccess then None
      else Some (y, \<lparr>AccessType = acc\<lparr>aRead := True\<rparr>, Global = False, User = True, MemoryType = mt\<rparr>))" for y
    by (simp add: entryOf_def anyAccess_def opts_def)
  have all: "mapBlocks G opts addr blocks pt =
      (case dropWhile alignedBlock blocks of [] \<Rightarrow> None | (b, len) # _ \<Rightarrow> Some (UnalignedBacking b len), snd run)"
    unfolding run_def good_def by (rule mapBlocks_prefix [OF mapLaws_rest(1) [OF laws]])
  have mf: "MapFile G addr mapInternal mt acc precommit pt =
      (case dropWhile alignedBlock blocks of [] \<Rightarrow> (None, snd run, True)
       | (b, len) # _ \<Rightarrow> (Some (UnalignedBacking b len), snd run, False))"
    by (cases "dropWhile alignedBlock blocks") (simp_all add: MapFile_def blocks all flip: opts_def split: prod.split del: dropWhile_eq_Nil_conv)
  show ?thesis
    by (cases "dropWhile alignedBlock blocks") (simp_all add: mf tr entry flip: good_def split: prod.split del: dropWhile_eq_Nil_conv)
qed

lemma in_range:
  fixes x a l :: u64
  assumes "unat a + unat l < 2 ^ 64"
  shows "x - a < l \<longleftrightarrow> a \<le> x \<and> x < a + l"
proof -
  have "unat (a + l) = unat a + unat l" using assms by (simp add: unat_word_ariths)
  moreover have "unat x < 2 ^ 64" using unsigned_less [of x, where 'a = nat] by simp
  ultimately show ?thesis using assms
    by (auto simp: word_less_nat_alt word_le_nat_alt unat_sub_if')
qed

lemma newKernelPT_view:
  assumes "mapLaws G tr ro own"
  shows "tr (newKernelPT G (newUpper G)) x =
      (if x < 0x100000000 then Some (x, if 0x80000000 \<le> x \<and> x < 0x90000000 then ramOpts else deviceOpts)
       else if 0xffff000080000000 \<le> x \<and> x < 0xffff000090000000 then Some (x - 0xffff000000000000, ramOpts) else None)"
    "tr (ptNewWithUpper G (newUpper G)) x = (if x < 0xffff000000000000 then None else tr (newKernelPT G (newUpper G)) x)"
proof -
  note R = mapLaws_rest [OF assms] and M = mapLaws_Map [OF assms]
  have user: "n \<le> 2 ^ 32 \<Longrightarrow> n \<le> unat (MaximumUserAddress G)" for n using R(11) by simp
  have ro: "ro (newUpper G)" by (simp add: newUpper_def R(6))
  have up: "tr (newUpper G) x = (if x - 0xffff000080000000 < 0x10000000 then Some (0x80000000 + (x - 0xffff000080000000), ramOpts) else None)" for x
    using M [OF R(7), of "0xffff000080000000" "0x10000000" "0x80000000" ramOpts x] R(8)
    by (simp add: newUpper_def R(2-4) ramStart_def ramSize_def)
  define pt0 where "pt0 = ptNewWithUpper G (newUpper G)"
  define pt1 where "pt1 = ptMap G 0 0x80000000 deviceOpts 0 pt0"
  define pt2 where "pt2 = ptMap G 0x80000000 0x10000000 ramOpts 0x80000000 pt1"
  have rw: "\<not> ro pt0" "\<not> ro pt1" "\<not> ro pt2" by (simp_all add: pt0_def pt1_def pt2_def R(9,10) ro)
  have t0: "tr pt0 x = (if 0xffff000000000000 \<le> x then tr (newUpper G) x else None)"
    by (simp add: pt0_def R(5) [OF ro])
  have t1: "tr pt1 x = (if x < 0x80000000 then Some (x, deviceOpts) else tr pt0 x)"
    using M [OF rw(1), of 0 "0x80000000" 0 deviceOpts x] user [of "0x80000000"] by (simp add: pt1_def)
  have t2: "tr pt2 x = (if x - 0x80000000 < 0x10000000 then Some (x, ramOpts) else tr pt1 x)"
    using M [OF rw(2), of "0x80000000" "0x10000000" "0x80000000" ramOpts x] user [of "0x90000000"] by (simp add: pt2_def)
  have t3: "tr (newKernelPT G (newUpper G)) x = (if x - 0x90000000 < 0x70000000 then Some (x, deviceOpts) else tr pt2 x)"
    using M [OF rw(3), of "0x90000000" "0x70000000" "0x90000000" deviceOpts x] user [of "0x100000000"]
    by (simp add: newKernelPT_def Let_def ramStart_def ramSize_def flip: pt0_def pt1_def pt2_def)
  have k: "tr (newKernelPT G (newUpper G)) x =
      (if x - 0x90000000 < 0x70000000 then Some (x, deviceOpts)
       else if x - 0x80000000 < 0x10000000 then Some (x, ramOpts)
       else if x < 0x80000000 then Some (x, deviceOpts)
       else if 0xffff000000000000 \<le> x then tr (newUpper G) x else None)"
    by (simp add: t3 t2 t1 t0)
  have ranges: "x - 0x90000000 < 0x70000000 \<longleftrightarrow> 0x90000000 \<le> x \<and> x < 0x100000000"
    "x - 0x80000000 < 0x10000000 \<longleftrightarrow> 0x80000000 \<le> x \<and> x < 0x90000000"
    "x - 0xffff000080000000 < 0x10000000 \<longleftrightarrow> 0xffff000080000000 \<le> x \<and> x < 0xffff000090000000" for x :: u64
    by (simp_all add: in_range)
  show "tr (newKernelPT G (newUpper G)) x =
      (if x < 0x100000000 then Some (x, if 0x80000000 \<le> x \<and> x < 0x90000000 then ramOpts else deviceOpts)
       else if 0xffff000080000000 \<le> x \<and> x < 0xffff000090000000 then Some (x - 0xffff000000000000, ramOpts) else None)"
    unfolding k up ranges unfolding word_less_nat_alt word_le_nat_alt by (auto split: if_splits)
  show "tr (ptNewWithUpper G (newUpper G)) x = (if x < 0xffff000000000000 then None else tr (newKernelPT G (newUpper G)) x)"
    unfolding k R(5) [OF ro] ranges unfolding word_less_nat_alt word_le_nat_alt by (auto split: if_splits)
qed

text \<open>C28: the address space \<^verbatim>\<open>New\<close> installs. The kernel's tables map the low 4 GiB to itself, write-back
  exactly in RAM, and nothing else below the upper half; the upper half maps RAM at the kernel start;
  and every application address space shares it and starts with an empty user half.\<close>

theorem new_identity:
  assumes "mapLaws G tr ro own"
  shows "case newPlatform G swAddr exAddr of (_, p, mmu) \<Rightarrow>
    tr (kernelPT p) x =
      (if x < 0x100000000 then Some (x, if 0x80000000 \<le> x \<and> x < 0x90000000 then ramOpts else deviceOpts)
       else if 0xffff000080000000 \<le> x \<and> x < 0xffff000090000000 then Some (x - 0xffff000000000000, ramOpts) else None) \<and>
    tr (NewAddressSpace G p) x = (if x < 0xffff000000000000 then None else tr (kernelPT p) x) \<and>
    mmuTTBR0 mmu = TTBR0_EL1 G (kernelPT p) 1 \<and> switcher p = zeroSwitch"
  using newKernelPT_view [OF assms, of x]
  by (simp add: newPlatform_def NewAddressSpace_def Let_def)

text \<open>C26: a switch to user mode runs the context's registers in the application's address space with the
  exception record cleared, and returns the registers the processor left, so that a context whose
  registers the run preserves comes back unchanged; the exception class decides between a system
  call, a SIGSEGV at the faulting address and an error. The register file keeps its 31 entries.\<close>

theorem switch_context:
  assumes shape: "length (Regs ac) = 31" "length (UserRegs (switcher p)) = 31"
    and run: "runUser G (loadSwitch G p pt ac) m = (s, m')" "length (UserRegs s) = 31"
  shows "let s0 = loadSwitch G p pt ac; (r, p', ac', m'') = Switch G p (Some pt) ac m; ec = drop_bit 26 (ESR s) AND 0x3f in
    UserRegs s0 = Regs ac \<and> UserSP s0 = Sp ac \<and> UserPC s0 = Pc ac \<and> UserPstate s0 = Pstate ac \<and> UserTLS s0 = TLS ac \<and>
    ESR s0 = 0 \<and> FAR s0 = 0 \<and> Vector s0 = 0 \<and> AppTTBR s0 = TTBR0_EL1 G pt 2 \<and> KernelTTBR s0 = TTBR0_EL1 G (kernelPT p) 1 \<and>
    p' = p\<lparr>switcher := s\<rparr> \<and> m'' = m' \<and>
    ac' = \<lparr>Regs = UserRegs s, Sp = UserSP s, Pc = UserPC s, Pstate = UserPstate s, TLS = UserTLS s\<rparr> \<and>
    ((UserRegs s, UserSP s, UserPC s, UserPstate s, UserTLS s) = (UserRegs s0, UserSP s0, UserPC s0, UserPstate s0, UserTLS s0)
      \<longrightarrow> ac' = ac) \<and>
    r = (if ec = 0x15 then SwitchSyscall
         else if ec \<in> {0x20, 0x24} then SwitchFault \<lparr>Signo = 11, Code = 1, sigAddr = FAR s\<rparr> (ESRAccessType G (ESR s))
         else SwitchError El0SyncInv) \<and>
    length (Regs ac') = 31 \<and> length (UserRegs (switcher p')) = 31"
proof -
  have copy: "copy_at xs 0 ys = ys" if "length xs = length ys" for xs ys :: "u64 list"
    using that by (simp add: copy_at_def)
  have s0: "loadSwitch G p pt ac = (switcher p)\<lparr>UserRegs := Regs ac, UserSP := Sp ac, UserPC := Pc ac,
        UserPstate := Pstate ac, UserTLS := TLS ac, KernelTTBR := TTBR0_EL1 G (kernelPT p) 1,
        AppTTBR := TTBR0_EL1 G pt 2, ExceptionSP := KernelStartAddress G OR (exStackAddr p + 4096),
        Vector := 0, ESR := 0, FAR := 0\<rparr>"
    using shape by (simp add: loadSwitch_def copy)
  have ac': "storeSwitch s ac = \<lparr>Regs = UserRegs s, Sp = UserSP s, Pc = UserPC s, Pstate = UserPstate s, TLS = UserTLS s\<rparr>"
    using shape run by (simp add: storeSwitch_def copy)
  show ?thesis
    using shape run(2)
    by (simp add: Switch_def switchToUser_def run(1) ac' classify_def Let_def) (simp add: s0)
qed

text \<open>C29: the boot smoke test. It returns output only if the program's exits were at most three writes
  inside the data page followed by exit, and the output is what they wrote, in order; and it panics
  exactly when a write the check accepts has an end address that wraps past \<open>2 ^ 64\<close>.\<close>

theorem smoke_output:
  assumes "PageSize G = 4096" "\<And>m. 4096 \<le> length (readPage m)"
  shows "let (r, p', m', released) = RunEL0Smoke G readPage writePage storageAddr p m;
      pt = smokeMap G p (storageAddr + ((- storageAddr) AND 4095));
      entry = addrOfSmokeEntry G;
      ac = SetStack G 0x500ff0 (SetIP G (0x400000 + (entry - (entry AND NOT 4095))) (archNew G));
      exits = smokeExits 4 G readPage p pt ac (writePage sentryHello m)
    in (r = Inl Panic \<longleftrightarrow> list_ex (\<lambda>e. passesCheck G e \<and> wraps G e) exits) \<and>
       (\<forall>out. r = Inr out \<longrightarrow> (\<exists>ws l. exits = ws @ [l] \<and> length ws \<le> 3 \<and> fst l = Syscall \<and> SyscallNo G (fst (snd l)) = 93 \<and>
          list_all (\<lambda>e. passesCheck G e \<and> \<not> wraps G e) ws \<and> out = concat (map (writeData G) ws)))"
proof -
  define pt where "pt = smokeMap G p (storageAddr + ((- storageAddr) AND 4095))"
  define ac where "ac = SetStack G 0x500ff0 (SetIP G (0x400000 + (addrOfSmokeEntry G - (addrOfSmokeEntry G AND NOT 4095))) (archNew G))"
  define exits where "exits = smokeExits 4 G readPage p pt ac (writePage sentryHello m)"
  obtain r p' m' where loop: "smokeLoop 4 G readPage p pt ac (writePage sentryHello m) [] = (r, p', m')"
    by (metis prod_cases3)
  have run: "RunEL0Smoke G readPage writePage storageAddr p m = (r, p', m', fst (releaseSpace G pt))"
    using loop by (simp add: RunEL0Smoke_def Let_def assms(1) userBase_def dataBase_def pt_def ac_def)
  have len: "length (smokeExits n G readPage p pt ac m) \<le> n" for n p ac m
    by (induction n arbitrary: p ac m) (auto simp: Let_def split: prod.split)
  note spec = smokeLoop_exits [of G readPage, OF assms, of 4 p pt ac "writePage sentryHello m" "[]", folded exits_def, unfolded loop]
  have panic: "r = Inl Panic \<longleftrightarrow> list_ex (\<lambda>e. passesCheck G e \<and> wraps G e) exits"
    using spec by (cases r) (auto simp: list_ex_iff list_all_iff passesCheck_def split: failure.splits)
  have out: "\<exists>ws l. exits = ws @ [l] \<and> length ws \<le> 3 \<and> fst l = Syscall \<and> SyscallNo G (fst (snd l)) = 93 \<and>
      list_all (\<lambda>e. passesCheck G e \<and> \<not> wraps G e) ws \<and> out = concat (map (writeData G) ws)" if "r = Inr out" for out
  proof -
    from spec that obtain ws l where w: "exits = ws @ [l]" "fst l = Syscall" "SyscallNo G (fst (snd l)) = 93"
        "list_all (\<lambda>e. passesCheck G e \<and> \<not> wraps G e) ws" "out = concat (map (writeData G) ws)" by auto
    moreover have "length ws \<le> 3" using len [of 4 p ac "writePage sentryHello m"] w(1) by (simp add: exits_def)
    ultimately show ?thesis by blast
  qed
  show ?thesis
    unfolding run Let_def prod.case pt_def [symmetric] ac_def [symmetric] exits_def [symmetric]
    using panic out by blast
qed

text \<open>A machine whose page tables are functions with the two marks, whose memory is the data page, and whose user program
  makes one write and exits.\<close>

record testTable =
  ttEntry :: "u64 \<Rightarrow> (u64 \<times> mapOpts) option"
  ttReadOnly :: bool
  ttShared :: bool

definition emptyTable :: testTable where
  "emptyTable = \<lparr>ttEntry = (\<lambda>_. None), ttReadOnly = False, ttShared = False\<rparr>"

definition testMap :: "u64 \<Rightarrow> u64 \<Rightarrow> mapOpts \<Rightarrow> u64 \<Rightarrow> testTable \<Rightarrow> testTable" where
  "testMap a l opts b pt =
     (if ttReadOnly pt \<or> ttShared pt \<and> 0xffff000000000000 \<le> a then pt
      else pt\<lparr>ttEntry := (\<lambda>x. if x - a < l then entryOf (b + (x - a)) opts else ttEntry pt x)\<rparr>)"

definition testGvisor :: "u64 \<Rightarrow> u64 \<Rightarrow> (testTable, bytes) gvisor" where
  "testGvisor addr len = \<lparr>PageSize = 4096, KernelStartAddress = 0xffff000000000000, MaximumUserAddress = 0xfffffffff000,
     ptNew = emptyTable,
     ptNewWithUpper = (\<lambda>up. \<lparr>ttEntry = (\<lambda>x. if 0xffff000000000000 \<le> x then ttEntry up x else None),
       ttReadOnly = False, ttShared = True\<rparr>),
     ptMap = testMap, ptUnmap = (\<lambda>a l. testMap a l \<lparr>AccessType = NoAccess, Global = False, User = False,
       MemoryType = MemoryTypeWriteBack\<rparr> 0),
     ptReadOnly = (\<lambda>pt. pt\<lparr>ttReadOnly := True\<rparr>),
     TTBR0_EL1 = (\<lambda>_ asid. ucast asid), TTBR1_EL1 = (\<lambda>_ asid. ucast asid), ESRAccessType = (\<lambda>_. NoAccess),
     SyscallSaveOrig = (\<lambda>c. c), SyscallArgs = (\<lambda>c. take 6 (Regs c)), SyscallNo = (\<lambda>c. Regs c ! 8),
     SetReturn = (\<lambda>v c. c\<lparr>Regs := (Regs c)[0 := v]\<rparr>),
     archNew = \<lparr>Regs = replicate 31 0, Sp = 0, Pc = 0, Pstate = 0, TLS = 0\<rparr>,
     SetIP = (\<lambda>v c. c\<lparr>Pc := v\<rparr>), SetStack = (\<lambda>v c. c\<lparr>Sp := v\<rparr>),
     runUser = (\<lambda>s m. (s\<lparr>UserRegs := (if UserRegs s ! 8 = 0 then (UserRegs s)[0 := 1, 1 := addr, 2 := len, 8 := 64]
         else (UserRegs s)[0 := 0, 8 := 93]), UserPC := UserPC s + 4, ESR := push_bit 26 0x15\<rparr>, m)),
     addrOfVectors = 0x80002000, addrOfSmokeEntry = 0x80003010\<rparr>"

definition testPage :: "bytes \<Rightarrow> bytes" where "testPage m = m @ replicate 4096 0"

definition testPlatform :: "testTable platform" where
  "testPlatform = \<lparr>upper = emptyTable, kernelPT = emptyTable, switcher = zeroSwitch, switcherAddr = 0, exStackAddr = 0\<rparr>"

definition testSmoke :: "u64 \<Rightarrow> u64 \<Rightarrow> (smoke_error, bytes) result" where
  "testSmoke addr len = fst (RunEL0Smoke (testGvisor addr len) testPage (\<lambda>bs m. bs) 0x80123456 testPlatform [])"

lemma mapLaws_test: "mapLaws (testGvisor addr len) ttEntry ttReadOnly (\<lambda>pt. \<not> ttShared pt)"
proof -
  have below: "\<not> 0xffff000000000000 \<le> a" if "unat a + unat l \<le> 281474976706560" for a l :: u64
    using that by (simp add: word_le_nat_alt)
  show ?thesis unfolding mapLaws_def
    by (auto simp: testGvisor_def testMap_def emptyTable_def fun_eq_iff dest: below)
qed

lemma testSmoke_hello: "testSmoke 0x500000 32 = Inr sentryHello"
  by code_simp

theorem smoke_output_witness:
  "testSmoke 0x500000 32 = Inr sentryHello \<and>
   (\<exists>ws. length ws \<le> 3 \<and> sentryHello = concat (map (writeData (testGvisor 0x500000 32)) ws))"
proof -
  define run where "run = RunEL0Smoke (testGvisor 0x500000 32) testPage (\<lambda>bs m. bs) 0x80123456 testPlatform []"
  have "PageSize (testGvisor 0x500000 32) = 4096" by (simp add: testGvisor_def)
  moreover have "4096 \<le> length (testPage m)" for m by (simp add: testPage_def)
  ultimately have "\<forall>out. fst run = Inr out \<longrightarrow>
      (\<exists>ws. length ws \<le> 3 \<and> out = concat (map (writeData (testGvisor 0x500000 32)) ws))"
    using smoke_output [of "testGvisor 0x500000 32" testPage "\<lambda>bs m. bs" "0x80123456" testPlatform "[]"]
    unfolding run_def [symmetric] by (cases run) (auto simp: Let_def)
  then show ?thesis using testSmoke_hello by (simp add: testSmoke_def run_def)
qed

text \<open>A negative length passes the test's check and makes the page expression panic.\<close>

lemma smoke_wrap_panics: "testSmoke 0x500000 (- 1) = Inl Panic"
  by code_simp

theorem map_file_witness:
  "\<exists>pt'. MapFile (testGvisor 0 0) 0x10000 (\<lambda>acc. if aWrite acc then Inl () else Inr [(0x80100000, 0x2000), (0x80300800, 0x1000)])
      MemoryTypeWriteBack ReadExecute False emptyTable = (Some (UnalignedBacking 0x80300800 0x1000), pt', False) \<and>
    ttEntry pt' 0x11008 = Some (0x80101008, \<lparr>AccessType = ReadExecute, Global = False, User = True, MemoryType = MemoryTypeWriteBack\<rparr>)"
proof -
  have good: "takeWhile alignedBlock [(0x80100000, 0x2000), (0x80300800, 0x1000)] = [(0x80100000, 0x2000)]"
    "dropWhile alignedBlock [(0x80100000, 0x2000), (0x80300800, 0x1000)] = [(0x80300800, 0x1000)]"
    by (simp_all add: alignedBlock_def)
  have size: "unat (0x10000 :: u64) + blocksLen [(0x80100000, 0x2000), (0x80300800, 0x1000)] \<le>
      unat (MaximumUserAddress (testGvisor 0 0))" by (simp add: testGvisor_def)
  have rw: "\<not> ttReadOnly emptyTable" by (simp add: emptyTable_def)
  have phys: "list_all physBlock [(0x80100000, 0x2000), (0x80300800, 0x1000)]" by (simp add: physBlock_def)
  from map_file [OF mapLaws_test _ rw _ size phys, of "\<lambda>acc. if aWrite acc then Inl () else Inr [(0x80100000, 0x2000), (0x80300800, 0x1000)]"
      ReadExecute False MemoryTypeWriteBack "0x11008"] good
  show ?thesis by (auto simp: Let_def ReadExecute_def NoAccess_def split: prod.splits)
qed

theorem new_identity_witness:
  "\<exists>a p mmu. newPlatform (testGvisor 0 0) 0x80200000 0x80201000 = (a, p, mmu) \<and>
    ttEntry (kernelPT p) 0x0a003000 = Some (0x0a003000, deviceOpts) \<and>
    ttEntry (NewAddressSpace (testGvisor 0 0) p) 0x400000 = None \<and>
    ttEntry (NewAddressSpace (testGvisor 0 0) p) 0xffff000080002000 = Some (0x80002000, ramOpts)"
proof -
  obtain a p mmu where new: "newPlatform (testGvisor 0 0) 0x80200000 0x80201000 = (a, p, mmu)" by (metis prod_cases3)
  note at = new_identity [OF mapLaws_test [of 0 0], where swAddr = "0x80200000" and exAddr = "0x80201000", unfolded new]
  from at [of "0x0a003000"] at [of "0x400000"] at [of "0xffff000080002000"] new show ?thesis by simp
qed

theorem switch_context_witness:
  "fst (Switch (testGvisor 5 6) testPlatform (Some emptyTable) (archNew (testGvisor 5 6)) []) = SwitchSyscall"
  using switch_context [of "archNew (testGvisor 5 6)" testPlatform "testGvisor 5 6" emptyTable "[]"
      "fst (runUser (testGvisor 5 6) (loadSwitch (testGvisor 5 6) testPlatform emptyTable (archNew (testGvisor 5 6))) [])"
      "snd (runUser (testGvisor 5 6) (loadSwitch (testGvisor 5 6) testPlatform emptyTable (archNew (testGvisor 5 6))) [])"]
  by (simp add: Let_def testGvisor_def testPlatform_def zeroSwitch_def loadSwitch_def copy_at_def split: prod.splits)

end
