(* ===== verification/Go_Strings.thy ===== *)
theory Go_Strings
  imports Prelude "HOL-Library.List_Lexorder"
begin

text \<open>
  The parts of Go's \<^verbatim>\<open>strings\<close>, \<^verbatim>\<open>unicode/utf8\<close>, \<^verbatim>\<open>fmt\<close> and \<^verbatim>\<open>encoding/json\<close> that the kernel and its
  build tools use, on strings as byte lists: counting and replacing substrings, splitting at white
  space, hexadecimal and decimal numbers, and the JSON encoding with its default HTML escaping.
\<close>

section \<open>Substrings\<close>

text \<open>\<^verbatim>\<open>strings.Count\<close> for a non-empty pattern: occurrences that do not overlap, from the left.\<close>

function countSub :: "bytes \<Rightarrow> bytes \<Rightarrow> nat" where
  "countSub str pat =
     (if pat = [] then 0 else
      (case index_of pat str of None \<Rightarrow> 0 | Some i \<Rightarrow> Suc (countSub (drop (i + length pat) str) pat)))"
  by pat_completeness auto
termination
proof (relation "measure (length \<circ> fst)")
  fix str pat :: bytes and i
  assume "pat \<noteq> []" "index_of pat str = Some i"
  with index_of_Some [of pat str i] show "((drop (i + length pat) str, pat), str, pat) \<in> measure (length \<circ> fst)"
    by (cases pat) auto
qed simp

text \<open>\<^verbatim>\<open>strings.Replace(str, old, new, n)\<close> for a non-empty pattern; \<^verbatim>\<open>ReplaceAll\<close> replaces all of them.\<close>

fun replaceSub :: "nat \<Rightarrow> bytes \<Rightarrow> bytes \<Rightarrow> bytes \<Rightarrow> bytes" where
  "replaceSub 0 str old new = str"
| "replaceSub (Suc n) str old new =
     (case index_of old str of
        None \<Rightarrow> str
      | Some i \<Rightarrow> take i str @ new @ replaceSub n (drop (i + length old) str) old new)"

definition replaceAll :: "bytes \<Rightarrow> bytes \<Rightarrow> bytes \<Rightarrow> bytes" where
  "replaceAll str old new = replaceSub (countSub str old) str old new"

section \<open>UTF-8\<close>

text \<open>\<^verbatim>\<open>utf8.DecodeRuneInString\<close> of a non-empty string: the rune and its width; \<open>(0xfffd, 1)\<close> on an encoding error.\<close>

abbreviation byteIn :: "nat \<Rightarrow> nat \<Rightarrow> u8 \<Rightarrow> bool" where
  "byteIn a b w \<equiv> a \<le> unat w \<and> unat w \<le> b"

definition runeError :: nat where "runeError = 0xfffd"

definition decodeRune :: "bytes \<Rightarrow> nat \<times> nat" where
  "decodeRune s =
     (let b0 = unat (s ! 0); at = (\<lambda>i. unat (s ! i) mod 64);
          more = (\<lambda>n lo hi. n \<le> length s \<and> byteIn lo hi (s ! 1) \<and> list_all (byteIn 0x80 0xbf) (slice s 2 n));
          hi3 = (if b0 = 0xed then 0x9f else 0xbf); lo3 = (if b0 = 0xe0 then 0xa0 else 0x80);
          hi4 = (if b0 = 0xf4 then 0x8f else 0xbf); lo4 = (if b0 = 0xf0 then 0x90 else 0x80)
      in if b0 < 0x80 then (b0, 1)
         else if 0xc2 \<le> b0 \<and> b0 \<le> 0xdf \<and> more 2 0x80 0xbf then (b0 mod 32 * 64 + at 1, 2)
         else if 0xe0 \<le> b0 \<and> b0 \<le> 0xef \<and> more 3 lo3 hi3 then (b0 mod 16 * 4096 + at 1 * 64 + at 2, 3)
         else if 0xf0 \<le> b0 \<and> b0 \<le> 0xf4 \<and> more 4 lo4 hi4 then (b0 mod 8 * 262144 + at 1 * 4096 + at 2 * 64 + at 3, 4)
         else (runeError, 1))"

lemma decodeRune_ascii: "s \<noteq> [] \<Longrightarrow> unat (hd s) < 0x80 \<Longrightarrow> decodeRune s = (unat (hd s), 1)"
  by (simp add: decodeRune_def Let_def hd_conv_nth)

lemma decodeRune_width:
  assumes "s \<noteq> []" "decodeRune s = (r, w)"
  shows "1 \<le> w \<and> w \<le> length s"
proof -
  have "1 \<le> length s" using assms(1) by (cases s) auto
  with assms(2) show ?thesis by (auto simp: decodeRune_def Let_def split: if_splits)
qed

lemma decodeRune_high:
  assumes "s \<noteq> []" "decodeRune s = (r, w)" "0x80 \<le> unat (hd s)"
  shows "\<forall>b \<in> set (take w s). 0x80 \<le> unat b"
proof -
  have b0: "0x80 \<le> unat (s ! 0)" using assms by (simp add: hd_conv_nth)
  have tail: "\<forall>b \<in> set (slice s 2 n). 0x80 \<le> unat b" if "list_all (byteIn 0x80 0xbf) (slice s 2 n)" for n
    using that by (auto simp: list_all_iff)
  have two: "take n s = [s ! 0, s ! 1] @ slice s 2 n" if "2 \<le> n" "n \<le> length s" for n
  proof -
    have "take n s = take 2 s @ take (n - 2) (drop 2 s)" using that by (metis le_add_diff_inverse take_add)
    moreover have "take 2 s = [s ! 0, s ! 1]"
      using that by (cases s; cases "tl s") (auto simp: numeral_2_eq_2)
    ultimately show ?thesis by (simp add: slice_def)
  qed
  have one: "take (Suc 0) s = [s ! 0]" using assms(1) by (cases s) auto
  consider "w = 1" | n lo hi where "w = n" "2 \<le> n" "n \<le> length s" "0x80 \<le> lo" "byteIn lo hi (s ! 1)"
      "list_all (byteIn 0x80 0xbf) (slice s 2 n)"
    using assms(2) b0 by (auto simp: decodeRune_def Let_def split: if_splits; fastforce)
  then show ?thesis
  proof cases
    case 1
    then show ?thesis using one b0 by simp
  next
    case 2
    then show ?thesis using two [of n] tail [of n] b0 by auto
  qed
qed

section \<open>Splitting at white space\<close>

text \<open>\<^verbatim>\<open>unicode.IsSpace\<close> and \<^verbatim>\<open>strings.Fields\<close>.\<close>

definition isSpaceRune :: "nat \<Rightarrow> bool" where
  "isSpaceRune r \<longleftrightarrow> r \<in> {9, 10, 11, 12, 13, 32, 0x85, 0xa0, 0x1680, 0x2028, 0x2029, 0x202f, 0x205f, 0x3000} \<or>
     (0x2000 \<le> r \<and> r \<le> 0x200a)"

function fieldsFrom :: "bytes \<Rightarrow> bytes \<Rightarrow> bytes list" where
  "fieldsFrom s field =
     (if s = [] then (if field = [] then [] else [field])
      else
        let (r, w) = decodeRune s in
        if isSpaceRune r
        then (if field = [] then [] else [field]) @ fieldsFrom (drop w s) []
        else fieldsFrom (drop w s) (field @ take w s))"
  by pat_completeness auto
termination
  by (relation "measure (length \<circ> fst)") (auto dest: decodeRune_width [OF _ sym])

declare fieldsFrom.simps [simp del]

definition Fields :: "bytes \<Rightarrow> bytes list" where "Fields s = fieldsFrom s []"

text \<open>A word without white space, in ASCII, is read as one field.\<close>

definition plainWord :: "bytes \<Rightarrow> bool" where
  "plainWord s \<longleftrightarrow> list_all (\<lambda>b. unat b < 0x80 \<and> \<not> isSpaceRune (unat b)) s"

lemma fieldsFrom_word:
  "plainWord a \<Longrightarrow> fieldsFrom (a @ s) field = fieldsFrom s (field @ a)"
proof (induction a arbitrary: field)
  case (Cons b a)
  then have b: "decodeRune ((b # a) @ s) = (unat b, 1)" "\<not> isSpaceRune (unat b)" and a: "plainWord a"
    by (simp_all add: decodeRune_ascii plainWord_def)
  have "fieldsFrom ((b # a) @ s) field = fieldsFrom (a @ s) (field @ [b])"
    using b by (subst fieldsFrom.simps) simp
  with Cons.IH [OF a] show ?case by simp
qed simp

lemma fieldsFrom_space: "fieldsFrom (0x20 # s) field = (if field = [] then [] else [field]) @ fieldsFrom s []"
  using decodeRune_ascii [of "0x20 # s"] by (subst fieldsFrom.simps) (simp add: isSpaceRune_def)

lemma fieldsFrom_Nil: "fieldsFrom [] field = (if field = [] then [] else [field])"
  by (subst fieldsFrom.simps) simp

lemma Fields_three:
  assumes "plainWord a" "plainWord b" "plainWord c" "a \<noteq> []" "b \<noteq> []" "c \<noteq> []"
  shows "Fields (a @ 0x20 # b @ 0x20 # c) = [a, b, c]"
proof -
  have "fieldsFrom (a @ 0x20 # b @ 0x20 # c @ []) [] = [a, b, c]"
    using assms by (simp only: fieldsFrom_word fieldsFrom_space fieldsFrom_Nil) simp
  then show ?thesis by (simp add: Fields_def)
qed

section \<open>Numbers\<close>

text \<open>\<^verbatim>\<open>%d\<close> of a non-negative number, \<^verbatim>\<open>%x\<close>, and \<^verbatim>\<open>%#x\<close>.\<close>

definition decBytes :: "nat \<Rightarrow> bytes" where "decBytes n = ascii (decimal n)"

definition hexDigit :: "nat \<Rightarrow> u8" where
  "hexDigit n = word_of_nat (if n < 10 then 48 + n else 87 + n)"

fun hexBytes :: "nat \<Rightarrow> bytes" where
  "hexBytes n = (if n < 16 then [hexDigit n] else hexBytes (n div 16) @ [hexDigit (n mod 16)])"

declare hexBytes.simps [simp del]

definition hexPrefixed :: "nat \<Rightarrow> bytes" where "hexPrefixed n = ascii ''0x'' @ hexBytes n"

section \<open>JSON\<close>

datatype json = JNull | JBool bool | JNum nat | JStr bytes | JArr "json list" | JObj "(bytes \<times> json) list"

text \<open>The body of a string literal: \<^verbatim>\<open>appendString\<close> with HTML escaping.\<close>

definition escapeByte :: "u8 \<Rightarrow> bytes" where
  "escapeByte b =
     (if b = 0x22 \<or> b = 0x5c then [0x5c, b]
      else if b = 8 then [0x5c, 0x62]
      else if b = 12 then [0x5c, 0x66]
      else if b = 10 then [0x5c, 0x6e]
      else if b = 13 then [0x5c, 0x72]
      else if b = 9 then [0x5c, 0x74]
      else if unat b < 0x20 \<or> b = 0x3c \<or> b = 0x3e \<or> b = 0x26
      then [0x5c, 0x75, 0x30, 0x30, hexDigit (unat b div 16), hexDigit (unat b mod 16)]
      else [b])"

function escapeJSON :: "bytes \<Rightarrow> bytes" where
  "escapeJSON s =
     (if s = [] then []
      else if unat (hd s) < 0x80 then escapeByte (hd s) @ escapeJSON (tl s)
      else
        let (r, w) = decodeRune s in
        (if r = runeError \<and> w = 1 then ascii [CHR 0x5c] @ ascii ''ufffd''
         else if r = 0x2028 \<or> r = 0x2029 then ascii [CHR 0x5c] @ ascii ''u202'' @ [hexDigit (r mod 16)]
         else take w s) @ escapeJSON (drop w s))"
  by pat_completeness auto
termination
  by (relation "measure length") (auto dest: decodeRune_width [OF _ sym])

declare escapeJSON.simps [simp del]

definition quoteJSON :: "bytes \<Rightarrow> bytes" where "quoteJSON s = 0x22 # escapeJSON s @ [0x22]"

fun joinWith :: "bytes \<Rightarrow> bytes list \<Rightarrow> bytes" where
  "joinWith sep [] = []"
| "joinWith sep [x] = x"
| "joinWith sep (x # y # xs) = x @ sep @ joinWith sep (y # xs)"

fun encodeJSON :: "json \<Rightarrow> bytes" where
  "encodeJSON JNull = ascii ''null''"
| "encodeJSON (JBool b) = ascii (if b then ''true'' else ''false'')"
| "encodeJSON (JNum n) = decBytes n"
| "encodeJSON (JStr s) = quoteJSON s"
| "encodeJSON (JArr vs) = 0x5b # joinWith [0x2c] (map encodeJSON vs) @ [0x5d]"
| "encodeJSON (JObj kvs) = 0x7b # joinWith [0x2c] (map (\<lambda>(k, v). quoteJSON k @ [0x3a] @ encodeJSON v) kvs) @ [0x7d]"

text \<open>A Go map is encoded with its keys in order; \<^verbatim>\<open>Encoder.Encode\<close> ends the value with a newline.\<close>

definition jsonMap :: "(bytes \<times> json) list \<Rightarrow> json" where
  "jsonMap kvs = JObj (sort_key fst kvs)"

definition encodeLine :: "json \<Rightarrow> bytes" where
  "encodeLine v = encodeJSON v @ [10]"

section \<open>A reader of JSON\<close>

text \<open>
  A reader of the values the encoder produces, to state that it loses nothing: each function returns
  what it read and the rest of the input.
\<close>

definition unhex :: "u8 \<Rightarrow> nat" where
  "unhex b = (let n = unat b in if n \<le> 57 then n - 48 else n - 87)"

fun readChars :: "bytes \<Rightarrow> (bytes \<times> bytes) option" where
  "readChars [] = None"
| "readChars (b # s) =
     (if b = 0x22 then Some ([], s)
      else if b \<noteq> 0x5c then map_option (\<lambda>(t, r). (b # t, r)) (readChars s)
      else (case s of
          [] \<Rightarrow> None
        | e # s1 \<Rightarrow>
            if e = 0x75 then
              (case s1 of
                 h1 # h2 # h3 # h4 # s2 \<Rightarrow>
                   let r = unhex h1 * 4096 + unhex h2 * 256 + unhex h3 * 16 + unhex h4;
                       c = (if r < 0x80 then [word_of_nat r] else
                            if r < 0x800 then [word_of_nat (0xc0 + r div 64), word_of_nat (0x80 + r mod 64)]
                            else [word_of_nat (0xe0 + r div 4096), word_of_nat (0x80 + r div 64 mod 64), word_of_nat (0x80 + r mod 64)])
                   in map_option (\<lambda>(t, r). (c @ t, r)) (readChars s2)
               | _ \<Rightarrow> None)
            else
              let c = (if e = 0x62 then 8 else if e = 0x66 then 12 else if e = 0x6e then 10
                       else if e = 0x72 then 13 else if e = 0x74 then 9 else e)
              in map_option (\<lambda>(t, r). (c # t, r)) (readChars s1)))"

text \<open>What a reader gets from a string: itself, with each invalid byte replaced by U+FFFD.\<close>

function sanitize :: "bytes \<Rightarrow> bytes" where
  "sanitize s =
     (if s = [] then []
      else let (r, w) = decodeRune s in
        (if r = runeError \<and> w = 1 then [0xef, 0xbf, 0xbd] else take w s) @ sanitize (drop w s))"
  by pat_completeness auto
termination
  by (relation "measure length") (auto dest: decodeRune_width [OF _ sym])

declare sanitize.simps [simp del]

lemma unhex_hexDigit: "n < 16 \<Longrightarrow> unhex (hexDigit n) = n"
  by (simp add: unhex_def hexDigit_def Let_def)

lemma readChars_plain: "unat b \<ge> 0x80 \<Longrightarrow> readChars (b # s) = map_option (\<lambda>(t, r). (b # t, r)) (readChars s)"
  by (auto simp: word_less_nat_alt)

lemma readChars_high: "\<forall>b \<in> set a. 0x80 \<le> unat b \<Longrightarrow> readChars (a @ s) = map_option (\<lambda>(t, r). (a @ t, r)) (readChars s)"
proof (induction a)
  case (Cons b a)
  then show ?case
    by (simp only: append_Cons readChars_plain list.set insert_iff ball_simps)
      (cases "readChars s"; auto)
qed (simp add: case_prod_beta option.map_id flip: id_def)

lemma escape_read:
  assumes "unat b < 0x80"
  shows "readChars (escapeByte b @ s) = map_option (\<lambda>(t, r). (b # t, r)) (readChars s)"
proof -
  have div: "unat b div 16 < 16" using assms by simp
  have val: "unhex 0x30 = 0" by (simp add: unhex_def)
  have ctl: "readChars ([0x5c, 0x75, 0x30, 0x30, hexDigit (unat b div 16), hexDigit (unat b mod 16)] @ s) =
      map_option (\<lambda>(t, r). (b # t, r)) (readChars s)"
    using assms by (simp add: unhex_hexDigit [OF div] unhex_hexDigit val)
  show ?thesis
    using ctl by (simp add: escapeByte_def)
qed

lemma decodeRune_layout:
  assumes "decodeRune s = (r, w)"
  defines "a \<equiv> unat (s ! 0)" and "b \<equiv> unat (s ! 1)" and "c \<equiv> unat (s ! 2)"
  shows "w = 1 \<and> (r < 0x80 \<or> r = runeError) \<or> w = 2 \<and> r < 0x800 \<or>
    w = 3 \<and> 3 \<le> length s \<and> 0xe0 \<le> a \<and> a \<le> 0xef \<and> 0x80 \<le> b \<and> b \<le> 0xbf \<and>
      list_all (byteIn 0x80 0xbf) (slice s 2 3) \<and> r = a mod 16 * 4096 + b mod 64 * 64 + c mod 64 \<or>
    w = 4 \<and> 0x10000 \<le> r"
proof -
  have four: "0x10000 \<le> a mod 8 * 262144 + b mod 64 * 4096 + m"
    if "0xf0 \<le> a" "a \<le> 0xf4" "a = 0xf0 \<longrightarrow> 0x90 \<le> b" "b \<le> 0xbf" for m
  proof (cases "a = 0xf0")
    case True
    with that have "b = (b - 128) + 2 * 64" "b - 128 < 64" "16 \<le> b - 128" by linarith+
    then have "16 \<le> b mod 64" by (metis mod_less mod_mult_self1)
    then show ?thesis by simp
  next
    case False
    with that have "a = (a - 240) + 30 * 8" "a - 240 < 8" "1 \<le> a - 240" by linarith+
    then have "1 \<le> a mod 8" by (metis mod_less mod_mult_self1)
    then show ?thesis by simp
  qed
  have two: "a mod 32 * 64 + b mod 64 < 0x800"
  proof -
    have "a mod 32 < 32" "b mod 64 < 64" by simp_all
    then show ?thesis by linarith
  qed
  define more where "more = (\<lambda>n lo hi. n \<le> length s \<and> byteIn lo hi (s ! 1) \<and> list_all (byteIn 0x80 0xbf) (slice s 2 n))"
  define P2 where "P2 \<longleftrightarrow> 0xc2 \<le> a \<and> a \<le> 0xdf \<and> more 2 0x80 0xbf"
  define P3 where "P3 \<longleftrightarrow> 0xe0 \<le> a \<and> a \<le> 0xef \<and> more 3 (if a = 0xe0 then 0xa0 else 0x80) (if a = 0xed then 0x9f else 0xbf)"
  define P4 where "P4 \<longleftrightarrow> 0xf0 \<le> a \<and> a \<le> 0xf4 \<and> more 4 (if a = 0xf0 then 0x90 else 0x80) (if a = 0xf4 then 0x8f else 0xbf)"
  define d where "d = unat (s ! 3)"
  have dec: "decodeRune s = (if a < 0x80 then (a, 1) else if P2 then (a mod 32 * 64 + b mod 64, 2)
      else if P3 then (a mod 16 * 4096 + b mod 64 * 64 + c mod 64, 3)
      else if P4 then (a mod 8 * 262144 + b mod 64 * 4096 + c mod 64 * 64 + d mod 64, 4) else (runeError, 1))"
    unfolding decodeRune_def Let_def a_def b_def c_def d_def P2_def P3_def P4_def more_def by (rule refl)
  have p3: "P3 \<Longrightarrow> 3 \<le> length s \<and> 0xe0 \<le> a \<and> a \<le> 0xef \<and> 0x80 \<le> b \<and> b \<le> 0xbf \<and> list_all (byteIn 0x80 0xbf) (slice s 2 3)"
    unfolding P3_def more_def by (simp add: b_def split: if_splits)
  have p4: "P4 \<Longrightarrow> 0x10000 \<le> a mod 8 * 262144 + b mod 64 * 4096 + c mod 64 * 64 + d mod 64"
    using four [of "c mod 64 * 64 + d mod 64"] unfolding P4_def more_def by (simp add: b_def split: if_splits)
  show ?thesis
    using assms(1) two p3 p4 unfolding dec by (cases "a < 0x80"; cases P2; cases P3; cases P4) simp_all
qed

lemma byte_eqI: "unat (b :: u8) = n \<Longrightarrow> b = word_of_nat n"
  by auto

lemma decodeRune_sep:
  assumes "s \<noteq> []" "decodeRune s = (r, w)" "r = 0x2028 \<or> r = 0x2029"
  shows "take w s = [0xe2, 0x80, word_of_nat (0x80 + r mod 64)] \<and> w = 3"
proof -
  define a b c where "a = unat (s ! 0)" and "b = unat (s ! 1)" and "c = unat (s ! 2)"
  have lt: "a < 256" using unsigned_less [of "s ! 0", where 'a = nat] by (simp add: a_def)
  have w: "w = 3" "3 \<le> length s" "0xe0 \<le> a" "a \<le> 0xef" "0x80 \<le> b" "b \<le> 0xbf" "list_all (byteIn 0x80 0xbf) (slice s 2 3)"
      "r = a mod 16 * 4096 + b mod 64 * 64 + c mod 64"
    using decodeRune_layout [OF assms(2), folded a_def b_def c_def] assms(3) by (auto simp: runeError_def)
  have t: "take 3 s = [s ! 0, s ! 1, s ! 2]" "slice s 2 3 = [s ! 2]"
    using w(2) by (cases s; cases "tl s"; cases "tl (tl s)"; simp add: slice_def numeral_3_eq_3 numeral_2_eq_2)+
  have c: "0x80 \<le> c" "c \<le> 0xbf" using w(7) t(2) by (simp_all add: c_def)
  have digits: "x = 2 \<and> y = 0 \<and> z = r mod 64" if "r = x * 4096 + y * 64 + z" "y < 64" "z < 64" for x y z :: nat
  proof -
    define n where "n = y + 64 * x"
    have "r = z + 64 * n" using that(1) by (simp add: n_def)
    then have q: "r mod 64 = z" "r div 64 = y + 64 * x" using that(3) by (simp_all add: n_def [symmetric])
    then have "y + 64 * x = 128" using assms(3) by auto
    moreover have "(y + 64 * x) mod 64 = y" "(y + 64 * x) div 64 = x" using that(2) by simp_all
    ultimately show ?thesis using q by simp
  qed
  have m: "a mod 16 = 2" "b mod 64 = 0" "c mod 64 = r mod 64" using digits [OF w(8)] by simp_all
  have off: "n = k + n mod m" if "k \<le> n" "n < k + m" "k mod m = 0" for k n m :: nat
  proof -
    from that(1) obtain i where n: "n = k + i" by (auto simp: le_iff_add)
    then have "n mod m = i" using that(2,3) by (simp add: mod_add_eq [of k m i, symmetric])
    with n show ?thesis by simp
  qed
  have "a = 0xe2" using off [of "0xe0" a 16] m(1) w(3,4) by simp
  moreover have "b = 0x80" using off [of "0x80" b 64] m(2) w(5,6) by simp
  moreover have "c = 0x80 + c mod 64" using off [of "0x80" c 64] c by simp
  ultimately have "unat (s ! 0) = 0xe2" "unat (s ! 1) = 0x80" "unat (s ! 2) = 0x80 + r mod 64"
    using m(3) by (simp_all add: a_def b_def c_def)
  then have "s ! 0 = 0xe2" "s ! 1 = 0x80" "s ! 2 = word_of_nat (0x80 + r mod 64)"
    using byte_eqI [of "s ! 0" "0xe2"] byte_eqI [of "s ! 1" "0x80"] byte_eqI [of "s ! 2" "0x80 + r mod 64"] by simp_all
  with w(1) t(1) show ?thesis by simp
qed

lemma read_sep:
  assumes "r = 0x2028 \<or> r = 0x2029"
  shows "readChars (ascii [CHR 0x5c] @ ascii ''u202'' @ [hexDigit (r mod 16)] @ s) =
    map_option (\<lambda>(t, x). ([0xe2, 0x80, word_of_nat (0x80 + r mod 64)] @ t, x)) (readChars s)"
  using assms by (auto simp: ascii_def of_char_def unhex_def hexDigit_def Let_def)

lemma read_error:
  "readChars (ascii [CHR 0x5c] @ ascii ''ufffd'' @ s) = map_option (\<lambda>(t, x). ([0xef, 0xbf, 0xbd] @ t, x)) (readChars s)"
  by (simp add: ascii_def of_char_def unhex_def Let_def)

lemma sanitize_Nil: "sanitize [] = []"
  by (subst sanitize.simps) simp

lemma sanitize_Cons: "unat b < 0x80 \<Longrightarrow> sanitize (b # s) = b # sanitize s"
  using decodeRune_ascii [of "b # s"] by (subst sanitize.simps) (simp add: runeError_def)

lemma readChars_escape: "readChars (escapeJSON s @ 0x22 # rest) = Some (sanitize s, rest)"
proof (induction s rule: escapeJSON.induct)
  case (1 s)
  show ?case
  proof (cases s)
    case Nil
    then show ?thesis by (simp add: escapeJSON.simps sanitize.simps)
  next
    case (Cons b t)
    show ?thesis
    proof (cases "unat b < 0x80")
      case True
      then have "escapeJSON s = escapeByte b @ escapeJSON t" using Cons by (subst escapeJSON.simps) simp
      moreover have "sanitize s = b # sanitize t" using True Cons by (simp add: sanitize_Cons)
      moreover have "readChars (escapeJSON t @ 0x22 # rest) = Some (sanitize t, rest)"
        using "1.IH"(1) Cons True by simp
      ultimately show ?thesis using escape_read [OF True] by simp
    next
      case False
      obtain r w where d: "decodeRune s = (r, w)" by fastforce
      have ne: "s \<noteq> []" using Cons by simp
      have e: "escapeJSON s = (if r = runeError \<and> w = 1 then ascii [CHR 0x5c] @ ascii ''ufffd''
         else if r = 0x2028 \<or> r = 0x2029 then ascii [CHR 0x5c] @ ascii ''u202'' @ [hexDigit (r mod 16)]
         else take w s) @ escapeJSON (drop w s)"
        using Cons False d by (subst escapeJSON.simps) simp
      have z: "sanitize s = (if r = runeError \<and> w = 1 then [0xef, 0xbf, 0xbd] else take w s) @ sanitize (drop w s)"
        using ne d by (subst sanitize.simps) simp
      have IH: "readChars (escapeJSON (drop w s) @ 0x22 # rest) = Some (sanitize (drop w s), rest)"
        using "1.IH"(2) [of "decodeRune s"] Cons False d by simp
      have hi: "\<forall>b \<in> set (take w s). 0x80 \<le> unat b"
        using decodeRune_high [OF ne d] Cons False by simp
      consider "r = runeError \<and> w = 1" | "r = 0x2028 \<or> r = 0x2029" "\<not> (r = runeError \<and> w = 1)"
        | "\<not> (r = runeError \<and> w = 1)" "\<not> (r = 0x2028 \<or> r = 0x2029)" by blast
      then show ?thesis
      proof cases
        case 1
        then show ?thesis unfolding e z using IH read_error [of "escapeJSON (drop w s) @ 0x22 # rest"] by simp
      next
        case 2
        then show ?thesis
        proof -
          have w: "w = 3" "take 3 s = [0xe2, 0x80, word_of_nat (0x80 + r mod 64)]" using decodeRune_sep [OF ne d 2(1)] by auto
          show ?thesis
            using IH read_sep [OF 2(1), of "escapeJSON (drop w s) @ 0x22 # rest"] 2
            unfolding e z w by (simp add: w(2))
        qed
      next
        case 3
        then show ?thesis unfolding e z if_not_P [OF 3(1)] if_not_P [OF 3(2)] using IH readChars_high [OF hi, of "escapeJSON (drop w s) @ 0x22 # rest"] by simp
      qed
    qed
  qed
qed

lemma sanitize_ascii: "list_all (\<lambda>b. unat b < 0x80) s \<Longrightarrow> sanitize s = s"
  by (induction s) (simp_all add: sanitize_Cons sanitize_Nil)

definition isDigit :: "u8 \<Rightarrow> bool" where "isDigit b \<longleftrightarrow> byteIn 48 57 b"

definition readDec :: "bytes \<Rightarrow> nat" where
  "readDec s = undecimal (map (char_of \<circ> unat) s)"

text \<open>Values, the items of a non-empty array and the members of a non-empty object; the first argument bounds the recursion.\<close>

fun readValue :: "nat \<Rightarrow> bytes \<Rightarrow> (json \<times> bytes) option"
  and readItems :: "nat \<Rightarrow> bytes \<Rightarrow> (json list \<times> bytes) option"
  and readMembers :: "nat \<Rightarrow> bytes \<Rightarrow> ((bytes \<times> json) list \<times> bytes) option" where
  "readValue 0 s = None"
| "readValue (Suc n) s =
     (case s of [] \<Rightarrow> None | b # t \<Rightarrow>
        if b = 0x22 then map_option (\<lambda>(x, r). (JStr x, r)) (readChars t)
        else if b = 0x5b then
          (if t \<noteq> [] \<and> hd t = 0x5d then Some (JArr [], tl t)
           else map_option (\<lambda>(x, r). (JArr x, r)) (readItems n t))
        else if b = 0x7b then
          (if t \<noteq> [] \<and> hd t = 0x7d then Some (JObj [], tl t)
           else map_option (\<lambda>(x, r). (JObj x, r)) (readMembers n t))
        else if isDigit b then Some (JNum (readDec (takeWhile isDigit s)), dropWhile isDigit s)
        else if prefix (ascii ''null'') s then Some (JNull, drop 4 s)
        else if prefix (ascii ''true'') s then Some (JBool True, drop 4 s)
        else if prefix (ascii ''false'') s then Some (JBool False, drop 5 s)
        else None)"
| "readItems 0 s = None"
| "readItems (Suc n) s =
     (case readValue n s of
        Some (v, c # r) \<Rightarrow>
          if c = 0x2c then map_option (\<lambda>(vs, r). (v # vs, r)) (readItems n r)
          else if c = 0x5d then Some ([v], r) else None
      | _ \<Rightarrow> None)"
| "readMembers 0 s = None"
| "readMembers (Suc n) s =
     (if s \<noteq> [] \<and> hd s = 0x22 then
        (case readChars (tl s) of
           Some (k, col # r) \<Rightarrow>
             if col \<noteq> 0x3a then None else
             (case readValue n r of
                Some (v, c # r) \<Rightarrow>
                  if c = 0x2c then map_option (\<lambda>(vs, r). ((k, v) # vs, r)) (readMembers n r)
                  else if c = 0x7d then Some ([(k, v)], r) else None
              | _ \<Rightarrow> None)
         | _ \<Rightarrow> None)
      else None)"

definition parseJSON :: "bytes \<Rightarrow> (json \<times> bytes) option" where
  "parseJSON s = readValue (length s) s"

fun cleanJSON :: "json \<Rightarrow> json" where
  "cleanJSON (JStr s) = JStr (sanitize s)"
| "cleanJSON (JArr vs) = JArr (map cleanJSON vs)"
| "cleanJSON (JObj kvs) = JObj (map (\<lambda>(k, v). (sanitize k, cleanJSON v)) kvs)"
| "cleanJSON v = v"

fun jsonSize :: "json \<Rightarrow> nat" where
  "jsonSize (JArr vs) = Suc (sum_list (map (\<lambda>v. Suc (jsonSize v)) vs))"
| "jsonSize (JObj kvs) = Suc (sum_list (map (\<lambda>(k, v). Suc (jsonSize v)) kvs))"
| "jsonSize v = 1"

lemma unat_of_char: "unat (of_char c :: u8) = of_char c"
proof -
  have eq: "(of_char c :: u8) = word_of_nat (of_char c)" by (simp only: of_nat_of_char)
  have "(of_char c :: nat) < 256" by simp
  then show ?thesis unfolding eq by (intro unat_word_of_nat_small) simp
qed

lemma isDigit_decBytes: "b \<in> set (decBytes n) \<Longrightarrow> isDigit b"
  using decimal_digits [of _ n] by (auto simp: decBytes_def ascii_def isDigit_def unat_of_char)

lemma readDec_decBytes: "readDec (decBytes n) = n"
proof -
  have "map (char_of \<circ> unat) (decBytes n) = decimal n"
    by (simp add: decBytes_def ascii_def comp_def unat_of_char)
  then show ?thesis by (simp add: readDec_def undecimal_decimal)
qed

lemma decBytes_nonempty: "decBytes n \<noteq> []"
  by (simp add: decBytes_def ascii_def decimal_nonempty)

abbreviation stops :: "bytes \<Rightarrow> bool" where
  "stops rest \<equiv> rest = [] \<or> \<not> isDigit (hd rest)"

lemma digits_split:
  assumes "stops rest"
  shows "takeWhile isDigit (decBytes n @ rest) = decBytes n \<and> dropWhile isDigit (decBytes n @ rest) = rest"
proof -
  have "takeWhile isDigit rest = [] \<and> dropWhile isDigit rest = rest" using assms by (cases rest) auto
  then show ?thesis by (simp add: isDigit_decBytes)
qed

lemma encodeJSON_first: "\<exists>b t. encodeJSON v = b # t \<and> b \<noteq> 0x5d \<and> b \<noteq> 0x7d"
proof (cases v)
  case (JNum n)
  obtain b t where "decBytes n = b # t" using decBytes_nonempty by (cases "decBytes n") auto
  moreover have "isDigit b" using isDigit_decBytes [of b n] calculation by simp
  ultimately show ?thesis using JNum by (auto simp: isDigit_def)
qed (auto simp: ascii_def of_char_def quoteJSON_def)

lemma joinWith_Cons: "xs \<noteq> [] \<Longrightarrow> joinWith sep (x # xs) = x @ sep @ joinWith sep xs"
  by (cases xs) auto

abbreviation encodeMember :: "bytes \<times> json \<Rightarrow> bytes" where
  "encodeMember \<equiv> \<lambda>(k, v). quoteJSON k @ [0x3a] @ encodeJSON v"

abbreviation cleanMember :: "bytes \<times> json \<Rightarrow> bytes \<times> json" where
  "cleanMember \<equiv> \<lambda>(k, v). (sanitize k, cleanJSON v)"

abbreviation itemsSize :: "json list \<Rightarrow> nat" where
  "itemsSize vs \<equiv> sum_list (map (\<lambda>v. Suc (jsonSize v)) vs)"

abbreviation membersSize :: "(bytes \<times> json) list \<Rightarrow> nat" where
  "membersSize kvs \<equiv> sum_list (map (\<lambda>(k, v). Suc (jsonSize v)) kvs)"

lemma jsonSize_pos: "1 \<le> jsonSize v"
  by (cases v) auto

lemma read_encoded:
  "(jsonSize v \<le> n \<longrightarrow> stops rest \<longrightarrow> readValue n (encodeJSON v @ rest) = Some (cleanJSON v, rest)) \<and>
   (itemsSize vs \<le> n \<longrightarrow> vs \<noteq> [] \<longrightarrow>
      readItems n (joinWith [0x2c] (map encodeJSON vs) @ 0x5d # rest) = Some (map cleanJSON vs, rest)) \<and>
   (membersSize kvs \<le> n \<longrightarrow> kvs \<noteq> [] \<longrightarrow>
      readMembers n (joinWith [0x2c] (map encodeMember kvs) @ 0x7d # rest) = Some (map cleanMember kvs, rest))"
proof (induction n arbitrary: v vs kvs rest)
  case 0
  have "\<not> jsonSize v \<le> 0" using jsonSize_pos [of v] by simp
  moreover have "vs \<noteq> [] \<Longrightarrow> \<not> itemsSize vs \<le> 0" by (cases vs) auto
  moreover have "kvs \<noteq> [] \<Longrightarrow> \<not> membersSize kvs \<le> 0" by (cases kvs) auto
  ultimately show ?case by blast
next
  case (Suc n)
  have vals: "readValue (Suc n) (encodeJSON v @ rest) = Some (cleanJSON v, rest)"
    if size: "jsonSize v \<le> Suc n" and "stops rest" for v rest
  proof (cases v)
    case (JNum m)
    then obtain b t where d: "decBytes m = b # t" using decBytes_nonempty by (cases "decBytes m") auto
    then have "isDigit b" using isDigit_decBytes [of b m] by simp
    moreover from this have "b \<noteq> 0x22" "b \<noteq> 0x5b" "b \<noteq> 0x7b" by (auto simp: isDigit_def)
    ultimately have "readValue (Suc n) (decBytes m @ rest) =
        Some (JNum (readDec (takeWhile isDigit (decBytes m @ rest))), dropWhile isDigit (decBytes m @ rest))"
      unfolding d by simp
    then show ?thesis using digits_split [OF \<open>stops rest\<close>, of m] JNum by (simp add: readDec_decBytes)
  next
    case (JArr vs)
    show ?thesis
    proof (cases "vs = []")
      case False
      obtain v1 vs1 where "vs = v1 # vs1" using False by (cases vs) auto
      then obtain b t where b: "joinWith [0x2c] (map encodeJSON vs) = b # t" "b \<noteq> 0x5d"
        using encodeJSON_first [of v1] by (cases vs1) auto
      have "readItems n (joinWith [0x2c] (map encodeJSON vs) @ 0x5d # rest) = Some (map cleanJSON vs, rest)"
        using Suc.IH False size JArr by simp
      then show ?thesis using JArr b by simp
    qed (simp add: JArr)
  next
    case (JObj kvs)
    show ?thesis
    proof (cases "kvs = []")
      case False
      obtain k v1 kvs1 where "kvs = (k, v1) # kvs1" using False by (cases kvs) auto
      then obtain t where b: "joinWith [0x2c] (map encodeMember kvs) = 0x22 # t"
        by (cases kvs1) (auto simp: quoteJSON_def split: prod.splits)
      have "readMembers n (joinWith [0x2c] (map encodeMember kvs) @ 0x7d # rest) = Some (map cleanMember kvs, rest)"
        using Suc.IH False size JObj by simp
      then show ?thesis using JObj b by simp
    qed (simp add: JObj)
  qed (auto simp: ascii_def of_char_def isDigit_def quoteJSON_def readChars_escape)
  have items: "readItems (Suc n) (joinWith [0x2c] (map encodeJSON vs) @ 0x5d # rest) = Some (map cleanJSON vs, rest)"
    if size: "itemsSize vs \<le> Suc n" and "vs \<noteq> []"
  proof -
    from \<open>vs \<noteq> []\<close> obtain v1 vs1 where vs: "vs = v1 # vs1" by (cases vs) auto
    have "readValue n (encodeJSON v1 @ c # r) = Some (cleanJSON v1, c # r)" if "\<not> isDigit c" for c r
      using Suc.IH size vs that by simp
    note v1 = this [of "0x5d"] this [of "0x2c"]
    show ?thesis
    proof (cases "vs1 = []")
      case True
      then show ?thesis using vs v1 by (simp add: isDigit_def)
    next
      case False
      have "readItems n (joinWith [0x2c] (map encodeJSON vs1) @ 0x5d # rest) = Some (map cleanJSON vs1, rest)"
        using Suc.IH size vs False by simp
      then show ?thesis using vs v1 False by (simp add: isDigit_def joinWith_Cons)
    qed
  qed
  have members: "readMembers (Suc n) (joinWith [0x2c] (map encodeMember kvs) @ 0x7d # rest) = Some (map cleanMember kvs, rest)"
    if size: "membersSize kvs \<le> Suc n" and "kvs \<noteq> []"
  proof -
    from \<open>kvs \<noteq> []\<close> obtain k v1 kvs1 where kvs: "kvs = (k, v1) # kvs1" by (cases kvs) auto
    have "readValue n (encodeJSON v1 @ c # r) = Some (cleanJSON v1, c # r)" if "\<not> isDigit c" for c r
      using Suc.IH size kvs that by simp
    note v1 = this [of "0x7d"] this [of "0x2c"]
    show ?thesis
    proof (cases "kvs1 = []")
      case True
      then show ?thesis using kvs v1 by (simp add: isDigit_def quoteJSON_def readChars_escape)
    next
      case False
      have "readMembers n (joinWith [0x2c] (map encodeMember kvs1) @ 0x7d # rest) = Some (map cleanMember kvs1, rest)"
        using Suc.IH size kvs False by simp
      then show ?thesis using kvs v1 False by (simp add: isDigit_def quoteJSON_def readChars_escape joinWith_Cons)
    qed
  qed
  show ?case using vals items members by blast
qed

lemma length_joinWith: "sum_list (map (\<lambda>x. Suc (length x)) xs) \<le> Suc (length (joinWith [c] xs))"
  by (induction "[c]" xs rule: joinWith.induct) auto

lemma jsonSize_encode: "jsonSize v \<le> length (encodeJSON v)"
proof (induction v rule: encodeJSON.induct)
  case (5 vs)
  then have "itemsSize vs \<le> sum_list (map (\<lambda>x. Suc (length x)) (map encodeJSON vs))"
    by (simp add: comp_def) (intro sum_list_mono, simp)
  with length_joinWith [of "map encodeJSON vs" "0x2c"] show ?case by simp
next
  case (6 kvs)
  then have "membersSize kvs \<le> sum_list (map (\<lambda>x. Suc (length x)) (map encodeMember kvs))"
    by (simp add: comp_def) (intro sum_list_mono, fastforce)
  with length_joinWith [of "map encodeMember kvs" "0x2c"] show ?case by simp
qed (auto simp: quoteJSON_def ascii_def Suc_le_eq decBytes_nonempty)

lemma parse_encode: "parseJSON (encodeJSON v @ rest) = Some (cleanJSON v, rest)" if "stops rest"
  using read_encoded [of v "length (encodeJSON v @ rest)" rest] jsonSize_encode [of v] that
  by (simp add: parseJSON_def)

end
