(* ===== verification/Http.thy ===== *)
theory Http
  imports Go_Strings
begin

text \<open>
  The reports the kernel publishes (\<^verbatim>\<open>kernel/gvisor_probe.go\<close>, \<^verbatim>\<open>kernel/network_tamago.go\<close>) and the
  HTTP handler that serves them (\<^verbatim>\<open>kernel/main.go\<close>). Versions and page are set at link time and are
  parameters. A setter or snapshot holds its mutex throughout and is one step.
\<close>

section \<open>The Sentry's status\<close>

record gvisorStatus =
  gvisorStage :: bytes
  gvisorSentryError :: bytes
  gvisorEL0Output :: bytes

definition initialStatus :: gvisorStatus where
  "initialStatus = \<lparr>gvisorStage = ascii ''platform'', gvisorSentryError = [], gvisorEL0Output = []\<rparr>"

definition setGVisorStage :: "bytes \<Rightarrow> gvisorStatus \<Rightarrow> gvisorStatus" where
  "setGVisorStage stage s = s\<lparr>gvisorStage := stage\<rparr>"

definition setGVisorOutput :: "bytes \<Rightarrow> gvisorStatus \<Rightarrow> gvisorStatus" where
  "setGVisorOutput out s = s\<lparr>gvisorEL0Output := out\<rparr>"

definition setGVisorFailure :: "bytes \<Rightarrow> gvisorStatus \<Rightarrow> gvisorStatus" where
  "setGVisorFailure err s = s\<lparr>gvisorSentryError := err, gvisorStage := ascii ''failed''\<rparr>"

definition gvisorStatusSnapshot :: "gvisorStatus \<Rightarrow> bytes \<times> bytes \<times> bytes" where
  "gvisorStatusSnapshot s = (gvisorStage s, gvisorSentryError s, gvisorEL0Output s)"

section \<open>The network's status\<close>

record networkStatus =
  sPhase :: bytes
  sOwner :: bytes
  sDevice :: bytes
  sMAC :: bytes
  sAddress :: bytes
  sGateway :: bytes
  sDNS :: "bytes list"
  sLease :: bytes
  sProbe :: bytes
  sError :: bytes

definition initialReport :: networkStatus where
  "initialReport = \<lparr>sPhase = ascii ''waiting-for-sentry'', sOwner = ascii ''gVisor Sentry netstack'',
     sDevice = ascii ''virtio-net'', sMAC = [], sAddress = [], sGateway = [], sDNS = [], sLease = [],
     sProbe = [], sError = []\<rparr>"

text \<open>
  Its JSON form, with the fields in the order of the struct. The snapshot's copy of an empty list of
  servers is a nil slice, which is encoded as \<^verbatim>\<open>null\<close>.
\<close>

definition networkJSON :: "networkStatus \<Rightarrow> json" where
  "networkJSON n = JObj
     [(ascii ''phase'', JStr (sPhase n)), (ascii ''owner'', JStr (sOwner n)), (ascii ''device'', JStr (sDevice n)),
      (ascii ''mac'', JStr (sMAC n)), (ascii ''address'', JStr (sAddress n)), (ascii ''gateway'', JStr (sGateway n)),
      (ascii ''dns'', if sDNS n = [] then JNull else JArr (map JStr (sDNS n))),
      (ascii ''lease'', JStr (sLease n)), (ascii ''probe'', JStr (sProbe n)), (ascii ''error'', JStr (sError n))]"

section \<open>The handler\<close>

definition vsockPort :: u32 where "vsockPort = 4040"

record kernelInfo =
  tamagoVersion :: bytes
  gvisorVersion :: bytes
  pluginUI :: bytes

definition crlf :: bytes where "crlf = [13, 10]"

definition httpResponse :: "bytes \<Rightarrow> bytes \<Rightarrow> bytes \<Rightarrow> bytes" where
  "httpResponse status contentType body =
     ascii ''HTTP/1.1 '' @ status @ crlf @ ascii ''Content-Type: '' @ contentType @ crlf @
     ascii ''Content-Length: '' @ decBytes (length body) @ crlf @ ascii ''Connection: close'' @ crlf @
     ascii ''X-GVisor-Kernel: true'' @ crlf @ crlf @ body"

definition statusMembers :: "kernelInfo \<Rightarrow> gvisorStatus \<Rightarrow> networkStatus \<Rightarrow> (bytes \<times> json) list" where
  "statusMembers K g n =
     (let (stage, failure, out) = gvisorStatusSnapshot g in
       [(ascii ''runtime'', JStr (ascii ''tamago'')), (ascii ''arch'', JStr (ascii ''arm64'')),
        (ascii ''role'', JStr (ascii ''application-kernel'')), (ascii ''kernel'', JStr (ascii ''gvisor-sentry'')),
        (ascii ''substrate'', JStr (ascii ''tamago'')), (ascii ''linux_kernel'', JBool False),
        (ascii ''tamago_version'', JStr (tamagoVersion K)), (ascii ''gvisor_version'', JStr (gvisorVersion K)),
        (ascii ''gvisor'', JStr stage), (ascii ''error'', JStr failure), (ascii ''output'', JStr out),
        (ascii ''ipc'', JStr (ascii ''virtio-vsock'')), (ascii ''port'', JNum (unat vsockPort)),
        (ascii ''network'', networkJSON n)])"

definition statusJSON :: "kernelInfo \<Rightarrow> gvisorStatus \<Rightarrow> networkStatus \<Rightarrow> json" where
  "statusJSON K g n = jsonMap (statusMembers K g n)"

definition handleRequest :: "kernelInfo \<Rightarrow> gvisorStatus \<Rightarrow> networkStatus \<Rightarrow> bytes \<Rightarrow> bytes" where
  "handleRequest K g n req =
     (case index_of crlf req of
        None \<Rightarrow> httpResponse (ascii ''400 Bad Request'') (ascii ''text/plain; charset=utf-8'') (ascii ''bad request'' @ [10])
      | Some lineEnd \<Rightarrow>
          let fields = Fields (take lineEnd req) in
          if length fields \<noteq> 3 \<or> fields ! 0 \<noteq> ascii ''GET''
          then httpResponse (ascii ''405 Method Not Allowed'') (ascii ''text/plain; charset=utf-8'')
                 (ascii ''method not allowed'' @ [10])
          else if fields ! 1 = ascii ''/status''
          then httpResponse (ascii ''200 OK'') (ascii ''application/json'') (encodeLine (statusJSON K g n))
          else if fields ! 1 = ascii ''/'' \<or> fields ! 1 = ascii ''/index.html''
          then httpResponse (ascii ''200 OK'') (ascii ''text/html; charset=utf-8'') (pluginUI K)
          else httpResponse (ascii ''404 Not Found'') (ascii ''text/plain; charset=utf-8'') (ascii ''not found'' @ [10]))"

section \<open>A reader of responses\<close>

text \<open>Lines end in CRLF; headers run to an empty line; the body is as long as \<^verbatim>\<open>Content-Length\<close> says.\<close>

definition readLine :: "bytes \<Rightarrow> (bytes \<times> bytes) option" where
  "readLine s = map_option (\<lambda>i. (take i s, drop (i + 2) s)) (index_of crlf s)"

definition splitHeader :: "bytes \<Rightarrow> (bytes \<times> bytes) option" where
  "splitHeader l = map_option (\<lambda>i. (take i l, drop (i + 2) l)) (index_of [0x3a, 0x20] l)"

fun readHeaders :: "nat \<Rightarrow> bytes \<Rightarrow> ((bytes \<times> bytes) list \<times> bytes) option" where
  "readHeaders 0 s = None"
| "readHeaders (Suc n) s =
     (case readLine s of
        None \<Rightarrow> None
      | Some (l, r) \<Rightarrow>
          if l = [] then Some ([], r)
          else (case splitHeader l of
              None \<Rightarrow> None
            | Some kv \<Rightarrow> map_option (\<lambda>(hs, b). (kv # hs, b)) (readHeaders n r)))"

definition readResponse :: "bytes \<Rightarrow> (bytes \<times> (bytes \<times> bytes) list \<times> bytes) option" where
  "readResponse s =
     (case readLine s of
        Some (l, r) \<Rightarrow>
          if take 9 l \<noteq> ascii ''HTTP/1.1 '' then None else
          (case readHeaders (length s) r of
             Some (hs, body) \<Rightarrow>
               if map_of hs (ascii ''Content-Length'') = Some (decBytes (length body)) then Some (drop 9 l, hs, body) else None
           | None \<Rightarrow> None)
      | None \<Rightarrow> None)"

lemma index_of_crlf: "13 \<notin> set a \<Longrightarrow> index_of crlf (a @ 13 # 10 # r) = Some (length a)"
  by (induction a) (auto simp: crlf_def)

lemma readLine_crlf: "13 \<notin> set a \<Longrightarrow> readLine (a @ crlf @ r) = Some (a, r)"
  using index_of_crlf [of a r] by (simp add: readLine_def crlf_def)

lemma index_of_colon: "0x3a \<notin> set a \<Longrightarrow> index_of [0x3a, 0x20] (a @ 0x3a # 0x20 # r) = Some (length a)"
  by (induction a) auto

lemma splitHeader_colon: "0x3a \<notin> set a \<Longrightarrow> splitHeader (a @ 0x3a # 0x20 # r) = Some (a, r)"
  using index_of_colon [of a r] by (simp add: splitHeader_def)

lemma readHeaders_step:
  "13 \<notin> set k \<Longrightarrow> 0x3a \<notin> set k \<Longrightarrow> 13 \<notin> set v \<Longrightarrow>
    readHeaders (Suc n) ((k @ 0x3a # 0x20 # v) @ crlf @ r) = map_option (\<lambda>(hs, b). ((k, v) # hs, b)) (readHeaders n r)"
  by (simp add: readLine_crlf splitHeader_colon del: append_assoc)

lemma readHeaders_end: "readHeaders (Suc n) (crlf @ r) = Some ([], r)"
  using readLine_crlf [of "[]" r] by simp

definition headersOf :: "bytes \<Rightarrow> bytes \<Rightarrow> (bytes \<times> bytes) list" where
  "headersOf contentType body =
     [(ascii ''Content-Type'', contentType), (ascii ''Content-Length'', decBytes (length body)),
      (ascii ''Connection'', ascii ''close''), (ascii ''X-GVisor-Kernel'', ascii ''true'')]"

lemma decBytes_no_cr: "13 \<notin> set (decBytes n)"
  using isDigit_decBytes [of 13 n] by (auto simp: isDigit_def)

lemma read_httpResponse:
  assumes "13 \<notin> set status" "13 \<notin> set contentType"
  shows "readResponse (httpResponse status contentType body) = Some (status, headersOf contentType body, body)"
proof -
  define rest where "rest = ascii ''Content-Type: '' @ contentType @ crlf @
     ascii ''Content-Length: '' @ decBytes (length body) @ crlf @ ascii ''Connection: close'' @ crlf @
     ascii ''X-GVisor-Kernel: true'' @ crlf @ crlf @ body"
  have resp: "httpResponse status contentType body = (ascii ''HTTP/1.1 '' @ status) @ crlf @ rest"
    by (simp add: httpResponse_def rest_def)
  have no: "13 \<notin> set (ascii ''HTTP/1.1 '')" by (simp add: ascii_def of_char_def)
  have line: "readLine (httpResponse status contentType body) = Some (ascii ''HTTP/1.1 '' @ status, rest)"
    unfolding resp by (rule readLine_crlf) (use no assms in auto)
  have rest: "rest = (ascii ''Content-Type'' @ 0x3a # 0x20 # contentType) @ crlf @
     (ascii ''Content-Length'' @ 0x3a # 0x20 # decBytes (length body)) @ crlf @ (ascii ''Connection'' @ 0x3a # 0x20 # ascii ''close'') @ crlf @
     (ascii ''X-GVisor-Kernel'' @ 0x3a # 0x20 # ascii ''true'') @ crlf @ crlf @ body"
    by (simp add: rest_def ascii_def of_char_def)
  have "readHeaders (Suc (Suc (Suc (Suc (Suc n))))) rest = Some (headersOf contentType body, body)" for n
    unfolding rest
    by (subst readHeaders_step, simp add: ascii_def of_char_def, simp add: ascii_def of_char_def, rule assms,
        subst readHeaders_step, simp add: ascii_def of_char_def, simp add: ascii_def of_char_def, rule decBytes_no_cr,
        subst readHeaders_step, simp add: ascii_def of_char_def, simp add: ascii_def of_char_def, simp add: ascii_def of_char_def,
        subst readHeaders_step, simp add: ascii_def of_char_def, simp add: ascii_def of_char_def, simp add: ascii_def of_char_def,
        subst readHeaders_end)
      (simp add: headersOf_def)
  moreover have "\<exists>n. length (httpResponse status contentType body) = Suc (Suc (Suc (Suc (Suc n))))"
    by (simp add: httpResponse_def)
  ultimately have "readHeaders (length (httpResponse status contentType body)) rest = Some (headersOf contentType body, body)"
    by metis
  then show ?thesis
    using line by (simp add: readResponse_def headersOf_def) (simp add: ascii_def)
qed

text \<open>What the handler answers, as status, content type and body.\<close>

definition answer :: "kernelInfo \<Rightarrow> gvisorStatus \<Rightarrow> networkStatus \<Rightarrow> bytes option \<Rightarrow> bytes \<times> bytes \<times> bytes" where
  "answer K g n path =
     (case path of
        None \<Rightarrow> (ascii ''405 Method Not Allowed'', ascii ''text/plain; charset=utf-8'', ascii ''method not allowed'' @ [10])
      | Some p \<Rightarrow>
          if p = ascii ''/status'' then (ascii ''200 OK'', ascii ''application/json'', encodeLine (statusJSON K g n))
          else if p \<in> {ascii ''/'', ascii ''/index.html''} then (ascii ''200 OK'', ascii ''text/html; charset=utf-8'', pluginUI K)
          else (ascii ''404 Not Found'', ascii ''text/plain; charset=utf-8'', ascii ''not found'' @ [10]))"

definition badRequest :: "bytes \<times> bytes \<times> bytes" where
  "badRequest = (ascii ''400 Bad Request'', ascii ''text/plain; charset=utf-8'', ascii ''bad request'' @ [10])"

text \<open>The target of a GET request line: its second of three fields.\<close>

definition getTarget :: "bytes \<Rightarrow> bytes option" where
  "getTarget line = (case Fields line of [m, p, v] \<Rightarrow> if m = ascii ''GET'' then Some p else None | _ \<Rightarrow> None)"

lemma getTarget_eq:
  "getTarget line = (if length (Fields line) \<noteq> 3 \<or> Fields line ! 0 \<noteq> ascii ''GET'' then None else Some (Fields line ! 1))"
  by (auto simp: getTarget_def split: list.split)

lemma handleRequest_answer:
  "handleRequest K g n req = (case (case index_of crlf req of None \<Rightarrow> badRequest | Some i \<Rightarrow> answer K g n (getTarget (take i req))) of
     (status, contentType, body) \<Rightarrow> httpResponse status contentType body)"
  by (simp add: handleRequest_def answer_def badRequest_def getTarget_eq Let_def split: option.split)

lemma answer_no_cr:
  "answer K g n path = (status, contentType, body) \<Longrightarrow> 13 \<notin> set status \<and> 13 \<notin> set contentType"
  by (auto simp: answer_def ascii_def of_char_def split: option.splits if_splits)

lemma readResponse_handle:
  "readResponse (handleRequest K g n req) =
    (case (case index_of crlf req of None \<Rightarrow> badRequest | Some i \<Rightarrow> answer K g n (getTarget (take i req))) of
       (status, contentType, body) \<Rightarrow> Some (status, headersOf contentType body, body))"
proof -
  obtain st ct b where r: "(case index_of crlf req of None \<Rightarrow> badRequest | Some i \<Rightarrow> answer K g n (getTarget (take i req))) = (st, ct, b)"
    by (metis prod_cases3)
  have "13 \<notin> set st \<and> 13 \<notin> set ct"
    using r answer_no_cr [of K g n _ st ct b]
    by (cases "index_of crlf req") (auto simp: badRequest_def ascii_def of_char_def)
  then show ?thesis unfolding handleRequest_answer r by (simp add: read_httpResponse)
qed

lemma plainWord_no_cr: "plainWord s \<Longrightarrow> 13 \<notin> set s"
  by (auto simp: plainWord_def list_all_iff isSpaceRune_def)

lemma get_request_line:
  assumes "plainWord path" "path \<noteq> []" "plainWord version" "version \<noteq> []"
  defines "line \<equiv> ascii ''GET'' @ 0x20 # path @ 0x20 # version"
  shows "index_of crlf (line @ crlf @ rest) = Some (length line) \<and> getTarget line = Some path"
proof -
  have get: "plainWord (ascii ''GET'')" "ascii ''GET'' \<noteq> []" by (simp_all add: plainWord_def ascii_def of_char_def isSpaceRune_def)
  have "13 \<notin> set line" using assms plainWord_no_cr [of path] plainWord_no_cr [of version] plainWord_no_cr [OF get(1)]
    by (simp add: line_def)
  moreover have "Fields line = [ascii ''GET'', path, version]" unfolding line_def using assms get by (intro Fields_three)
  ultimately show ?thesis using index_of_crlf [of line rest] by (simp add: getTarget_eq crlf_def)
qed

section \<open>Properties\<close>

text \<open>C21: whatever the peer sends, the answer is a well-formed HTTP response that a client reads back: one
  of the four statuses, as the request line decides, with a \<^verbatim>\<open>Content-Length\<close> that is the length of
  the body. No line end gives 400, a line that is not three fields starting with \<^verbatim>\<open>GET\<close> gives 405.\<close>

theorem http_wellformed:
  "\<exists>status contentType body. readResponse (handleRequest K g n req) = Some (status, headersOf contentType body, body) \<and>
     map_of (headersOf contentType body) (ascii ''Content-Length'') = Some (decBytes (length body)) \<and>
     status = (case index_of crlf req of
         None \<Rightarrow> ascii ''400 Bad Request''
       | Some i \<Rightarrow>
           (case Fields (take i req) of
              [m, path, version] \<Rightarrow>
                if m \<noteq> ascii ''GET'' then ascii ''405 Method Not Allowed''
                else if path \<in> {ascii ''/status'', ascii ''/'', ascii ''/index.html''} then ascii ''200 OK''
                else ascii ''404 Not Found''
            | _ \<Rightarrow> ascii ''405 Method Not Allowed''))"
proof -
  have len: "map_of (headersOf contentType body) (ascii ''Content-Length'') = Some (decBytes (length body))" for contentType body
    by (simp add: headersOf_def ascii_def of_char_def)
  show ?thesis
  proof (cases "index_of crlf req")
    case None
    then show ?thesis unfolding readResponse_handle by (auto simp: badRequest_def len)
  next
    case (Some i)
    obtain st ct b where r: "answer K g n (getTarget (take i req)) = (st, ct, b)" by (metis prod_cases3)
    have "st = (case Fields (take i req) of
        [m, path, version] \<Rightarrow>
          if m \<noteq> ascii ''GET'' then ascii ''405 Method Not Allowed''
          else if path \<in> {ascii ''/status'', ascii ''/'', ascii ''/index.html''} then ascii ''200 OK''
          else ascii ''404 Not Found''
      | _ \<Rightarrow> ascii ''405 Method Not Allowed'')"
      using r by (auto simp: answer_def getTarget_def split: list.splits if_splits)
    with Some r len show ?thesis unfolding readResponse_handle
      by (intro exI [of _ st] exI [of _ ct] exI [of _ b]) simp
  qed
qed

text \<open>A GET request for a path without white space is answered by the status report, the plugin page
  or a 404, whatever follows the request line.\<close>

theorem http_get:
  assumes "plainWord path" "path \<noteq> []" "plainWord version" "version \<noteq> []"
  shows "readResponse (handleRequest K g n (ascii ''GET'' @ 0x20 # path @ 0x20 # version @ crlf @ rest)) = Some
    (if path = ascii ''/status''
     then (ascii ''200 OK'', headersOf (ascii ''application/json'') (encodeLine (statusJSON K g n)), encodeLine (statusJSON K g n))
     else if path = ascii ''/'' \<or> path = ascii ''/index.html''
     then (ascii ''200 OK'', headersOf (ascii ''text/html; charset=utf-8'') (pluginUI K), pluginUI K)
     else (ascii ''404 Not Found'', headersOf (ascii ''text/plain; charset=utf-8'') (ascii ''not found'' @ [10]), ascii ''not found'' @ [10]))"
  using get_request_line [OF assms, of rest]
  by (simp add: readResponse_handle answer_def)

theorem http_get_witness:
  "readResponse (handleRequest \<lparr>tamagoVersion = [], gvisorVersion = [], pluginUI = ascii ''<p>''\<rparr> initialStatus initialReport
      (ascii ''GET /index.html HTTP/1.1'' @ crlf @ crlf)) =
    Some (ascii ''200 OK'', headersOf (ascii ''text/html; charset=utf-8'') (ascii ''<p>''), ascii ''<p>'')"
proof -
  have "plainWord (ascii ''/index.html'')" "plainWord (ascii ''HTTP/1.1'')"
    by (simp_all add: plainWord_def ascii_def of_char_def isSpaceRune_def)
  from http_get [OF this(1) _ this(2), of "\<lparr>tamagoVersion = [], gvisorVersion = [], pluginUI = ascii ''<p>''\<rparr>"
      initialStatus initialReport crlf]
  show ?thesis by (simp add: ascii_def of_char_def)
qed

lemma statusMembers_sorted:
  "sort_key fst (statusMembers K g n) =
     [(ascii ''arch'', JStr (ascii ''arm64'')), (ascii ''error'', JStr (gvisorSentryError g)),
      (ascii ''gvisor'', JStr (gvisorStage g)), (ascii ''gvisor_version'', JStr (gvisorVersion K)),
      (ascii ''ipc'', JStr (ascii ''virtio-vsock'')), (ascii ''kernel'', JStr (ascii ''gvisor-sentry'')),
      (ascii ''linux_kernel'', JBool False), (ascii ''network'', networkJSON n),
      (ascii ''output'', JStr (gvisorEL0Output g)), (ascii ''port'', JNum 4040),
      (ascii ''role'', JStr (ascii ''application-kernel'')), (ascii ''runtime'', JStr (ascii ''tamago'')),
      (ascii ''substrate'', JStr (ascii ''tamago'')), (ascii ''tamago_version'', JStr (tamagoVersion K))]"
  by (simp add: statusMembers_def gvisorStatusSnapshot_def vsockPort_def ascii_def of_char_def)

text \<open>C22: the status report is one JSON object and a newline. A reader of it finds exactly fourteen
  members in the order of their keys: the eight constants of the kernel, the two versions, the three
  texts of the Sentry's status, and the ten fields of the network report in the order of its struct,
  with a null for an empty list of name servers; every text is the one of the snapshot with invalid
  UTF-8 replaced.\<close>

theorem status_report:
  "parseJSON (encodeLine (statusJSON K g n)) = Some (JObj
     [(ascii ''arch'', JStr (ascii ''arm64'')),
      (ascii ''error'', JStr (sanitize (gvisorSentryError g))),
      (ascii ''gvisor'', JStr (sanitize (gvisorStage g))),
      (ascii ''gvisor_version'', JStr (sanitize (gvisorVersion K))),
      (ascii ''ipc'', JStr (ascii ''virtio-vsock'')),
      (ascii ''kernel'', JStr (ascii ''gvisor-sentry'')),
      (ascii ''linux_kernel'', JBool False),
      (ascii ''network'', JObj
        [(ascii ''phase'', JStr (sanitize (sPhase n))),
         (ascii ''owner'', JStr (sanitize (sOwner n))),
         (ascii ''device'', JStr (sanitize (sDevice n))),
         (ascii ''mac'', JStr (sanitize (sMAC n))),
         (ascii ''address'', JStr (sanitize (sAddress n))),
         (ascii ''gateway'', JStr (sanitize (sGateway n))),
         (ascii ''dns'', if sDNS n = [] then JNull else JArr (map (\<lambda>a. JStr (sanitize a)) (sDNS n))),
         (ascii ''lease'', JStr (sanitize (sLease n))),
         (ascii ''probe'', JStr (sanitize (sProbe n))),
         (ascii ''error'', JStr (sanitize (sError n)))]),
      (ascii ''output'', JStr (sanitize (gvisorEL0Output g))),
      (ascii ''port'', JNum 4040),
      (ascii ''role'', JStr (ascii ''application-kernel'')),
      (ascii ''runtime'', JStr (ascii ''tamago'')),
      (ascii ''substrate'', JStr (ascii ''tamago'')),
      (ascii ''tamago_version'', JStr (sanitize (tamagoVersion K)))], [10])"
proof -
  have "parseJSON (encodeJSON (statusJSON K g n) @ [10]) = Some (cleanJSON (statusJSON K g n), [10])"
    by (rule parse_encode) (simp add: isDigit_def)
  then show ?thesis
    by (simp only: encodeLine_def statusJSON_def jsonMap_def statusMembers_sorted)
      (simp add: networkJSON_def sanitize_ascii ascii_def of_char_def)
qed

end
