(* ===== verification/Sentry_Boot.thy ===== *)
theory Sentry_Boot
  imports Platform Http
begin

text \<open>
  Bringing up the Sentry: \<^verbatim>\<open>gvisorKernelProbe\<close> and \<^verbatim>\<open>startGVisorSentry\<close> (\<^verbatim>\<open>kernel/gvisor_probe.go\<close>),
  \<^verbatim>\<open>runSentryHello\<close> and \<^verbatim>\<open>directClocks\<close> (\<^verbatim>\<open>kernel/gvisor_sentry.go\<close>) and
  \<^verbatim>\<open>newSentryNetworkNamespace\<close> (\<^verbatim>\<open>kernel/network_tamago.go\<close>). gVisor's kernel is the state \<open>'k\<close>, its
  objects are handles \<open>'h\<close> and its operations the fields of a parameter; a call that blocks is the
  state in which it returns.
\<close>

section \<open>The Sentry's interface\<close>

record 'h initArgs =
  FeatureSet :: 'h
  Timekeeper :: 'h
  RootUserNamespace :: 'h
  RootNetworkNamespace :: 'h
  ApplicationCores :: nat
  Vdso :: 'h
  VdsoParams :: 'h
  RootUTSNamespace :: 'h
  RootIPCNamespace :: 'h
  RootPIDNamespace :: 'h
  Cgroup2FSInit :: 'h

record 'h processArgs =
  Filename :: bytes
  Argv :: "bytes list"
  Envv :: "bytes list"
  WorkingDirectory :: bytes
  Credentials :: 'h
  FDTable :: 'h
  Umask :: nat
  Limits :: 'h
  MaxSymlinkTraversals :: nat
  UTSNamespace :: 'h
  IPCNamespace :: 'h
  PIDNamespace :: 'h
  MountNamespace :: 'h
  ContainerID :: bytes

record ('k, 'h, 'e) sentry =
  NewMemoryFileBareMetal :: "'k \<Rightarrow> 'h \<times> 'k"
  SetPlatform :: "'k \<Rightarrow> 'k"
  SetMemoryFile :: "'h \<Rightarrow> 'k \<Rightarrow> 'k"
  PrepareVDSO :: "'h \<Rightarrow> 'k \<Rightarrow> ('e + 'h) \<times> 'k"
  NewVDSOParamPage :: "'h \<Rightarrow> 'h \<Rightarrow> 'k \<Rightarrow> 'h \<times> 'k"
  NewTimekeeper :: "'k \<Rightarrow> 'h \<times> 'k"
  SetClocks :: "'h \<Rightarrow> 'h \<Rightarrow> 'k \<Rightarrow> 'k"
  NewRootUserNamespace :: "'k \<Rightarrow> 'h \<times> 'k"
  NewRootCredentials :: "'h \<Rightarrow> 'k \<Rightarrow> 'h \<times> 'k"
  newTCPStack :: "'k \<Rightarrow> 'h \<times> 'k"
  NewGVisorStack :: "nat \<Rightarrow> 'k \<Rightarrow> 'h \<times> 'k"
  setTCPStack :: "'h \<Rightarrow> 'h \<Rightarrow> 'k \<Rightarrow> 'k"
  NewStack :: "'h \<Rightarrow> nat \<Rightarrow> 'k \<Rightarrow> 'h \<times> 'k"
  NewRootNamespace :: "'h \<Rightarrow> 'h \<Rightarrow> 'k \<Rightarrow> 'h \<times> 'k"
  HostFeatureSet :: "'k \<Rightarrow> 'h \<times> 'k"
  NewUTSNamespace :: "bytes \<Rightarrow> bytes \<Rightarrow> 'h \<Rightarrow> 'k \<Rightarrow> 'h \<times> 'k"
  NewIPCNamespace :: "'h \<Rightarrow> 'k \<Rightarrow> 'h \<times> 'k"
  NewRootPIDNamespace :: "'h \<Rightarrow> 'k \<Rightarrow> 'h \<times> 'k"
  kernelInit :: "'h initArgs \<Rightarrow> 'k \<Rightarrow> ('e + unit) \<times> 'k"
  MustRegisterTmpfs :: "bytes \<Rightarrow> bool \<Rightarrow> bool \<Rightarrow> 'k \<Rightarrow> 'k"
  NewMountNamespace :: "'h \<Rightarrow> bytes \<Rightarrow> bytes \<Rightarrow> 'k \<Rightarrow> ('e + 'h) \<times> 'k"
  rootOf :: "'h \<Rightarrow> 'k \<Rightarrow> 'h \<times> 'k"
  OpenAt :: "'h \<Rightarrow> 'h \<Rightarrow> bytes \<Rightarrow> nat \<Rightarrow> nat \<Rightarrow> 'k \<Rightarrow> ('e + 'h) \<times> 'k"
  WriteFD :: "'h \<Rightarrow> bytes \<Rightarrow> 'k \<Rightarrow> (int \<times> 'e option) \<times> 'k"
  NewConnectedPipeFDs :: "'k \<Rightarrow> ('e + 'h \<times> 'h) \<times> 'k"
  NewFDTable :: "'k \<Rightarrow> 'h \<times> 'k"
  NewFDAt :: "'h \<Rightarrow> nat \<Rightarrow> 'h \<Rightarrow> 'k \<Rightarrow> ('e + 'h option) \<times> 'k"
  NewLinuxLimitSet :: "'k \<Rightarrow> ('e + 'h) \<times> 'k"
  namespaces :: "'k \<Rightarrow> 'h \<times> 'h \<times> 'h"
  CreateProcess :: "'h processArgs \<Rightarrow> 'k \<Rightarrow> ('e + 'h) \<times> 'k"
  kernelStart :: "'k \<Rightarrow> ('e + unit) \<times> 'k"
  WaitExited :: "'h \<Rightarrow> 'k \<Rightarrow> 'k"
  ExitStatus :: "'h \<Rightarrow> 'k \<Rightarrow> u32"
  statusExited :: "u32 \<Rightarrow> bool"
  statusCode :: "u32 \<Rightarrow> int"
  ReadFD :: "'h \<Rightarrow> nat \<Rightarrow> 'k \<Rightarrow> ('e + bytes) \<times> 'k"
  decRef :: "'h \<Rightarrow> 'k \<Rightarrow> 'k"
  GlobalInit :: "'k \<Rightarrow> 'h option"
  errText :: "'e \<Rightarrow> bytes"
  sentryPageSize :: u64
  tmpfsName :: bytes
  newCgroup2Filesystem :: 'h
  linuxMaxSymlinkTraversals :: nat

text \<open>
  The world of the boot: the Sentry, the status and every status published so far, the network stack's
  global, whether the networking goroutine was started, and the handles released, in order.
\<close>

record ('k, 'h) world =
  kern :: 'k
  wStatus :: gvisorStatus
  published :: "gvisorStatus list"
  sentryIPStack :: "'h option"
  networking :: bool
  released :: "'h list"

definition withKern :: "('k \<Rightarrow> 'a \<times> 'k) \<Rightarrow> ('k, 'h) world \<Rightarrow> 'a \<times> ('k, 'h) world" where
  "withKern f w = (let (x, k) = f (kern w) in (x, w\<lparr>kern := k\<rparr>))"

definition onKern :: "('k \<Rightarrow> 'k) \<Rightarrow> ('k, 'h) world \<Rightarrow> ('k, 'h) world" where
  "onKern f w = w\<lparr>kern := f (kern w)\<rparr>"

definition publish :: "(gvisorStatus \<Rightarrow> gvisorStatus) \<Rightarrow> ('k, 'h) world \<Rightarrow> ('k, 'h) world" where
  "publish f w = w\<lparr>wStatus := f (wStatus w), published := published w @ [f (wStatus w)]\<rparr>"

definition release :: "('k, 'h, 'e) sentry \<Rightarrow> 'h \<Rightarrow> ('k, 'h) world \<Rightarrow> ('k, 'h) world" where
  "release S h w = w\<lparr>kern := decRef S h (kern w), released := released w @ [h]\<rparr>"

definition stage :: "string \<Rightarrow> (('k, 'h) world, 'f, unit) step" where
  "stage s = go_act (publish (setGVisorStage (ascii s)))"

definition gnew :: "('k \<Rightarrow> 'h \<times> 'k) \<Rightarrow> (('k, 'h) world, 'f, 'h) step" where
  "gnew f = go_call (withKern f)"

definition gtry :: "('k \<Rightarrow> ('e + 'a) \<times> 'k) \<Rightarrow> (('k, 'h) world, 'e, 'a) step" where
  "gtry f = withKern f"

section \<open>Running the embedded executable\<close>

datatype 'e sentry_error = PrepareVDSOFailed 'e | InitKernelFailed 'e | MountRootFailed 'e | CreateExecutableFailed 'e
  | WriteExecutableFailed int int "'e option" | CreatePipeFailed 'e | InstallStdoutFailed 'e | InstallStderrFailed 'e
  | CreateLimitsFailed 'e | CreateTaskFailed 'e | StartTaskFailed 'e | TaskStatus u32 | ReadStdoutFailed 'e

text \<open>\<^verbatim>\<open>newSentryNetworkNamespace\<close> keeps the stack it makes in a global.\<close>

definition newSentryNetworkNamespace :: "('k, 'h, 'e) sentry \<Rightarrow> 'h \<Rightarrow> (('k, 'h) world, 'f, 'h) step" where
  "newSentryNetworkNamespace S userNS =
     go_bind (gnew (newTCPStack S)) (\<lambda>tcpStack.
     go_bind (gnew (NewGVisorStack S 1)) (\<lambda>ip.
     go_bind (go_act (\<lambda>w. w\<lparr>sentryIPStack := Some ip\<rparr>)) (\<lambda>_.
     go_bind (go_act (onKern (setTCPStack S ip tcpStack))) (\<lambda>_.
     go_bind (gnew (NewStack S tcpStack 1)) (\<lambda>st.
     gnew (NewRootNamespace S st userNS))))))"

text \<open>Up to and including the start of the networking goroutine; the credentials are used later.\<close>

definition sentryInit :: "('k, 'h, 'e) sentry \<Rightarrow> (('k, 'h) world, 'e sentry_error, 'h) step" where
  "sentryInit S =
     go_bind (stage ''memory-file'') (\<lambda>_.
     go_bind (gnew (NewMemoryFileBareMetal S)) (\<lambda>mf.
     go_bind (go_act (onKern (SetPlatform S))) (\<lambda>_.
     go_bind (go_act (onKern (SetMemoryFile S mf))) (\<lambda>_.
     go_bind (stage ''vdso'') (\<lambda>_.
     go_bind (go_onError (gtry (PrepareVDSO S mf)) id PrepareVDSOFailed) (\<lambda>vdso.
     go_bind (gnew (NewVDSOParamPage S mf vdso)) (\<lambda>params.
     go_bind (stage ''timekeeper'') (\<lambda>_.
     go_bind (gnew (NewTimekeeper S)) (\<lambda>tk.
     go_bind (go_act (onKern (SetClocks S tk params))) (\<lambda>_.
     go_bind (gnew (NewRootUserNamespace S)) (\<lambda>userNS.
     go_bind (gnew (NewRootCredentials S userNS)) (\<lambda>creds.
     go_bind (newSentryNetworkNamespace S userNS) (\<lambda>rootNetworkNS.
     go_bind (stage ''kernel-init'') (\<lambda>_.
     go_bind (gnew (HostFeatureSet S)) (\<lambda>features.
     go_bind (gnew (NewUTSNamespace S (ascii ''spr-gvisor-demo'') [] userNS)) (\<lambda>uts.
     go_bind (gnew (NewIPCNamespace S userNS)) (\<lambda>ipc.
     go_bind (gnew (NewRootPIDNamespace S userNS)) (\<lambda>pid.
     go_bind (go_onError (gtry (kernelInit S \<lparr>FeatureSet = features, Timekeeper = tk, RootUserNamespace = userNS,
         RootNetworkNamespace = rootNetworkNS, ApplicationCores = 1, Vdso = vdso, VdsoParams = params,
         RootUTSNamespace = uts, RootIPCNamespace = ipc, RootPIDNamespace = pid,
         Cgroup2FSInit = newCgroup2Filesystem S\<rparr>)) id InitKernelFailed) (\<lambda>_.
     go_bind (go_act (\<lambda>w. w\<lparr>networking := True\<rparr>)) (\<lambda>_.
     go_give creds))))))))))))))))))))"

text \<open>The root file system with the executable in it.\<close>

definition createHello :: "('k, 'h, 'e) sentry \<Rightarrow> 'h \<Rightarrow> (('k, 'h) world, 'e sentry_error, 'h) step" where
  "createHello S creds =
     go_bind (stage ''rootfs'') (\<lambda>_.
     go_bind (go_act (onKern (MustRegisterTmpfs S (tmpfsName S) True True))) (\<lambda>_.
     go_bind (go_onError (gtry (NewMountNamespace S creds (ascii ''root'') (tmpfsName S))) id MountRootFailed) (\<lambda>mntns.
     go_bind (gnew (rootOf S mntns)) (\<lambda>root.
     go_bind (go_onError (gtry (OpenAt S creds root (ascii ''hello'') (0x1 OR 0x40 OR 0x80) 0x1ed))
         (release S mntns \<circ> release S root) CreateExecutableFailed) (\<lambda>execFD.
     go_bind (go_act (release S root)) (\<lambda>_.
     let elf = linuxHelloELF (sentryPageSize S) sentryHello in
     go_bind (go_call (withKern (WriteFD S execFD elf))) (\<lambda>(n, err).
     if err \<noteq> None \<or> n \<noteq> int (length elf)
     then go_fail (release S mntns \<circ> release S execFD) (WriteExecutableFailed n (int (length elf)) err)
     else
       go_bind (go_act (release S execFD)) (\<lambda>_.
       go_give mntns))))))))"

text \<open>The pipe installed as standard output and standard error.\<close>

definition installFD :: "('k, 'h, 'e) sentry \<Rightarrow> 'h \<Rightarrow> nat \<Rightarrow> 'h \<Rightarrow> ('e \<Rightarrow> 'e sentry_error) \<Rightarrow>
    (('k, 'h) world, 'e sentry_error, unit) step" where
  "installFD S fdTable fd writeFD wrap =
     go_bind (go_onError (gtry (NewFDAt S fdTable fd writeFD)) id wrap) (\<lambda>displaced.
     (case displaced of None \<Rightarrow> go_give () | Some d \<Rightarrow> go_act (release S d)))"

definition openStdio :: "('k, 'h, 'e) sentry \<Rightarrow> 'h \<Rightarrow> (('k, 'h) world, 'e sentry_error, 'h \<times> 'h) step" where
  "openStdio S mntns =
     go_bind (stage ''stdio'') (\<lambda>_.
     go_bind (go_onError (gtry (NewConnectedPipeFDs S)) (release S mntns) CreatePipeFailed) (\<lambda>(readFD, writeFD).
     go_bind (gnew (NewFDTable S)) (\<lambda>fdTable.
     go_bind (installFD S fdTable 1 writeFD InstallStdoutFailed) (\<lambda>_.
     go_bind (installFD S fdTable 2 writeFD InstallStderrFailed) (\<lambda>_.
     go_bind (go_act (release S writeFD)) (\<lambda>_.
     go_give (readFD, fdTable)))))))"

definition runTask :: "('k, 'h, 'e) sentry \<Rightarrow> 'h \<Rightarrow> 'h \<Rightarrow> 'h \<Rightarrow> 'h \<Rightarrow> (('k, 'h) world, 'e sentry_error, bytes) step" where
  "runTask S creds mntns readFD fdTable =
     go_bind (go_onError (gtry (NewLinuxLimitSet S)) id CreateLimitsFailed) (\<lambda>limitSet.
     go_bind (stage ''elf-load'') (\<lambda>_.
     go_bind (go_call (\<lambda>w. (namespaces S (kern w), w))) (\<lambda>(uts, ipc, pid).
     go_bind (go_call (withKern (CreateProcess S \<lparr>Filename = ascii ''/hello'', Argv = [ascii ''/hello''],
         Envv = [ascii ''PATH=/''], WorkingDirectory = ascii ''/'', Credentials = creds, FDTable = fdTable,
         Umask = 0x12, Limits = limitSet, MaxSymlinkTraversals = linuxMaxSymlinkTraversals S,
         UTSNamespace = uts, IPCNamespace = ipc, PIDNamespace = pid,
         MountNamespace = mntns, ContainerID = ascii ''spr-gvisor-demo''\<rparr>))) (\<lambda>created.
     go_bind (go_act (release S fdTable)) (\<lambda>_.
     (case created of
        Inl err \<Rightarrow> go_fail (release S readFD) (CreateTaskFailed err)
      | Inr tg \<Rightarrow>
          go_bind (stage ''task-running'') (\<lambda>_.
          go_bind (go_onError (gtry (kernelStart S)) (release S readFD) StartTaskFailed) (\<lambda>_.
          go_bind (go_act (onKern (WaitExited S tg))) (\<lambda>_.
          go_bind (stage ''task-exited'') (\<lambda>_.
          go_bind (go_call (\<lambda>w. (ExitStatus S tg (kern w), w))) (\<lambda>st.
          if \<not> statusExited S st \<or> statusCode S st \<noteq> 0 then go_fail (release S readFD) (TaskStatus st)
          else
            go_bind (go_call (withKern (ReadFD S readFD (length sentryHello)))) (\<lambda>r.
            go_bind (go_act (release S readFD)) (\<lambda>_.
            (case r of Inl err \<Rightarrow> go_fail id (ReadStdoutFailed err) | Inr bs \<Rightarrow> go_give bs))))))))))))))"

definition runSentryHello :: "('k, 'h, 'e) sentry \<Rightarrow> (('k, 'h) world, 'e sentry_error, bytes) step" where
  "runSentryHello S =
     go_bind (sentryInit S) (\<lambda>creds.
     go_bind (createHello S creds) (\<lambda>mntns.
     go_bind (openStdio S mntns) (\<lambda>(readFD, fdTable).
     runTask S creds mntns readFD fdTable)))"

section \<open>Publishing the outcome\<close>

text \<open>The texts of the errors.\<close>

definition signedDec :: "int \<Rightarrow> bytes" where
  "signedDec n = (if n < 0 then ascii ''-'' @ decBytes (nat (- n)) else decBytes (nat n))"

definition sentryErrorText :: "('k, 'h, 'e) sentry \<Rightarrow> 'e sentry_error \<Rightarrow> bytes" where
  "sentryErrorText S err = (case err of
      PrepareVDSOFailed e \<Rightarrow> ascii ''prepare VDSO: '' @ errText S e
    | InitKernelFailed e \<Rightarrow> ascii ''initialize Sentry kernel: '' @ errText S e
    | MountRootFailed e \<Rightarrow> ascii ''mount Sentry root: '' @ errText S e
    | CreateExecutableFailed e \<Rightarrow> ascii ''create embedded executable: '' @ errText S e
    | WriteExecutableFailed n len e \<Rightarrow> ascii ''write embedded executable: wrote '' @ signedDec n @ ascii ''/'' @ signedDec len @
        ascii '': '' @ (case e of None \<Rightarrow> ascii ''<nil>'' | Some e \<Rightarrow> errText S e)
    | CreatePipeFailed e \<Rightarrow> ascii ''create stdout pipe: '' @ errText S e
    | InstallStdoutFailed e \<Rightarrow> ascii ''install stdout: '' @ errText S e
    | InstallStderrFailed e \<Rightarrow> ascii ''install stderr: '' @ errText S e
    | CreateLimitsFailed e \<Rightarrow> ascii ''create task limits: '' @ errText S e
    | CreateTaskFailed e \<Rightarrow> ascii ''create Sentry task: '' @ errText S e
    | StartTaskFailed e \<Rightarrow> ascii ''start Sentry task: '' @ errText S e
    | TaskStatus st \<Rightarrow> ascii ''Sentry task exited with status '' @ hexPrefixed (unat st)
    | ReadStdoutFailed e \<Rightarrow> ascii ''read Sentry stdout: '' @ errText S e)"

definition startGVisorSentry :: "('k, 'h, 'e) sentry \<Rightarrow> ('k, 'h) world \<Rightarrow> ('k, 'h) world" where
  "startGVisorSentry S w =
     (let w = publish (setGVisorStage (ascii ''sentry-starting'')) w in
      (case runSentryHello S w of
         (Inl err, w) \<Rightarrow> publish (setGVisorFailure (sentryErrorText S err)) w
       | (Inr out, w) \<Rightarrow>
           let w = publish (setGVisorOutput out) w in
           if out \<noteq> sentryHello \<or> GlobalInit S (kern w) = None
           then publish (setGVisorFailure (ascii ''Sentry task returned an invalid result'')) w
           else publish (setGVisorStage (ascii ''ready'')) w))"

text \<open>
  \<^verbatim>\<open>gvisorKernelProbe\<close>: \<open>canonical\<close> is \<^verbatim>\<open>ring0.IsCanonical(0x400000)\<close>. A panic of the smoke test is one
  of the probe.
\<close>

definition gvisorKernelProbe :: "bool \<Rightarrow> ('pt, 'm) gvisor \<Rightarrow> u64 \<Rightarrow> u64 \<Rightarrow> ('m \<Rightarrow> bytes) \<Rightarrow> (bytes \<Rightarrow> 'm \<Rightarrow> 'm) \<Rightarrow> u64 \<Rightarrow>
    gvisorStatus \<times> 'm \<Rightarrow> ('e, bool) result \<times> 'pt platform option \<times> gvisorStatus \<times> 'm" where
  "gvisorKernelProbe canonical G swAddr exAddr readPage writePage storageAddr = (\<lambda>(s, m).
     (if \<not> canonical then (Inr False, None, s, m)
      else
        let (_, p, _) = newPlatform G swAddr exAddr;
            (r, p, m, _) = RunEL0Smoke G readPage writePage storageAddr p m
        in (case r of
              Inl Panic \<Rightarrow> (Inl Panic, Some p, s, m)
            | Inl (Err _) \<Rightarrow> (Inr False, Some p, setGVisorOutput [] s, m)
            | Inr out \<Rightarrow> (Inr (out = sentryHello), Some p, setGVisorOutput out s, m))))"

section \<open>Clocks\<close>

datatype clockID = Monotonic | Realtime | OtherClock int

text \<open>\<^verbatim>\<open>directClocks\<close>, with the nanoseconds of the machine's monotonic and real-time clocks.\<close>

definition Update :: "bool \<times> bool" where "Update = (False, False)"

definition GetTime :: "int \<Rightarrow> int \<Rightarrow> int \<Rightarrow> clockID \<Rightarrow> int + int" where
  "GetTime started monoNow realNow ident = (case ident of
      Monotonic \<Rightarrow> Inr (monoNow - started)
    | Realtime \<Rightarrow> Inr realNow
    | OtherClock i \<Rightarrow> Inl i)"

section \<open>What each part publishes and releases\<close>

text \<open>From \<open>w\<close> to \<open>w'\<close> the stages \<open>xs\<close> were published, nothing else of the status changed, and the
  handles \<open>hs\<close> were released.\<close>

definition passes :: "string list \<Rightarrow> 'h list \<Rightarrow> ('k, 'h) world \<Rightarrow> ('k, 'h) world \<Rightarrow> bool" where
  "passes xs hs w w' \<longleftrightarrow>
     published w' = published w @ map (\<lambda>x. (wStatus w)\<lparr>gvisorStage := ascii x\<rparr>) xs \<and>
     wStatus w' = (if xs = [] then wStatus w else (wStatus w)\<lparr>gvisorStage := ascii (last xs)\<rparr>) \<and>
     released w' = released w @ hs"

definition sameNet :: "('k, 'h) world \<Rightarrow> ('k, 'h) world \<Rightarrow> bool" where
  "sameNet w w' \<longleftrightarrow> networking w' = networking w \<and> sentryIPStack w' = sentryIPStack w"

lemma passes_trans: "passes xs hs w w' \<Longrightarrow> passes ys gs w' w'' \<Longrightarrow> passes (xs @ ys) (hs @ gs) w w''"
  by (auto simp: passes_def)

lemmas sentry_defs = step_defs stage_def gnew_def gtry_def
  withKern_def onKern_def publish_def release_def setGVisorStage_def Let_def

lemma sentryInit_spec:
  "(case sentryInit S w of
     (Inl (PrepareVDSOFailed x), w') \<Rightarrow> passes [''memory-file'', ''vdso''] [] w w' \<and> networking w' = networking w
   | (Inl (InitKernelFailed x), w') \<Rightarrow> passes [''memory-file'', ''vdso'', ''timekeeper'', ''kernel-init''] [] w w' \<and> networking w' = networking w
   | (Inl _, w') \<Rightarrow> False
   | (Inr creds, w') \<Rightarrow> passes [''memory-file'', ''vdso'', ''timekeeper'', ''kernel-init''] [] w w' \<and> networking w' \<and> sentryIPStack w' \<noteq> None)"
  by (simp add: sentryInit_def newSentryNetworkNamespace_def sentry_defs passes_def split: prod.split sum.split)

text \<open>A result that a call gives in some state of the kernel.\<close>

definition returns :: "('k \<Rightarrow> 'a \<times> 'k) \<Rightarrow> 'a \<Rightarrow> bool" where
  "returns f x \<longleftrightarrow> (\<exists>k. fst (f k) = x)"

lemma returnsI: "f k = (x, k') \<Longrightarrow> returns f x"
  unfolding returns_def by (metis fst_conv)

text \<open>
  Where the handles come from. \<open>rootfsOf S mntns root r\<close>: \<open>mntns\<close> is the mount namespace made on the tmpfs,
  \<open>root\<close> its root, and \<open>r\<close> the result of opening the executable there. \<open>pipeOf\<close>: the two ends of one pipe,
  and the descriptor table.
\<close>

definition rootfsOf :: "('k, 'h, 'e) sentry \<Rightarrow> 'h \<Rightarrow> 'h \<Rightarrow> 'e + 'h \<Rightarrow> bool" where
  "rootfsOf S mntns root r \<longleftrightarrow> (\<exists>creds. returns (NewMountNamespace S creds (ascii ''root'') (tmpfsName S)) (Inr mntns) \<and>
     returns (rootOf S mntns) root \<and> returns (OpenAt S creds root (ascii ''hello'') (0x1 OR 0x40 OR 0x80) 0x1ed) r)"

definition pipeOf :: "('k, 'h, 'e) sentry \<Rightarrow> 'h \<Rightarrow> 'h \<Rightarrow> 'h \<Rightarrow> bool" where
  "pipeOf S readFD writeFD fdTable \<longleftrightarrow> returns (NewConnectedPipeFDs S) (Inr (readFD, writeFD)) \<and> returns (NewFDTable S) fdTable"

abbreviation held :: "'h option \<Rightarrow> 'h list" where
  "held d \<equiv> (case d of None \<Rightarrow> [] | Some h \<Rightarrow> [h])"

lemma createHello_spec:
  "sameNet w (snd (createHello S creds w)) \<and> (case createHello S creds w of
     (Inl (MountRootFailed x), w') \<Rightarrow> passes [''rootfs''] [] w w'
   | (Inl (CreateExecutableFailed x), w') \<Rightarrow> \<exists>root mntns. rootfsOf S mntns root (Inl x) \<and> passes [''rootfs''] [root, mntns] w w'
   | (Inl (WriteExecutableFailed n l x), w') \<Rightarrow> \<exists>root execFD mntns. rootfsOf S mntns root (Inr execFD) \<and>
       passes [''rootfs''] [root, execFD, mntns] w w'
   | (Inl _, w') \<Rightarrow> False
   | (Inr mntns, w') \<Rightarrow> \<exists>root execFD. rootfsOf S mntns root (Inr execFD) \<and> passes [''rootfs''] [root, execFD] w w')"
  unfolding rootfsOf_def
  by (auto simp: createHello_def sentry_defs passes_def sameNet_def split: prod.split sum.split intro!: exI returnsI)

lemma installFD_spec:
  assumes "installFD S fdTable fd writeFD wrap w = (r, w')"
  shows "sameNet w w' \<and> (case r of
     Inl e \<Rightarrow> \<exists>x. e = wrap x \<and> returns (NewFDAt S fdTable fd writeFD) (Inl x) \<and> passes [] [] w w'
   | Inr _ \<Rightarrow> \<exists>d. returns (NewFDAt S fdTable fd writeFD) (Inr d) \<and> passes [] (held d) w w')"
proof -
  obtain x k where x: "NewFDAt S fdTable fd writeFD (kern w) = (x, k)" by fastforce
  have rx: "returns (NewFDAt S fdTable fd writeFD) x" using x by (rule returnsI)
  show ?thesis
  proof (cases x)
    case (Inl e)
    then show ?thesis using assms x rx by (auto simp: installFD_def sentry_defs passes_def sameNet_def)
  next
    case (Inr d)
    have "sameNet w w' \<and> r = Inr () \<and> passes [] (held d) w w'"
      using assms x Inr by (cases d) (auto simp: installFD_def sentry_defs passes_def sameNet_def)
    then show ?thesis using rx Inr by auto
  qed
qed

lemma openStdio_spec:
  "sameNet w (snd (openStdio S mntns w)) \<and> (case openStdio S mntns w of
     (Inl (CreatePipeFailed x), w') \<Rightarrow> passes [''stdio''] [mntns] w w'
   | (Inl (InstallStdoutFailed x), w') \<Rightarrow> \<exists>readFD writeFD fdTable. pipeOf S readFD writeFD fdTable \<and>
       returns (NewFDAt S fdTable 1 writeFD) (Inl x) \<and> passes [''stdio''] [] w w'
   | (Inl (InstallStderrFailed x), w') \<Rightarrow> \<exists>readFD writeFD fdTable d1. pipeOf S readFD writeFD fdTable \<and>
       returns (NewFDAt S fdTable 1 writeFD) (Inr d1) \<and> returns (NewFDAt S fdTable 2 writeFD) (Inl x) \<and>
       passes [''stdio''] (held d1) w w'
   | (Inl _, w') \<Rightarrow> False
   | (Inr (readFD, fdTable), w') \<Rightarrow> \<exists>writeFD d1 d2. pipeOf S readFD writeFD fdTable \<and>
       returns (NewFDAt S fdTable 1 writeFD) (Inr d1) \<and> returns (NewFDAt S fdTable 2 writeFD) (Inr d2) \<and>
       passes [''stdio''] (held d1 @ held d2 @ [writeFD]) w w')"
proof -
  obtain p k where p: "NewConnectedPipeFDs S (kern w) = (p, k)" by fastforce
  show ?thesis
  proof (cases p)
    case (Inl e)
    then show ?thesis using p by (simp add: openStdio_def sentry_defs passes_def sameNet_def)
  next
    case (Inr fds)
    obtain readFD writeFD where fds: "fds = (readFD, writeFD)" by fastforce
    obtain fdTable k1 where t: "NewFDTable S k = (fdTable, k1)" by fastforce
    have pipe: "pipeOf S readFD writeFD fdTable"
      using returnsI [of "NewConnectedPipeFDs S", OF p] returnsI [of "NewFDTable S", OF t] by (simp add: pipeOf_def Inr fds)
    define w1 where "w1 = (publish (setGVisorStage (ascii ''stdio'')) w)\<lparr>kern := k1\<rparr>"
    have w1: "sameNet w w1" "passes [''stdio''] [] w w1"
      by (simp_all add: w1_def sameNet_def passes_def publish_def setGVisorStage_def)
    obtain r2 w2 where 2: "installFD S fdTable 1 writeFD InstallStdoutFailed w1 = (r2, w2)" by fastforce
    note s2 = installFD_spec [OF this]
    have run: "openStdio S mntns w = go_bind (installFD S fdTable 1 writeFD InstallStdoutFailed) (\<lambda>_.
        go_bind (installFD S fdTable 2 writeFD InstallStderrFailed) (\<lambda>_.
        go_bind (go_act (release S writeFD)) (\<lambda>_. go_give (readFD, fdTable)))) w1"
      using p Inr fds t by (simp add: openStdio_def sentry_defs w1_def)
    show ?thesis
    proof (cases r2)
      case (Inl e)
      then show ?thesis using run 2 s2 pipe w1 passes_trans [OF w1(2)]
        by (fastforce simp: go_bind_def sameNet_def)
    next
      case (Inr u)
      obtain r3 w3 where 3: "installFD S fdTable 2 writeFD InstallStderrFailed w2 = (r3, w3)" by fastforce
      note s3 = installFD_spec [OF this]
      from s2 Inr obtain d1 where d1: "returns (NewFDAt S fdTable 1 writeFD) (Inr d1)" "passes [] (held d1) w1 w2" by auto
      note p2 = passes_trans [OF w1(2) d1(2)]
      have same: "sameNet w w3" using w1 s2 s3 by (simp add: sameNet_def)
      show ?thesis
      proof (cases r3)
        case (Inl e)
        then show ?thesis using run 2 3 s3 pipe d1(1) same \<open>r2 = Inr u\<close> passes_trans [OF p2]
          by (fastforce simp: go_bind_def)
      next
        case (Inr v)
        from s3 Inr obtain d2 where d2: "returns (NewFDAt S fdTable 2 writeFD) (Inr d2)" "passes [] (held d2) w2 w3" by auto
        have "passes [''stdio''] (held d1 @ held d2 @ [writeFD]) w (release S writeFD w3)"
          using passes_trans [OF p2 d2(2)] by (simp add: passes_def release_def)
        moreover have "sameNet w (release S writeFD w3)" using same by (simp add: sameNet_def release_def)
        ultimately show ?thesis using run 2 3 pipe d1(1) d2(1) Inr \<open>r2 = Inr u\<close>
          by (fastforce simp: go_bind_def go_act_def go_give_def)
      qed
    qed
  qed
qed

lemma runTask_spec:
  "sameNet w (snd (runTask S creds mntns readFD fdTable w)) \<and> (case runTask S creds mntns readFD fdTable w of
     (Inl (CreateLimitsFailed x), w') \<Rightarrow> passes [] [] w w'
   | (Inl (CreateTaskFailed x), w') \<Rightarrow> passes [''elf-load''] [fdTable, readFD] w w'
   | (Inl (StartTaskFailed x), w') \<Rightarrow> passes [''elf-load'', ''task-running''] [fdTable, readFD] w w'
   | (Inl (TaskStatus st), w') \<Rightarrow> passes [''elf-load'', ''task-running'', ''task-exited''] [fdTable, readFD] w w' \<and>
       (\<not> statusExited S st \<or> statusCode S st \<noteq> 0)
   | (Inl (ReadStdoutFailed x), w') \<Rightarrow> passes [''elf-load'', ''task-running'', ''task-exited''] [fdTable, readFD] w w'
   | (Inl _, w') \<Rightarrow> False
   | (Inr out, w') \<Rightarrow> passes [''elf-load'', ''task-running'', ''task-exited''] [fdTable, readFD] w w')"
  by (simp add: runTask_def sentry_defs passes_def sameNet_def split: prod.split sum.split)

text \<open>The stages in order, and how many of them a run has published when it ends.\<close>

definition bootStages :: "string list" where
  "bootStages = [''memory-file'', ''vdso'', ''timekeeper'', ''kernel-init'', ''rootfs'', ''stdio'', ''elf-load'', ''task-running'', ''task-exited'']"

fun stagesOf :: "'e sentry_error + bytes \<Rightarrow> nat" where
  "stagesOf (Inl (PrepareVDSOFailed e)) = 2"
| "stagesOf (Inl (InitKernelFailed e)) = 4"
| "stagesOf (Inl (MountRootFailed e)) = 5"
| "stagesOf (Inl (CreateExecutableFailed e)) = 5"
| "stagesOf (Inl (WriteExecutableFailed n l e)) = 5"
| "stagesOf (Inl (CreatePipeFailed e)) = 6"
| "stagesOf (Inl (InstallStdoutFailed e)) = 6"
| "stagesOf (Inl (InstallStderrFailed e)) = 6"
| "stagesOf (Inl (CreateLimitsFailed e)) = 6"
| "stagesOf (Inl (CreateTaskFailed e)) = 7"
| "stagesOf (Inl (StartTaskFailed e)) = 8"
| "stagesOf r = 9"

text \<open>
  The handles released by then, each named by the call that made it: the root, the executable, what the
  two installations displaced, the write end, the table and the read end; on the errors of the file
  system and of the pipe also the mount namespace.
\<close>

definition releasesOf :: "('k, 'h, 'e) sentry \<Rightarrow> 'e sentry_error + bytes \<Rightarrow> 'h list \<Rightarrow> bool" where
  "releasesOf S r hs = (case r of
      Inl (PrepareVDSOFailed e) \<Rightarrow> hs = []
    | Inl (InitKernelFailed e) \<Rightarrow> hs = []
    | Inl (MountRootFailed e) \<Rightarrow> hs = []
    | Inl (CreateExecutableFailed e) \<Rightarrow> \<exists>root mntns. rootfsOf S mntns root (Inl e) \<and> hs = [root, mntns]
    | Inl (WriteExecutableFailed n l e) \<Rightarrow> \<exists>root execFD mntns. rootfsOf S mntns root (Inr execFD) \<and> hs = [root, execFD, mntns]
    | Inl (CreatePipeFailed e) \<Rightarrow> \<exists>root execFD mntns. rootfsOf S mntns root (Inr execFD) \<and> hs = [root, execFD, mntns]
    | Inl (InstallStdoutFailed e) \<Rightarrow> \<exists>root execFD mntns readFD writeFD fdTable.
        rootfsOf S mntns root (Inr execFD) \<and> pipeOf S readFD writeFD fdTable \<and>
        returns (NewFDAt S fdTable 1 writeFD) (Inl e) \<and> hs = [root, execFD]
    | Inl (InstallStderrFailed e) \<Rightarrow> \<exists>root execFD mntns readFD writeFD fdTable d1.
        rootfsOf S mntns root (Inr execFD) \<and> pipeOf S readFD writeFD fdTable \<and>
        returns (NewFDAt S fdTable 1 writeFD) (Inr d1) \<and> returns (NewFDAt S fdTable 2 writeFD) (Inl e) \<and>
        hs = [root, execFD] @ held d1
    | _ \<Rightarrow> \<exists>root execFD mntns readFD writeFD fdTable d1 d2.
        rootfsOf S mntns root (Inr execFD) \<and> pipeOf S readFD writeFD fdTable \<and>
        returns (NewFDAt S fdTable 1 writeFD) (Inr d1) \<and> returns (NewFDAt S fdTable 2 writeFD) (Inr d2) \<and>
        hs = [root, execFD] @ held d1 @ held d2 @ [writeFD] @
          (case r of Inl (CreateLimitsFailed e) \<Rightarrow> [] | _ \<Rightarrow> [fdTable, readFD]))"

lemma bootStages_take:
  "take 2 bootStages = [''memory-file'', ''vdso'']"
  "take 4 bootStages = [''memory-file'', ''vdso'', ''timekeeper'', ''kernel-init'']"
  "take 5 bootStages = [''memory-file'', ''vdso'', ''timekeeper'', ''kernel-init''] @ [''rootfs'']"
  "take 6 bootStages = take 5 bootStages @ [''stdio'']"
  "take 7 bootStages = take 6 bootStages @ [''elf-load'']"
  "take 8 bootStages = take 6 bootStages @ [''elf-load'', ''task-running'']"
  "take 9 bootStages = take 6 bootStages @ [''elf-load'', ''task-running'', ''task-exited'']"
  by (simp_all add: bootStages_def)

lemma runSentryHello_spec:
  fixes S :: "('k, 'h, 'e) sentry"
  assumes run: "runSentryHello S w = (r, w')"
  shows "\<exists>hs. passes (take (stagesOf r) bootStages) hs w w' \<and> releasesOf S r hs \<and>
    (if stagesOf r \<le> 4 then networking w' = networking w else networking w' \<and> sentryIPStack w' \<noteq> None)"
proof -
  obtain r1 w1 where 1: "sentryInit S w = (r1, w1)" by fastforce
  note s1 = sentryInit_spec [of w S, unfolded 1]
  show ?thesis
  proof (cases r1)
    case (Inl e)
    then have "r = Inl e \<and> w' = w1" using run 1 by (simp add: runSentryHello_def go_bind_def)
    then show ?thesis using s1 Inl by (cases e) (auto simp: bootStages_take releasesOf_def intro!: exI [of _ "[]"])
  next
    case (Inr creds)
    obtain r2 w2 where 2: "createHello S creds w1 = (r2, w2)" by fastforce
    note s2 = createHello_spec [of w1 S creds, unfolded 2]
    have net1: "networking w1 \<and> sentryIPStack w1 \<noteq> None" and p1: "passes (take 4 bootStages) [] w w1"
      using s1 Inr by (simp_all add: bootStages_take)
    then have net2: "networking w2 \<and> sentryIPStack w2 \<noteq> None" using s2 by (simp add: sameNet_def)
    show ?thesis
    proof (cases r2)
      case (Inl e)
      then have "r = Inl e \<and> w' = w2" using run 1 2 \<open>r1 = Inr creds\<close> by (simp add: runSentryHello_def go_bind_def)
      then show ?thesis using s2 Inl net2 p1
        by (cases e) (auto simp: bootStages_take releasesOf_def dest!: passes_trans [OF p1])
    next
      case (Inr mntns)
      obtain r3 w3 where 3: "openStdio S mntns w2 = (r3, w3)" by fastforce
      note s3 = openStdio_spec [of w2 S mntns, unfolded 3]
      have net3: "networking w3 \<and> sentryIPStack w3 \<noteq> None" using net2 s3 by (simp add: sameNet_def)
      from s2 Inr obtain root execFD where fs: "rootfsOf S mntns root (Inr execFD)" "passes [''rootfs''] [root, execFD] w1 w2" by auto
      from passes_trans [OF p1 fs(2)] have p2: "passes (take 5 bootStages) [root, execFD] w w2" by (simp add: bootStages_take)
      show ?thesis
      proof (cases r3)
        case (Inl e)
        then have "r = Inl e \<and> w' = w3" using run 1 2 3 \<open>r1 = Inr creds\<close> \<open>r2 = Inr mntns\<close>
          by (simp add: runSentryHello_def go_bind_def)
        then show ?thesis using s3 Inl net3
          by (cases e) (use fs(1) in \<open>fastforce simp: bootStages_take(4) releasesOf_def dest!: passes_trans [OF p2]\<close>)+
      next
        case (Inr fds)
        obtain readFD fdTable where fds: "fds = (readFD, fdTable)" by fastforce
        obtain r4 w4 where 4: "runTask S creds mntns readFD fdTable w3 = (r4, w4)" by fastforce
        note s4 = runTask_spec [of w3 S creds mntns readFD fdTable, unfolded 4]
        have net4: "networking w4 \<and> sentryIPStack w4 \<noteq> None" using net3 s4 by (simp add: sameNet_def)
        have rw: "r = r4 \<and> w' = w4" using run 1 2 3 4 \<open>r1 = Inr creds\<close> \<open>r2 = Inr mntns\<close> Inr fds
          by (cases r4) (simp_all add: runSentryHello_def go_bind_def)
        from s3 Inr fds obtain writeFD d1 d2 where io: "pipeOf S readFD writeFD fdTable"
            "returns (NewFDAt S fdTable 1 writeFD) (Inr d1)" "returns (NewFDAt S fdTable 2 writeFD) (Inr d2)"
            "passes [''stdio''] (held d1 @ held d2 @ [writeFD]) w2 w3" by auto
        define hs where "hs = [root, execFD] @ held d1 @ held d2 @ [writeFD]"
        from passes_trans [OF p2 io(4)] have p3: "passes (take 6 bootStages) hs w w3"
          by (simp add: bootStages_take(4) hs_def)
        have full: "releasesOf S q (hs @ (case q of Inl (CreateLimitsFailed e) \<Rightarrow> [] | _ \<Rightarrow> [fdTable, readFD]))"
          if "stagesOf q \<ge> 7 \<or> (\<exists>e. q = Inl (CreateLimitsFailed e))" for q
          using fs(1) io(1-3) that unfolding releasesOf_def hs_def
          by (cases q rule: stagesOf.cases) (simp_all, blast+)
        show ?thesis
        proof (cases r4)
          case (Inl e)
          then show ?thesis using s4 net4 rw p3 full [of r4]
            by (cases e) (auto simp: bootStages_take(5-7) dest!: passes_trans [OF p3])
        next
          case (Inr out)
          then show ?thesis using s4 net4 rw passes_trans [OF p3, of "[''elf-load'', ''task-running'', ''task-exited'']" "[fdTable, readFD]" w4] full [of r4]
            by (auto simp: bootStages_take(7))
        qed
      qed
    qed
  qed
qed

section \<open>Properties\<close>

text \<open>C24: the boot publishes the nine stages in their order, as far as it gets, and each error ends it after
  the stage in which it can occur; the networking goroutine is started exactly when the Sentry's
  kernel was initialised, and then the network stack it needs is set.\<close>

theorem sentry_stages:
  "(\<lambda>(r, w'). \<exists>hs. passes (take (stagesOf r) bootStages) hs w w' \<and>
     (if stagesOf r \<le> 4 then networking w' = networking w else networking w' \<and> sentryIPStack w' \<noteq> None))
   (runSentryHello S w)"
proof -
  obtain r w' where run: "runSentryHello S w = (r, w')" by fastforce
  from runSentryHello_spec [OF this] show ?thesis unfolding run by auto
qed

lemma releasesOf_bounds:
  "releasesOf S r hs \<Longrightarrow> length hs \<le> 7 \<and>
     (case r of Inl (InstallStdoutFailed e) \<Rightarrow> length hs = 2 | Inr out \<Rightarrow> 5 \<le> length hs | _ \<Rightarrow> True)"
  by (cases r rule: stagesOf.cases) (auto simp: releasesOf_def split: option.split)

text \<open>C25: which handles a run releases, by outcome, each named by the call that made it. Opening the
  executable failed: the root and the mount namespace it belongs to. Writing it or making the pipe failed:
  root, executable and mount namespace. A run that reaches the task: root, executable, what the two
  installations displaced, the write end, the table and the read end, each once, and never the mount
  namespace. But when an installation or the creation of the limits fails, the mount namespace, the read
  end and the table stay allocated, and after a failed installation the write end too.\<close>

theorem sentry_releases:
  "(\<lambda>(r, w'). \<exists>hs. released w' = released w @ hs \<and> releasesOf S r hs \<and>
     length hs \<le> 7 \<and> (case r of Inl (InstallStdoutFailed e) \<Rightarrow> length hs = 2 | Inr out \<Rightarrow> 5 \<le> length hs | _ \<Rightarrow> True))
   (runSentryHello S w)"
proof -
  obtain r w' where run: "runSentryHello S w = (r, w')" by fastforce
  from runSentryHello_spec [OF this] obtain hs where hs: "released w' = released w @ hs" "releasesOf S r hs"
    by (auto simp: passes_def)
  with releasesOf_bounds [OF hs(2)] show ?thesis unfolding run by auto
qed

definition statusOk :: "gvisorStatus \<Rightarrow> bool" where
  "statusOk s \<longleftrightarrow> (gvisorStage s = ascii ''ready'' \<longrightarrow> gvisorEL0Output s = sentryHello \<and> gvisorSentryError s = []) \<and>
     (gvisorSentryError s \<noteq> [] \<longleftrightarrow> gvisorStage s = ascii ''failed'')"

lemma sentryErrorText_nonempty: "sentryErrorText S err \<noteq> []"
  by (cases err) (simp_all add: sentryErrorText_def ascii_def)

lemma bootStages_plain:
  "list_all (\<lambda>x. ascii x \<noteq> ascii ''ready'' \<and> ascii x \<noteq> ascii ''failed'') bootStages"
  by (simp add: bootStages_def ascii_def of_char_def)

lemma passes_statusOk:
  assumes "passes xs hs w w'" "prefix xs bootStages" "gvisorSentryError (wStatus w) = []"
    and "gvisorStage (wStatus w) \<notin> {ascii ''ready'', ascii ''failed''}"
  shows "\<exists>new. published w' = published w @ new \<and> list_all statusOk new \<and> gvisorSentryError (wStatus w') = [] \<and>
    gvisorStage (wStatus w') \<notin> {ascii ''ready'', ascii ''failed''}"
proof -
  from assms(2) have plain: "list_all (\<lambda>x. ascii x \<noteq> ascii ''ready'' \<and> ascii x \<noteq> ascii ''failed'') xs"
    using bootStages_plain set_mono_prefix [of xs bootStages] by (auto simp: list_all_iff)
  then have "list_all statusOk (map (\<lambda>x. (wStatus w)\<lparr>gvisorStage := ascii x\<rparr>) xs)"
    using assms(3) by (simp add: list_all_iff statusOk_def)
  moreover have "xs \<noteq> [] \<Longrightarrow> ascii (last xs) \<notin> {ascii ''ready'', ascii ''failed''}"
    using plain last_in_set [of xs] by (auto simp: list_all_iff)
  ultimately show ?thesis using assms(1,3,4) by (auto simp: passes_def)
qed

text \<open>C23: in no status it ever publishes does the kernel claim to be ready without the greeting as its
  output and no error, or report an error in a stage other than failed; and it ends ready or failed,
  ready exactly when the task's output was the greeting and an init process exists.\<close>

theorem sentry_status:
  assumes "gvisorSentryError (wStatus w) = []"
  shows "let w0 = publish (setGVisorStage (ascii ''sentry-starting'')) w;
             (r, w1) = runSentryHello S w0; w' = startGVisorSentry S w
    in \<exists>new. published w' = published w @ new \<and> list_all statusOk new \<and>
       gvisorStage (wStatus w') = (if r = Inr sentryHello \<and> GlobalInit S (kern w1) \<noteq> None then ascii ''ready'' else ascii ''failed'') \<and>
       statusOk (wStatus w')"
proof -
  define w0 where "w0 = publish (setGVisorStage (ascii ''sentry-starting'')) w"
  obtain r w1 where run: "runSentryHello S w0 = (r, w1)" by fastforce
  have e0: "gvisorSentryError (wStatus w0) = []" using assms by (simp add: w0_def publish_def setGVisorStage_def)
  have ne: "ascii ''sentry-starting'' \<noteq> ascii ''ready''" "ascii ''sentry-starting'' \<noteq> ascii ''failed''"
    "ascii ''failed'' \<noteq> ascii ''ready''" by (simp_all add: ascii_def of_char_def)
  have first: "published w0 = published w @ [wStatus w0]" "statusOk (wStatus w0)"
      "gvisorStage (wStatus w0) \<notin> {ascii ''ready'', ascii ''failed''}"
    using assms ne by (simp_all add: w0_def publish_def setGVisorStage_def statusOk_def)
  obtain hs where "passes (take (stagesOf r) bootStages) hs w0 w1" using runSentryHello_spec [OF run] by auto
  from passes_statusOk [OF this take_is_prefix e0 first(3)]
  obtain new where new: "published w1 = published w0 @ new" "list_all statusOk new" "gvisorSentryError (wStatus w1) = []"
    and stage1: "gvisorStage (wStatus w1) \<noteq> ascii ''ready''" "gvisorStage (wStatus w1) \<noteq> ascii ''failed''"
    by auto
  have msg: "ascii ''Sentry task returned an invalid result'' \<noteq> []" by (simp add: ascii_def)
  show ?thesis
  proof (cases r)
    case (Inl err)
    then show ?thesis
      using run new first ne sentryErrorText_nonempty [of S err]
      by (simp add: startGVisorSentry_def Let_def flip: w0_def) (simp add: publish_def setGVisorFailure_def statusOk_def)
  next
    case (Inr out)
    then show ?thesis
      using run new first ne stage1 msg
      by (simp add: startGVisorSentry_def Let_def flip: w0_def)
        (simp add: publish_def setGVisorFailure_def setGVisorOutput_def setGVisorStage_def statusOk_def)
  qed
qed

text \<open>
  A Sentry that does what is asked of it: handles are numbers, the state is the next handle and the
  contents of the file, and what the pipe yields is what the file writes when it is run.
\<close>

definition testNew :: "nat \<times> bytes \<Rightarrow> nat \<times> nat \<times> bytes" where "testNew k = (fst k, Suc (fst k), snd k)"

definition testTry :: "nat \<times> bytes \<Rightarrow> (unit + nat) \<times> nat \<times> bytes" where
  "testTry k = (Inr (fst k), Suc (fst k), snd k)"

definition testSentry :: "(nat \<times> bytes, nat, unit) sentry" where
  "testSentry = \<lparr>NewMemoryFileBareMetal = testNew, SetPlatform = id, SetMemoryFile = (\<lambda>_ k. k), PrepareVDSO = (\<lambda>_. testTry),
     NewVDSOParamPage = (\<lambda>_ _. testNew), NewTimekeeper = testNew, SetClocks = (\<lambda>_ _ k. k), NewRootUserNamespace = testNew,
     NewRootCredentials = (\<lambda>_. testNew), newTCPStack = testNew, NewGVisorStack = (\<lambda>_. testNew), setTCPStack = (\<lambda>_ _ k. k),
     NewStack = (\<lambda>_ _. testNew), NewRootNamespace = (\<lambda>_ _. testNew), HostFeatureSet = testNew,
     NewUTSNamespace = (\<lambda>_ _ _. testNew), NewIPCNamespace = (\<lambda>_. testNew), NewRootPIDNamespace = (\<lambda>_. testNew),
     kernelInit = (\<lambda>_ k. (Inr (), k)), MustRegisterTmpfs = (\<lambda>_ _ _. id), NewMountNamespace = (\<lambda>_ _ _. testTry), rootOf = (\<lambda>_. testNew),
     OpenAt = (\<lambda>_ _ _ _ _. testTry), WriteFD = (\<lambda>_ bs k. ((int (length bs), None), fst k, bs)),
     NewConnectedPipeFDs = (\<lambda>k. (Inr (fst k, Suc (fst k)), Suc (Suc (fst k)), snd k)), NewFDTable = testNew,
     NewFDAt = (\<lambda>_ _ _ k. (Inr None, k)), NewLinuxLimitSet = testTry, namespaces = (\<lambda>_. (0, 0, 0)),
     CreateProcess = (\<lambda>_. testTry), kernelStart = (\<lambda>k. (Inr (), k)), WaitExited = (\<lambda>_ k. k), ExitStatus = (\<lambda>_ _. 0),
     statusExited = (\<lambda>st. st = 0), statusCode = (\<lambda>_. 0),
     ReadFD = (\<lambda>_ n k. (Inr (case runELF 8 (snd k) of Exited _ ws \<Rightarrow> take n (concat (map snd ws)) | _ \<Rightarrow> []), k)),
     decRef = (\<lambda>_ k. k), GlobalInit = (\<lambda>_. Some 1), errText = (\<lambda>_. []), sentryPageSize = 4096,
     tmpfsName = ascii ''tmpfs'', newCgroup2Filesystem = 0, linuxMaxSymlinkTraversals = 40\<rparr>"

definition testWorld :: "(nat \<times> bytes, nat) world" where
  "testWorld = \<lparr>kern = (0, []), wStatus = initialStatus, published = [], sentryIPStack = None, networking = False, released = []\<rparr>"

lemma testSentry_run:
  "fst (runSentryHello testSentry (publish (setGVisorStage (ascii ''sentry-starting'')) testWorld)) = Inr sentryHello"
proof -
  have hello: "runELF 8 (linuxHelloELF 4096 sentryHello) = Exited 0 [(1, take (length sentryHello mod 65536) sentryHello)]"
    by (simp add: runELF_def load_hello run_hello sentryHello_def del: runA64.simps)
  have len: "length sentryHello = 32" by (simp add: sentryHello_def)
  have elf: "length (linuxHelloELF 4096 sentryHello) = 192" by (simp add: elf_length len)
  show ?thesis
    by (simp add: runSentryHello_def sentryInit_def newSentryNetworkNamespace_def createHello_def openStdio_def installFD_def
        runTask_def sentry_defs testSentry_def testNew_def testTry_def testWorld_def elf hello len del: length_ascii)
qed

theorem sentry_status_witness:
  "gvisorStage (wStatus (startGVisorSentry testSentry testWorld)) = ascii ''ready'' \<and>
    statusOk (wStatus (startGVisorSentry testSentry testWorld))"
proof -
  obtain r w1 where run: "runSentryHello testSentry (publish (setGVisorStage (ascii ''sentry-starting'')) testWorld) = (r, w1)"
    by fastforce
  have "r = Inr sentryHello" using testSentry_run run by simp
  moreover have "gvisorSentryError (wStatus testWorld) = []" by (simp add: testWorld_def initialStatus_def)
  moreover have "GlobalInit testSentry (kern w1) \<noteq> None" by (simp add: testSentry_def)
  ultimately show ?thesis
    using sentry_status [of testWorld testSentry] run by (auto simp: Let_def)
qed

end
