(* ===== verification/Network.thy ===== *)
theory Network
  imports Http Mmio_Scan Dhcp_Client
begin

text \<open>
  The networking goroutine of \<^verbatim>\<open>kernel/network_tamago.go\<close>: \<^verbatim>\<open>startInternetNetworking\<close> finds the VirtIO
  network device, acquires a DHCP lease, configures the Sentry's stack, and probes the Internet until
  a probe succeeds, publishing each step. The machine is a state \<open>'s\<close>; go-net's interface, the resolver,
  the dialer and the timer are fields of a parameter.
\<close>

section \<open>Texts\<close>

definition ipv4String :: "u8 \<Rightarrow> u8 \<Rightarrow> u8 \<Rightarrow> u8 \<Rightarrow> bytes" where
  "ipv4String a b c d = decBytes (unat a) @ [0x2e] @ decBytes (unat b) @ [0x2e] @ decBytes (unat c) @ [0x2e] @ decBytes (unat d)"

text \<open>\<^verbatim>\<open>netip.Addr.String\<close>.\<close>

fun AddrString :: "addr \<Rightarrow> bytes" where
  "AddrString AddrZero = ascii ''invalid IP''"
| "AddrString (AddrFrom4 a b c d) = ipv4String a b c d"

definition addrString :: "addr \<Rightarrow> bytes" where
  "addrString a = (let value = AddrString a in if value = ascii ''invalid IP'' then [] else value)"

fun addrStrings :: "addr list \<Rightarrow> bytes list" where
  "addrStrings [] = []"
| "addrStrings (a # as) = (let value = addrString a in if value \<noteq> [] then value # addrStrings as else addrStrings as)"

text \<open>\<^verbatim>\<open>net.HardwareAddr.String\<close>, \<^verbatim>\<open>net.JoinHostPort\<close>, and \<^verbatim>\<open>time.Duration.String\<close> of whole seconds.\<close>

definition macString :: "bytes \<Rightarrow> bytes" where
  "macString mac = joinWith [0x3a] (map (\<lambda>b. [hexDigit (unat b div 16), hexDigit (unat b mod 16)]) mac)"

definition JoinHostPort :: "bytes \<Rightarrow> bytes \<Rightarrow> bytes" where
  "JoinHostPort host port = (if 0x3a \<in> set host then [0x5b] @ host @ [0x5d, 0x3a] @ port else host @ [0x3a] @ port)"

definition durationString :: "int \<Rightarrow> bytes" where
  "durationString d =
     (let s = nat (d div Second); h = s div 3600; m = s div 60 mod 60 in
      (if h > 0 then decBytes h @ ascii ''h'' else []) @ (if h > 0 \<or> m > 0 then decBytes m @ ascii ''m'' else []) @
      decBytes (s mod 60) @ ascii ''s'')"

text \<open>
  \<^verbatim>\<open>net.ParseIP\<close> with \<^verbatim>\<open>To4\<close> on the strings a resolver returns: dotted decimal, no leading zeros. (A
  resolver writes an IPv4-mapped address in dotted form, so no other string has an IPv4 form.)
\<close>

fun parseOctets :: "bytes \<Rightarrow> nat \<Rightarrow> nat \<Rightarrow> u8 list \<Rightarrow> u8 list option" where
  "parseOctets [] digits v acc = (if digits = 0 then None else Some (acc @ [word_of_nat v]))"
| "parseOctets (b # s) digits v acc =
     (if isDigit b then
        (if digits > 0 \<and> v = 0 then None
         else let v = v * 10 + (unat b - 48) in if v > 255 then None else parseOctets s (Suc digits) v acc)
      else if b = 0x2e \<and> digits > 0 then parseOctets s 0 0 (acc @ [word_of_nat v])
      else None)"

definition parseIPv4 :: "bytes \<Rightarrow> bytes option" where
  "parseIPv4 s = (case parseOctets s 0 0 [] of Some [a, b, c, d] \<Rightarrow> Some (ipv4String a b c d) | _ \<Rightarrow> None)"

section \<open>The machine\<close>

record ('s, 'v, 'e) netOps =
  virtioBus :: "u32 \<Rightarrow> ('s, 'v, 'e) virtio"
  virtioNet :: "('s, 'e) netDriver"
  frameDeviceAt :: "u32 \<Rightarrow> ('s, 'e) frameDevice"
  ifaceInit :: "u32 \<Rightarrow> bytes \<Rightarrow> bytes \<Rightarrow> bytes \<Rightarrow> 's \<Rightarrow> 'e option \<times> 's"
  SetDefaultNS :: "bytes list \<Rightarrow> 's \<Rightarrow> 's"
  setSocketFunc :: "'s \<Rightarrow> 's"
  ifaceStart :: "u32 \<Rightarrow> 's \<Rightarrow> 's"
  LookupHost :: "int \<Rightarrow> bytes \<Rightarrow> 's \<Rightarrow> ('e + bytes list) \<times> 's"
  DialContext :: "int \<Rightarrow> bytes \<Rightarrow> 's \<Rightarrow> 'e option \<times> 's"
  closeConn :: "'s \<Rightarrow> 's"
  waitTimer :: "int \<Rightarrow> 's \<Rightarrow> 's"
  netErrText :: "'e \<Rightarrow> bytes"

record 's netWorld =
  net :: 's
  report :: networkStatus
  reports :: "networkStatus list"

definition setNetworkStatus :: "(networkStatus \<Rightarrow> networkStatus) \<Rightarrow> 's netWorld \<Rightarrow> 's netWorld" where
  "setNetworkStatus update w = w\<lparr>report := update (report w), reports := reports w @ [update (report w)]\<rparr>"

definition networkStatusSnapshot :: "'s netWorld \<Rightarrow> networkStatus" where
  "networkStatusSnapshot w = report w"

definition netFailed :: "bytes \<Rightarrow> networkStatus \<Rightarrow> networkStatus" where
  "netFailed err s = s\<lparr>sPhase := ascii ''failed'', sError := err\<rparr>"

text \<open>The callback \<^verbatim>\<open>iface.HandleStackErr\<close>.\<close>

definition handleStackErr :: "('s, 'v, 'e) netOps \<Rightarrow> 'e \<Rightarrow> bool \<Rightarrow> networkStatus \<Rightarrow> networkStatus" where
  "handleStackErr N err isTx s =
     s\<lparr>sError := ascii ''Sentry netstack tx='' @ ascii (if isTx then ''true'' else ''false'') @ ascii '': '' @ netErrText N err\<rparr>"

definition netErrorText :: "('s, 'v, 'e) netOps \<Rightarrow> 'e net_error \<Rightarrow> bytes" where
  "netErrorText N err = (case err of
      ParseFallbackMAC \<Rightarrow> ascii ''parse fallback MAC: address '' @ ascii pluginMAC @ ascii '': invalid MAC address''
    | NetInit base e \<Rightarrow> netErrText N e
    | NoMACConfiguration base \<Rightarrow> ascii ''virtio-net MAC configuration unavailable''
    | NetNotFound \<Rightarrow> ascii ''virtio-net device not found'')"

definition acquireErrorText :: "('s, 'v, 'e) netOps \<Rightarrow> 'e acquire_error \<Rightarrow> bytes" where
  "acquireErrorText N err = (case err of
      NilDevice \<Rightarrow> ascii ''nil DHCP frame device''
    | InvalidMACLength n \<Rightarrow> ascii ''invalid DHCP MAC length '' @ decBytes n
    | TransmitDiscover e \<Rightarrow> ascii ''transmit DHCP discover: '' @ netErrText N e
    | TransmitRequest e \<Rightarrow> ascii ''transmit DHCP request: '' @ netErrText N e
    | NoServerIdentifier \<Rightarrow> ascii ''DHCP offer omitted server identifier''
    | ReceiveFailed e \<Rightarrow> ascii ''receive DHCP: '' @ netErrText N e
    | ServerRejected \<Rightarrow> ascii ''DHCP server rejected request''
    | MessageTimedOut want \<Rightarrow> ascii ''DHCP message type '' @ decBytes (unat want) @ ascii '' timed out''
    | NoValidLease \<Rightarrow> ascii ''DHCP lease has no valid IPv4 address or subnet mask''
    | TimedOut \<Rightarrow> ascii ''DHCP timed out'')"

section \<open>Probing\<close>

definition firstIPv4 :: "bytes list \<Rightarrow> bytes" where
  "firstIPv4 ips = (case List.find (\<lambda>ip. parseIPv4 ip \<noteq> None) ips of None \<Rightarrow> [] | Some ip \<Rightarrow> the (parseIPv4 ip))"

definition netDegraded :: "bytes \<Rightarrow> networkStatus \<Rightarrow> networkStatus" where
  "netDegraded err s = s\<lparr>sPhase := ascii ''degraded'', sProbe := [], sError := err\<rparr>"

definition netOnline :: "networkStatus \<Rightarrow> networkStatus" where
  "netOnline s = s\<lparr>sPhase := ascii ''online'', sProbe := ascii ''Sentry netstack DNS + TCP example.com:80 succeeded'', sError := []\<rparr>"

definition probeInternet :: "('s, 'v, 'e) netOps \<Rightarrow> 's netWorld \<Rightarrow> bool \<times> 's netWorld" where
  "probeInternet N w =
     (let (r, s) = LookupHost N (10 * Second) (ascii ''example.com'') (net w); w = w\<lparr>net := s\<rparr> in
      (case r of
         Inl err \<Rightarrow> (False, setNetworkStatus (netDegraded (ascii ''DNS probe: '' @ netErrText N err)) w)
       | Inr ips \<Rightarrow>
           let ipv4 = firstIPv4 ips in
           if ipv4 = [] then (False, setNetworkStatus (netDegraded (ascii ''DNS probe returned no IPv4 address'')) w)
           else
             let (e, s) = DialContext N (5 * Second) (JoinHostPort ipv4 (ascii ''80'')) (net w); w = w\<lparr>net := s\<rparr> in
             (case e of
                Some err \<Rightarrow> (False, setNetworkStatus (netDegraded (ascii ''Internet TCP probe: '' @ netErrText N err)) w)
              | None \<Rightarrow> (True, setNetworkStatus netOnline (w\<lparr>net := closeConn N (net w)\<rparr>)))))"

text \<open>The loop has no bound: \<open>None\<close> is probing for ever.\<close>

partial_function (option) probeInternetUntilReady :: "('s, 'v, 'e) netOps \<Rightarrow> 's netWorld \<Rightarrow> 's netWorld option" where
  "probeInternetUntilReady N w =
     (case probeInternet N w of
        (ok, w) \<Rightarrow> if ok then Some w else probeInternetUntilReady N (w\<lparr>net := waitTimer N (5 * Second) (net w)\<rparr>))"

section \<open>Bringing the network up\<close>

definition netClient :: "bytes \<Rightarrow> client" where
  "netClient mac = \<lparr>clientMAC = mac, clientHostname = ascii ''spr-gvisor-demo'', clientTimeout = 30 * Second\<rparr>"

definition netConfigured :: "lease \<Rightarrow> networkStatus \<Rightarrow> networkStatus" where
  "netConfigured l s = s\<lparr>sPhase := ascii ''online'', sAddress := ascii (CIDR l), sGateway := addrString (Gateway l),
     sDNS := addrStrings (DNS l), sLease := durationString (Duration l), sError := []\<rparr>"

text \<open>From the lease on.\<close>

definition configureNetwork :: "('s, 'v, 'e) netOps \<Rightarrow> u32 \<Rightarrow> lease \<Rightarrow> 's netWorld \<Rightarrow> 's netWorld option" where
  "configureNetwork N base l w =
     (let (e, s) = ifaceInit N base (ascii (CIDR l)) (macString (leaseMAC l)) (addrString (Gateway l)) (net w);
          w = w\<lparr>net := s\<rparr>
      in (case e of
            Some err \<Rightarrow> Some (setNetworkStatus (netFailed (ascii ''configure Sentry netstack: '' @ netErrText N err)) w)
          | None \<Rightarrow>
              let dnsServers = addrStrings (DNS l);
                  w = (if length dnsServers \<noteq> 0
                       then w\<lparr>net := SetDefaultNS N (map (\<lambda>server. JoinHostPort server (ascii ''53'')) dnsServers) (net w)\<rparr> else w);
                  w = w\<lparr>net := setSocketFunc N (net w)\<rparr>;
                  w = w\<lparr>net := ifaceStart N base (net w)\<rparr>;
                  w = setNetworkStatus (netConfigured l) w
              in probeInternetUntilReady N w))"

definition startInternetNetworking :: "('s, 'v, 'e) netOps \<Rightarrow> bool \<Rightarrow> 's netWorld \<Rightarrow> 's netWorld option" where
  "startInternetNetworking N stackReady w =
     (if \<not> stackReady
      then Some (setNetworkStatus (netFailed (ascii ''Sentry network stack was not initialized'')) w)
      else
        let w = setNetworkStatus (\<lambda>s. s\<lparr>sPhase := ascii ''discovering-virtio-net''\<rparr>) w in
        (case FindVirtioNet (virtioBus N) (virtioNet N) virtioMMIOStart virtioMMIOEnd virtioMMIOStep pluginMAC (net w) of
           None \<Rightarrow> None
         | Some (Inl err, s) \<Rightarrow> Some (setNetworkStatus (netFailed (netErrorText N err)) (w\<lparr>net := s\<rparr>))
         | Some (Inr (base, mac), s) \<Rightarrow>
             let w = setNetworkStatus (\<lambda>r. r\<lparr>sPhase := ascii ''dhcp'',
                   sDevice := ascii ''virtio-net MMIO '' @ hexPrefixed (unat base), sMAC := macString mac\<rparr>) (w\<lparr>net := s\<rparr>) in
             (case Acquire (Some (frameDeviceAt N base)) (netClient mac) (net w) of
                None \<Rightarrow> None
              | Some (Inl err, s) \<Rightarrow> Some (setNetworkStatus (netFailed (acquireErrorText N err)) (w\<lparr>net := s\<rparr>))
              | Some (Inr l, s) \<Rightarrow> configureNetwork N base l (w\<lparr>net := s\<rparr>))))"

section \<open>What a probe publishes\<close>

lemma probe_reports:
  assumes "probeInternet N w = (ok, w')"
  shows "\<exists>r. report w' = r \<and> reports w' = reports w @ [r] \<and>
    (if ok then r = netOnline (report w) else \<exists>err. r = netDegraded err (report w))"
  using assms by (auto simp: probeInternet_def setNetworkStatus_def Let_def split: prod.splits sum.splits if_splits option.splits)

text \<open>What the probes leave alone.\<close>

definition leaseView :: "networkStatus \<Rightarrow> bytes \<times> bytes \<times> bytes \<times> bytes \<times> bytes \<times> bytes list \<times> bytes" where
  "leaseView r = (sOwner r, sDevice r, sMAC r, sAddress r, sGateway r, sDNS r, sLease r)"

lemma leaseView_probe [simp]: "leaseView (netOnline r) = leaseView r" "leaseView (netDegraded err r) = leaseView r"
  by (simp_all add: leaseView_def netOnline_def netDegraded_def)

definition probed :: "'s netWorld \<Rightarrow> 's netWorld \<Rightarrow> bool" where
  "probed w w' \<longleftrightarrow> (\<exists>new n. reports w' = reports w @ new \<and>
     map sPhase new = replicate n (ascii ''degraded'') @ [ascii ''online''] \<and>
     leaseView (report w') = leaseView (report w) \<and> sPhase (report w') = ascii ''online'' \<and> sError (report w') = [] \<and>
     sProbe (report w') = ascii ''Sentry netstack DNS + TCP example.com:80 succeeded'')"

lemma probed_online:
  assumes "probeInternet N w = (True, w')"
  shows "probed w w'"
  using probe_reports [OF assms] unfolding probed_def
  by (intro exI [of _ "[report w']"] exI [of _ 0]) (auto simp: netOnline_def leaseView_def)

lemma probed_degraded:
  assumes "probeInternet N w = (False, w1)" "probed (w1\<lparr>net := s\<rparr>) w'"
  shows "probed w w'"
proof -
  obtain err where p: "report w1 = netDegraded err (report w)" "reports w1 = reports w @ [report w1]"
    using probe_reports [OF assms(1)] by auto
  obtain new n where new: "reports w' = reports w1 @ new" "map sPhase new = replicate n (ascii ''degraded'') @ [ascii ''online'']"
    and rest: "leaseView (report w') = leaseView (report w1)" "sPhase (report w') = ascii ''online''" "sError (report w') = []"
      "sProbe (report w') = ascii ''Sentry netstack DNS + TCP example.com:80 succeeded''"
    using assms(2) unfolding probed_def by auto
  have "map sPhase (report w1 # new) = replicate (Suc n) (ascii ''degraded'') @ [ascii ''online'']"
    using new(2) p(1) by (simp add: netDegraded_def)
  moreover have "reports w' = reports w @ (report w1 # new)" using new(1) p(2) by simp
  moreover have "leaseView (report w') = leaseView (report w)" using rest(1) p(1) by simp
  ultimately show ?thesis using rest(2-4) unfolding probed_def by blast
qed

lemma probed_until_ready: "probeInternetUntilReady N w = Some w' \<Longrightarrow> probed w w'"
proof (induction rule: probeInternetUntilReady.raw_induct [rotated 1, consumes 1])
  case (1 loop N w w')
  obtain ok w1 where p: "probeInternet N w = (ok, w1)" by fastforce
  show ?case
  proof (cases ok)
    case True
    then show ?thesis using 1(2) p probed_online by simp
  next
    case False
    then have "loop N (w1\<lparr>net := waitTimer N (5 * Second) (net w1)\<rparr>) = Some w'" using 1(2) p by simp
    from 1(1) [OF this] show ?thesis by (rule probed_degraded [rotated]) (use p False in simp)
  qed
qed

text \<open>The world in which the next probe starts after one that failed.\<close>

definition afterProbe :: "('s, 'v, 'e) netOps \<Rightarrow> 's netWorld \<Rightarrow> 's netWorld" where
  "afterProbe N w = (let w1 = snd (probeInternet N w) in w1\<lparr>net := waitTimer N (5 * Second) (net w1)\<rparr>)"

lemma until_ready_step:
  "probeInternetUntilReady N w =
    (if fst (probeInternet N w) then Some (snd (probeInternet N w)) else probeInternetUntilReady N (afterProbe N w))"
  by (cases "probeInternet N w") (simp add: probeInternetUntilReady.simps [of N w] afterProbe_def Let_def)

lemma until_ready_some:
  "fst (probeInternet N ((afterProbe N ^^ n) w)) \<Longrightarrow> probeInternetUntilReady N w \<noteq> None"
proof (induction n arbitrary: w)
  case 0
  then show ?case by (subst until_ready_step) simp
next
  case (Suc n)
  then have "probeInternetUntilReady N (afterProbe N w) \<noteq> None" by (simp add: funpow_swap1)
  then show ?case by (subst until_ready_step) simp
qed

lemma until_ready_probe:
  "probeInternetUntilReady N w = Some w' \<Longrightarrow> \<exists>n. fst (probeInternet N ((afterProbe N ^^ n) w))"
proof (induction rule: probeInternetUntilReady.raw_induct [rotated 1, consumes 1])
  case (1 loop N w w')
  obtain ok w1 where p: "probeInternet N w = (ok, w1)" by fastforce
  show ?case
  proof (cases ok)
    case True
    then show ?thesis using p by (intro exI [of _ 0]) simp
  next
    case False
    then have "loop N (afterProbe N w) = Some w'" using 1(2) p by (simp add: afterProbe_def Let_def)
    from 1(1) [OF this] obtain n where "fst (probeInternet N ((afterProbe N ^^ n) (afterProbe N w)))" by blast
    then show ?thesis by (intro exI [of _ "Suc n"]) (simp add: funpow_swap1)
  qed
qed

lemma configured_reports:
  assumes "configureNetwork N base l w = Some w'"
  shows "(\<exists>err. report w' = netFailed err (report w) \<and> reports w' = reports w @ [report w']) \<or>
    (\<exists>w1. reports w1 = reports w @ [netConfigured l (report w)] \<and> report w1 = netConfigured l (report w) \<and> probed w1 w')"
proof -
  obtain e s where i: "ifaceInit N base (ascii (CIDR l)) (macString (leaseMAC l)) (addrString (Gateway l)) (net w) = (e, s)" by fastforce
  show ?thesis
  proof (cases e)
    case (Some err)
    then show ?thesis using assms i
      by (intro disjI1 exI [of _ "ascii ''configure Sentry netstack: '' @ netErrText N err"])
        (auto simp: configureNetwork_def setNetworkStatus_def)
  next
    case None
    define s1 where "s1 = (if length (addrStrings (DNS l)) \<noteq> 0
       then SetDefaultNS N (map (\<lambda>server. JoinHostPort server (ascii ''53'')) (addrStrings (DNS l))) s else s)"
    define w1 where "w1 = setNetworkStatus (netConfigured l) (w\<lparr>net := ifaceStart N base (setSocketFunc N s1)\<rparr>)"
    have "probeInternetUntilReady N w1 = Some w'"
      using assms i None by (auto simp: configureNetwork_def Let_def w1_def s1_def)
    then have "probed w1 w'" by (rule probed_until_ready)
    moreover have "reports w1 = reports w @ [netConfigured l (report w)]" "report w1 = netConfigured l (report w)"
      by (simp_all add: w1_def setNetworkStatus_def)
    ultimately show ?thesis by blast
  qed
qed

section \<open>Properties\<close>

text \<open>C32: the probe loop returns exactly when some probe succeeds: it never gives up before and never
  goes on after.\<close>

theorem probe_loop_returns:
  "(\<exists>w'. probeInternetUntilReady N w = Some w') \<longleftrightarrow> (\<exists>n. fst (probeInternet N ((afterProbe N ^^ n) w)))"
  using until_ready_some [of N _ w] until_ready_probe [of N w] by blast

text \<open>C31: the networking goroutine, when it returns, has failed in one of its phases, or has acquired a lease
  on the device it found and ends online after any number of degraded reports; the final report then
  shows that device and lease, with no error.\<close>

theorem network_reports:
  assumes "startInternetNetworking N ready w = Some w'"
  shows "\<exists>new. reports w' = reports w @ new \<and>
    (let phases = map sPhase new; begun = [ascii ''discovering-virtio-net'', ascii ''dhcp''] in
     (\<exists>k. phases = take k begun @ [ascii ''failed'']) \<or>
     (\<exists>n base mac s l s'. phases = begun @ [ascii ''online''] @ replicate n (ascii ''degraded'') @ [ascii ''online''] \<and>
        FindVirtioNet (virtioBus N) (virtioNet N) virtioMMIOStart virtioMMIOEnd virtioMMIOStep pluginMAC (net w) = Some (Inr (base, mac), s) \<and>
        Acquire (Some (frameDeviceAt N base)) (netClient mac) s = Some (Inr l, s') \<and>
        report w' = (report w)\<lparr>sPhase := ascii ''online'', sDevice := ascii ''virtio-net MMIO '' @ hexPrefixed (unat base),
          sMAC := macString mac, sAddress := ascii (CIDR l), sGateway := addrString (Gateway l), sDNS := addrStrings (DNS l),
          sLease := durationString (Duration l),
          sProbe := ascii ''Sentry netstack DNS + TCP example.com:80 succeeded'', sError := []\<rparr>))"
proof (cases ready)
  case False
  then have "w' = setNetworkStatus (netFailed (ascii ''Sentry network stack was not initialized'')) w"
    using assms by (simp add: startInternetNetworking_def)
  then show ?thesis
    by (intro exI [of _ "[report w']"]) (auto simp: setNetworkStatus_def netFailed_def Let_def intro!: exI [of _ 0])
next
  case True
  define w1 where "w1 = setNetworkStatus (\<lambda>s. s\<lparr>sPhase := ascii ''discovering-virtio-net''\<rparr>) w"
  obtain r s where find: "FindVirtioNet (virtioBus N) (virtioNet N) virtioMMIOStart virtioMMIOEnd virtioMMIOStep pluginMAC (net w) = Some (r, s)"
    using assms True by (auto simp: startInternetNetworking_def setNetworkStatus_def Let_def split: option.splits)
  have n1: "net w1 = net w" by (simp add: w1_def setNetworkStatus_def)
  show ?thesis
  proof (cases r)
    case (Inl err)
    then have "w' = setNetworkStatus (netFailed (netErrorText N err)) (w1\<lparr>net := s\<rparr>)"
      using assms True find n1 by (simp add: startInternetNetworking_def Let_def flip: w1_def)
    then show ?thesis
      by (intro exI [of _ "[report w1, report w']"])
        (auto simp: w1_def setNetworkStatus_def netFailed_def Let_def intro!: exI [of _ 1])
  next
    case (Inr dev)
    obtain base mac where dev: "dev = (base, mac)" by fastforce
    define w2 where "w2 = setNetworkStatus (\<lambda>r. r\<lparr>sPhase := ascii ''dhcp'',
         sDevice := ascii ''virtio-net MMIO '' @ hexPrefixed (unat base), sMAC := macString mac\<rparr>) (w1\<lparr>net := s\<rparr>)"
    have n2: "net w2 = s" by (simp add: w2_def setNetworkStatus_def)
    obtain q s2 where acq: "Acquire (Some (frameDeviceAt N base)) (netClient mac) s = Some (q, s2)"
      using assms True find n1 n2 Inr dev
      by (auto simp: startInternetNetworking_def Let_def simp flip: w1_def w2_def split: option.splits)
    have two: "reports w2 = reports w @ [report w1, report w2]" "map sPhase [report w1, report w2] =
        [ascii ''discovering-virtio-net'', ascii ''dhcp'']"
      by (simp_all add: w2_def w1_def setNetworkStatus_def)
    show ?thesis
    proof (cases q)
      case (Inl err)
      then have "w' = setNetworkStatus (netFailed (acquireErrorText N err)) (w2\<lparr>net := s2\<rparr>)"
        using assms True find n1 n2 acq \<open>r = Inr dev\<close> dev
        by (simp add: startInternetNetworking_def Let_def flip: w1_def w2_def)
      then show ?thesis using two
        by (intro exI [of _ "[report w1, report w2, report w']"])
          (auto simp: setNetworkStatus_def netFailed_def Let_def intro!: exI [of _ 2])
    next
      case (Inr l)
      then have conf: "configureNetwork N base l (w2\<lparr>net := s2\<rparr>) = Some w'"
        using assms True find n1 n2 acq \<open>r = Inr dev\<close> dev
        by (simp add: startInternetNetworking_def Let_def flip: w1_def w2_def)
      from configured_reports [OF this]
      show ?thesis
      proof (elim disjE exE conjE)
        fix err
        assume "report w' = netFailed err (report (w2\<lparr>net := s2\<rparr>))" "reports w' = reports (w2\<lparr>net := s2\<rparr>) @ [report w']"
        then show ?thesis using two
          by (intro exI [of _ "[report w1, report w2, report w']"])
            (auto simp: netFailed_def Let_def intro!: exI [of _ 2])
      next
        fix w3
        assume w3: "reports w3 = reports (w2\<lparr>net := s2\<rparr>) @ [netConfigured l (report (w2\<lparr>net := s2\<rparr>))]"
          "report w3 = netConfigured l (report (w2\<lparr>net := s2\<rparr>))" "probed w3 w'"
        from w3(3) obtain new n where new: "reports w' = reports w3 @ new"
            "map sPhase new = replicate n (ascii ''degraded'') @ [ascii ''online'']"
          and last: "leaseView (report w') = leaseView (report w3)" "sPhase (report w') = ascii ''online''" "sError (report w') = []"
            "sProbe (report w') = ascii ''Sentry netstack DNS + TCP example.com:80 succeeded''"
          unfolding probed_def by blast
        define all where "all = [report w1, report w2, netConfigured l (report w2)] @ new"
        have "reports w' = reports w @ all" using new(1) w3(1) two(1) by (simp add: all_def)
        moreover have "map sPhase all = [ascii ''discovering-virtio-net'', ascii ''dhcp''] @ [ascii ''online''] @
            replicate n (ascii ''degraded'') @ [ascii ''online'']"
          using new(2) two(2) by (simp add: all_def netConfigured_def)
        moreover have "report w' = (report w)\<lparr>sPhase := ascii ''online'', sDevice := ascii ''virtio-net MMIO '' @ hexPrefixed (unat base),
          sMAC := macString mac, sAddress := ascii (CIDR l), sGateway := addrString (Gateway l), sDNS := addrStrings (DNS l),
          sLease := durationString (Duration l),
          sProbe := ascii ''Sentry netstack DNS + TCP example.com:80 succeeded'', sError := []\<rparr>"
          using last w3(2)
          by (intro networkStatus.equality) (simp_all add: leaseView_def netConfigured_def w2_def w1_def setNetworkStatus_def)
        ultimately show ?thesis using find acq Inr \<open>r = Inr dev\<close> dev unfolding Let_def by blast
      qed
    qed
  qed
qed

text \<open>
  A host with a network device in the second slot, the DHCP server of \<^verbatim>\<open>dhcp_test.go\<close>, and a resolver that
  answers with an IPv6 and an IPv4 address.
\<close>

definition netTestBus :: "u32 \<Rightarrow> (int \<times> bytes list, nat, nat) virtio" where
  "netTestBus base = \<lparr>tInit = (\<lambda>_ q. (None, q)), tDeviceID = (\<lambda>_. if base = 0x0a003000 then 1 else 0),
     tNegotiatedFeatures = (\<lambda>_. 0), tQueueReady = (\<lambda>_ _. False), tConfig = (\<lambda>_ _. []),
     tMaxQueueSize = (\<lambda>_ _. 256), tNewQueue = (\<lambda>_ _ _. 0), tSetQueueSize = (\<lambda>_ _ q. q), tSetQueue = (\<lambda>_ _ q. q),
     tSetReady = (\<lambda>q. q), tQueueNotify = (\<lambda>_ q. q), qPop = (\<lambda>_ q. (Inr [], q)), qPushTx = (\<lambda>_ q. q),
     qUsedTx = (\<lambda>_. 0), goMapOrder = (\<lambda>q. ([], q)), goSleep = (\<lambda>q. q)\<rparr>"

definition pluginAddress :: bytes where "pluginAddress = [2, 0x53, 0x50, 0x52, 0x47, 1]"

definition testNet :: "(int \<times> bytes list, nat, nat) netOps" where
  "testNet = \<lparr>virtioBus = netTestBus,
     virtioNet = \<lparr>netDeviceID = 1, FeatureMAC = 32, netInit = (\<lambda>_ q. (None, q)), netStart = (\<lambda>_ q. q)\<rparr>,
     frameDeviceAt = (\<lambda>_. fakeDHCP pluginAddress), ifaceInit = (\<lambda>_ _ _ _ s. (None, s)), SetDefaultNS = (\<lambda>_ s. s),
     setSocketFunc = (\<lambda>s. s), ifaceStart = (\<lambda>_ s. s),
     LookupHost = (\<lambda>_ _ s. (Inr [ascii ''2606:2800::1'', ascii ''93.184.216.34''], s)), DialContext = (\<lambda>_ _ s. (None, s)),
     closeConn = (\<lambda>s. s), waitTimer = (\<lambda>_ s. s), netErrText = (\<lambda>_. [])\<rparr>"

definition testNetWorld :: "(int \<times> bytes list) netWorld" where
  "testNetWorld = \<lparr>net = (0, []), report = initialReport, reports = []\<rparr>"

lemma testNet_find:
  "FindVirtioNet (virtioBus testNet) (virtioNet testNet) virtioMMIOStart virtioMMIOEnd virtioMMIOStep pluginMAC q =
    Some (Inr (0x0a003000, pluginAddress), q)"
proof -
  have "slotsFrom (Suc (Suc 28)) b s = b # (b + s) # slotsFrom 28 (b + s + s) s" for b s
    by (simp only: slotsFrom.simps)
  then have "slotsFrom 30 b s = b # (b + s) # slotsFrom 28 (b + s + s) s" for b s by simp
  then have slots: "mmioSlots = 0x0a002000 # 0x0a003000 # slotsFrom 28 0x0a004000 virtioMMIOStep"
    by (simp add: mmioSlots_def virtioMMIOStart_def virtioMMIOStep_def)
  show ?thesis
    by (simp add: FindVirtioNet_def pluginMAC_parse scan_mmio slots netBody_def testNet_def netTestBus_def invalidMAC_def
        pluginAddress_def)
qed

lemma testNet_probe: "probeInternet testNet w = (True, setNetworkStatus netOnline w)"
proof -
  have "parseIPv4 (ascii ''2606:2800::1'') = None" by code_simp
  moreover have "parseIPv4 (ascii ''93.184.216.34'') = Some (ascii ''93.184.216.34'')" by code_simp
  ultimately have "firstIPv4 [ascii ''2606:2800::1'', ascii ''93.184.216.34''] = ascii ''93.184.216.34''"
    by (simp add: firstIPv4_def)
  then show ?thesis by (simp add: probeInternet_def testNet_def ascii_def setNetworkStatus_def)
qed

theorem network_reports_witness:
  "\<exists>w' new. startInternetNetworking testNet True testNetWorld = Some w' \<and> reports w' = new \<and> length new = 4 \<and>
     sAddress (report w') = ascii ''10.20.30.40/24'' \<and> sMAC (report w') = ascii ''02:53:50:52:47:01''"
proof -
  have mac: "length (clientMAC (netClient pluginAddress)) = 6" "clientMAC (netClient pluginAddress) = pluginAddress"
    by (simp_all add: netClient_def pluginAddress_def)
  have "Second \<le> clientTimeout (netClient pluginAddress)" by (simp add: netClient_def Second_def)
  then obtain s' where acq: "Acquire (Some (frameDeviceAt testNet 0x0a003000)) (netClient pluginAddress) (0, []) =
      Some (Inr (testLease\<lparr>leaseMAC := pluginAddress\<rparr>), s')"
    using acquire_fake_lease [of "netClient pluginAddress" 0] mac by (auto simp: testNet_def)
  have ops: "ifaceInit testNet b c m g s = (None, s)" "SetDefaultNS testNet ns s = s" "setSocketFunc testNet s = s"
      "ifaceStart testNet b s = s" for b c m g ns s
    by (simp_all add: testNet_def)
  define w0 where "w0 = setNetworkStatus (\<lambda>s. s\<lparr>sPhase := ascii ''discovering-virtio-net''\<rparr>) testNetWorld"
  define w1 where "w1 = setNetworkStatus (\<lambda>r. r\<lparr>sPhase := ascii ''dhcp'',
      sDevice := ascii ''virtio-net MMIO '' @ hexPrefixed (unat (0x0a003000 :: u32)), sMAC := macString pluginAddress\<rparr>) w0"
  define w2 where "w2 = setNetworkStatus netOnline (setNetworkStatus (netConfigured (testLease\<lparr>leaseMAC := pluginAddress\<rparr>)) (w1\<lparr>net := s'\<rparr>))"
  have net: "net w0 = (0, [])" "net w1 = (0, [])" "w0\<lparr>net := (0, [])\<rparr> = w0"
    by (simp_all add: w0_def w1_def setNetworkStatus_def testNetWorld_def)
  have conf: "configureNetwork testNet 0x0a003000 (testLease\<lparr>leaseMAC := pluginAddress\<rparr>) (w1\<lparr>net := s'\<rparr>) = Some w2"
    by (simp add: configureNetwork_def ops probeInternetUntilReady.simps [of testNet] testNet_probe w2_def setNetworkStatus_def Let_def)
  have run: "startInternetNetworking testNet True testNetWorld = Some w2"
    by (simp only: startInternetNetworking_def Let_def w0_def [symmetric] net testNet_find option.case sum.case prod.case
        w1_def [symmetric] acq conf not_True_eq_False if_False)
  have "CIDR (testLease\<lparr>leaseMAC := pluginAddress\<rparr>) = ''10.20.30.40/24''"
    by (simp add: CIDR_def testLease_def decimal.simps)
  then have final: "sAddress (report w2) = ascii ''10.20.30.40/24''" "sMAC (report w2) = macString pluginAddress"
      "sPhase (report w2) = ascii ''online''"
    by (simp_all add: w2_def setNetworkStatus_def netOnline_def netConfigured_def w1_def)
  moreover have "macString pluginAddress = ascii ''02:53:50:52:47:01''" by code_simp
  moreover obtain new where "reports w2 = reports testNetWorld @ new" using network_reports [OF run] by auto
  moreover have "reports testNetWorld = []" "length (reports w2) = 4"
    by (simp_all add: testNetWorld_def w2_def w1_def w0_def setNetworkStatus_def)
  ultimately show ?thesis using run by auto
qed

end
