(* ===== verification/Runtime.thy ===== *)
theory Runtime
  imports Platform
begin

text \<open>
  The Go runtime's board support (\<^verbatim>\<open>kernel/runtime.go\<close>): the memory layout, the generator behind
  \<^verbatim>\<open>runtime/goos.GetRandomData\<close>, and the start and end of the machine. The CPU's own operations are
  fields of a parameter.
\<close>

section \<open>Memory\<close>

definition ramBase :: u64 where "ramBase = 0x80000000"
definition ramBytes :: u64 where "ramBytes = 0x0c000000"
definition dmaBase :: u64 where "dmaBase = 0x8c000000"
definition dmaBytes :: u64 where "dmaBytes = 0x02000000"
definition runtimeStackOffset :: u64 where "runtimeStackOffset = 0x1000"

section \<open>The machine\<close>

record 'c board =
  cpuInit :: "'c \<Rightarrow> 'c"
  EnableCache :: "'c \<Rightarrow> 'c"
  InitGenericTimers :: "u64 \<Rightarrow> u64 \<Rightarrow> 'c \<Rightarrow> 'c"
  cpuTime :: "'c \<Rightarrow> int"
  psciSystemOff :: "'c \<Rightarrow> 'c"
  dmaInit :: "u64 \<Rightarrow> u64 \<Rightarrow> 'c \<Rightarrow> 'c"

definition boardInit :: "'c board \<Rightarrow> 'c \<Rightarrow> 'c" where
  "boardInit B c = InitGenericTimers B 0 0 (EnableCache B (cpuInit B c))"

definition nanotime :: "'c board \<Rightarrow> 'c \<Rightarrow> int" where "nanotime B c = cpuTime B c"

definition runtimeInit :: "'c board \<Rightarrow> 'c \<Rightarrow> 'c" where "runtimeInit B c = dmaInit B dmaBase dmaBytes c"

text \<open>\<^verbatim>\<open>terminate\<close>: power off, then the empty loop, which never returns.\<close>

partial_function (option) spin :: "'c \<Rightarrow> 'c option" where
  "spin c = spin c"

definition terminate :: "'c board \<Rightarrow> int \<Rightarrow> 'c \<Rightarrow> 'c option" where
  "terminate B code c = spin (psciSystemOff B c)"

section \<open>Random data\<close>

definition randomSeed :: u64 where "randomSeed = 0x5350522d54414d41"

definition nextRandom :: "u64 \<Rightarrow> u64" where
  "nextRandom state =
     (let state = state XOR push_bit 13 state;
          state = state XOR drop_bit 7 state
      in state XOR push_bit 17 state)"

fun getRandomData :: "nat \<Rightarrow> u64 \<Rightarrow> bytes \<times> u64" where
  "getRandomData 0 state = ([], state)"
| "getRandomData (Suc n) state =
     (let state = nextRandom state; (bs, end) = getRandomData n state in (ucast state # bs, end))"

section \<open>The generator loses nothing\<close>

lemma push_xor_inj:
  assumes "0 < k" "x XOR push_bit k x = y XOR push_bit k (y :: u64)"
  shows "x = y"
proof (rule bit_word_eqI)
  fix n
  show "n < LENGTH(64) \<Longrightarrow> bit x n = bit y n"
  proof (induction n rule: less_induct)
    case (less n)
    have "bit (x XOR push_bit k x) n = bit (y XOR push_bit k y) n" using assms(2) by simp
    then have "(bit x n \<noteq> (k \<le> n \<and> bit x (n - k))) = (bit y n \<noteq> (k \<le> n \<and> bit y (n - k)))"
      using less.prems by (simp add: bit_xor_iff bit_push_bit_iff)
    moreover have "k \<le> n \<Longrightarrow> bit x (n - k) = bit y (n - k)" using less assms(1) by simp
    ultimately show ?case by blast
  qed
qed

lemma drop_xor_inj:
  assumes "0 < k" "x XOR drop_bit k x = y XOR drop_bit k (y :: u64)"
  shows "x = y"
proof (rule bit_word_eqI)
  have "bit x (64 - m) = bit y (64 - m)" if "m \<le> 64" for m
    using that
  proof (induction m rule: less_induct)
    case (less m)
    have "bit (x XOR drop_bit k x) (64 - m) = bit (y XOR drop_bit k y) (64 - m)" using assms(2) by simp
    then have "(bit x (64 - m) \<noteq> bit x (64 - m + k)) = (bit y (64 - m) \<noteq> bit y (64 - m + k))"
      by (simp add: bit_xor_iff bit_drop_bit_eq add.commute)
    moreover have "bit x (64 - m + k) = bit y (64 - m + k)"
    proof (cases "k \<le> m")
      case True
      then have eq: "64 - m + k = 64 - (m - k)" using less.prems by simp
      have "m - k < m" "m - k \<le> 64" using True less.prems assms(1) by simp_all
      then show ?thesis unfolding eq by (rule less.IH)
    next
      case False
      then have "\<not> bit x (64 - m + k)" "\<not> bit y (64 - m + k)" using less.prems by (auto dest: bit_imp_le_length)
      then show ?thesis by simp
    qed
    ultimately show ?case by blast
  qed
  note low = this [of "64 - n" for n]
  show "n < LENGTH(64) \<Longrightarrow> bit x n = bit y n" for n
    using low [of n] by simp
qed

lemma nextRandom_inj: "nextRandom x = nextRandom y \<Longrightarrow> x = y"
  unfolding nextRandom_def Let_def by (blast dest: push_xor_inj [rotated] drop_xor_inj [rotated] intro: zero_less_numeral)

lemma nextRandom_bij: "bij nextRandom"
  by (meson bijI finite_UNIV_inj_surj finite injI nextRandom_inj)

lemma nextRandom_zero: "nextRandom s = 0 \<longleftrightarrow> s = 0"
proof -
  have "nextRandom 0 = 0" by (simp add: nextRandom_def Let_def)
  then show ?thesis using nextRandom_inj by metis
qed

lemma nextRandom_recurs: "\<exists>k > 0. (nextRandom ^^ k) s = s"
proof -
  have "\<not> inj (\<lambda>k. (nextRandom ^^ k) s)"
    using finite_imageD [of "\<lambda>k. (nextRandom ^^ k) s" "UNIV :: nat set"] infinite_UNIV_nat finite [of "(\<lambda>k. (nextRandom ^^ k) s) ` UNIV"]
    by blast
  then obtain i j where "i < j" "(nextRandom ^^ i) s = (nextRandom ^^ j) s"
    unfolding inj_def by (metis linorder_neqE_nat)
  moreover have "(nextRandom ^^ j) s = (nextRandom ^^ i) ((nextRandom ^^ (j - i)) s)"
    using \<open>i < j\<close> funpow_add [of i "j - i" nextRandom] by simp
  moreover have "inj (nextRandom ^^ i)" by (rule inj_fn) (rule injI, rule nextRandom_inj)
  ultimately have "(nextRandom ^^ (j - i)) s = s" by (simp add: inj_eq)
  with \<open>i < j\<close> show ?thesis by (intro exI [of _ "j - i"]) simp
qed

lemma getRandomData_spec:
  "length (fst (getRandomData n s)) = n \<and> snd (getRandomData n s) = (nextRandom ^^ n) s"
proof (induction n arbitrary: s)
  case (Suc n)
  from Suc [of "nextRandom s"] show ?case by (simp add: Let_def funpow_swap1 split_beta)
qed simp

lemma getRandomData_add:
  "getRandomData (m + n) s = (case getRandomData m s of (a, s1) \<Rightarrow> case getRandomData n s1 of (b, s2) \<Rightarrow> (a @ b, s2))"
  by (induction m arbitrary: s) (auto simp: Let_def split: prod.split)

lemma nextRandom_iter_zero: "(nextRandom ^^ n) s = 0 \<longleftrightarrow> s = 0"
  by (induction n) (simp_all add: nextRandom_zero)

section \<open>Properties\<close>

text \<open>C40: the generator permutes its 64-bit states and fixes only zero, so from the kernel's seed it never
  gets stuck at zero and every state recurs; filling a buffer yields as many bytes as it has, and
  filling it in two parts gives the same bytes as filling it at once.\<close>

theorem random_stream:
  "bij nextRandom \<and> (nextRandom s = 0 \<longleftrightarrow> s = 0) \<and> (\<exists>k > 0. (nextRandom ^^ k) s = s) \<and>
   snd (getRandomData n randomSeed) \<noteq> 0 \<and> length (fst (getRandomData n s)) = n \<and>
   getRandomData (m + n) s = (case getRandomData m s of (a, s1) \<Rightarrow> case getRandomData n s1 of (b, s2) \<Rightarrow> (a @ b, s2))"
  using nextRandom_bij nextRandom_zero nextRandom_recurs getRandomData_add getRandomData_spec [of n randomSeed]
    nextRandom_iter_zero [of n randomSeed] getRandomData_spec [of n s]
  by (simp add: randomSeed_def)

end
