(* ===== verification/Patch_Tools.thy ===== *)
theory Patch_Tools
  imports Go_Strings
begin

text \<open>
  The build's source preparation, \<^verbatim>\<open>tools/prepare_gvisor.go\<close> and \<^verbatim>\<open>tools/prepare_tamago.go\<close>: copying a
  module tree, patching single anchors in its files, and laying overlay files over it. The file system
  is a parameter over a state; a path is the list of its elements.
\<close>

section \<open>The file system\<close>

type_synonym path = "bytes list"

datatype entryKind = EntryDir | EntrySymlink | EntryOther

text \<open>\<open>walkEntries\<close> is what \<^verbatim>\<open>filepath.WalkDir\<close> passes to its callback: path, kind and error.\<close>

record ('f, 'h, 'e) fileSystem =
  Stat :: "path \<Rightarrow> 'f \<Rightarrow> 'e option"
  IsNotExist :: "'e \<Rightarrow> bool"
  ReadFile :: "path \<Rightarrow> ('f, 'e, bytes) step"
  WriteFile :: "path \<Rightarrow> bytes \<Rightarrow> ('f, 'e, unit) step"
  MkdirAll :: "path \<Rightarrow> ('f, 'e, unit) step"
  OpenFD :: "path \<Rightarrow> ('f, 'e, 'h) step"
  OpenFile :: "path \<Rightarrow> nat \<Rightarrow> ('f, 'e, 'h) step"
  ioCopy :: "'h \<Rightarrow> 'h \<Rightarrow> ('f, 'e, unit) step"
  CloseFD :: "'h \<Rightarrow> ('f, 'e, unit) step"
  walkEntries :: "path \<Rightarrow> 'f \<Rightarrow> (path \<times> entryKind \<times> 'e option) list"

datatype 'e tool_error = FileError 'e | MissingTag path | UnterminatedTag path | PatchAnchor path bytes
  | UnexpectedSymlink path | MmuConstants | MmuClassification | NotBelow path path
  | FlagsRequired | OutputExists path

definition io :: "('f, 'e, 'a) step \<Rightarrow> ('f, 'e tool_error, 'a) step" where
  "io m = go_onError m id FileError"

text \<open>\<^verbatim>\<open>filepath.Rel\<close> of a walked path.\<close>

definition Rel :: "path \<Rightarrow> path \<Rightarrow> ('f, 'e tool_error, path) step" where
  "Rel base p = (if prefix base p then go_give (drop (length base) p) else go_fail id (NotBelow base p))"

section \<open>Copying\<close>

definition O_WRONLY :: nat where "O_WRONLY = 0x1"
definition O_CREATE :: nat where "O_CREATE = 0x40"
definition O_EXCL :: nat where "O_EXCL = 0x80"
definition O_TRUNC :: nat where "O_TRUNC = 0x200"

text \<open>\<open>deferClose\<close> is \<^verbatim>\<open>defer in.Close()\<close>: on every way out, its error ignored.\<close>

definition deferClose :: "('f, 'h, 'e) fileSystem \<Rightarrow> 'h \<Rightarrow> ('f, 'x, 'a) step \<Rightarrow> ('f, 'x, 'a) step" where
  "deferClose F h m w = (let (r, w) = m w in (r, snd (CloseFD F h w)))"

definition copyFile :: "('f, 'h, 'e) fileSystem \<Rightarrow> path \<Rightarrow> path \<Rightarrow> bool \<Rightarrow> ('f, 'e tool_error, unit) step" where
  "copyFile F src dst exclusive =
     go_bind (io (OpenFD F src)) (\<lambda>inp.
     deferClose F inp
      (let flags = (if exclusive then O_CREATE OR O_EXCL OR O_WRONLY else O_CREATE OR O_WRONLY OR O_TRUNC) in
       go_bind (io (OpenFile F dst flags)) (\<lambda>out.
       go_bind (go_onError (ioCopy F out inp) (\<lambda>w. snd (CloseFD F out w)) FileError) (\<lambda>_.
       io (CloseFD F out)))))"

fun walk :: "('a \<Rightarrow> ('f, 'x, unit) step) \<Rightarrow> 'a list \<Rightarrow> ('f, 'x, unit) step" where
  "walk f [] = go_give ()"
| "walk f (x # xs) = go_bind (f x) (\<lambda>_. walk f xs)"

definition copyOverlay :: "('f, 'h, 'e) fileSystem \<Rightarrow> path \<Rightarrow> path \<Rightarrow> ('f, 'e tool_error, unit) step" where
  "copyOverlay F src dst w =
     walk (\<lambda>(p, kind, err).
       (case err of
          Some e \<Rightarrow> go_fail id (FileError e)
        | None \<Rightarrow>
            if kind = EntryDir then go_give ()
            else
              go_bind (Rel src p) (\<lambda>rel.
              let target = dst @ rel in
              go_bind (io (MkdirAll F (butlast target))) (\<lambda>_.
              copyFile F p target False)))) (walkEntries F src w) w"

definition copyTree :: "('f, 'h, 'e) fileSystem \<Rightarrow> path \<Rightarrow> path \<Rightarrow> ('f, 'e tool_error, unit) step" where
  "copyTree F src dst w =
     walk (\<lambda>(p, kind, err).
       (case err of
          Some e \<Rightarrow> go_fail id (FileError e)
        | None \<Rightarrow>
            go_bind (Rel src p) (\<lambda>rel.
            let target = dst @ rel in
            if kind = EntryDir then io (MkdirAll F target)
            else if kind = EntrySymlink then go_fail id (UnexpectedSymlink p)
            else copyFile F p target True))) (walkEntries F src w) w"

section \<open>Patching\<close>

definition patchOnce :: "bytes \<Rightarrow> bytes \<Rightarrow> bytes \<Rightarrow> bytes option" where
  "patchOnce old new s = (if countSub s old \<noteq> 1 then None else Some (replaceSub 1 s old new))"

definition replaceOnce :: "('f, 'h, 'e) fileSystem \<Rightarrow> path \<Rightarrow> bytes \<Rightarrow> bytes \<Rightarrow> ('f, 'e tool_error, unit) step" where
  "replaceOnce F p old new =
     go_bind (io (ReadFile F p)) (\<lambda>s.
     (case patchOnce old new s of
        None \<Rightarrow> go_fail id (PatchAnchor p old)
      | Some s \<Rightarrow> io (WriteFile F p s)))"

definition pgallocReplacements :: "(bytes \<times> bytes) list" where
  \<open>pgallocReplacements =
    [([9] @ ascii ''"time"'' @ [10],
      [9] @ ascii ''"time"'' @ [10, 9] @ ascii ''"unsafe"'' @ [10]),
     ([9] @ ascii ''file *os.File'' @ [10, 10, 9] @ ascii ''// chunks holds'',
      [9] @ ascii ''file *os.File'' @ [10, 10, 9] @
      ascii ''// bareMetal chunks are page-aligned Go heap allocations.'' @ [10, 9] @
      ascii ''bareMetal        bool'' @ [10, 9] @ ascii ''bareMetalBacking [][]byte'' @ [10, 10, 9] @
      ascii ''// chunks holds''),
     ([9] @ ascii ''chunkShift = 30'' @ [10, 9] @ ascii ''chunkSize  = 1 << chunkShift // 1 GB'',
      [9] @ ascii ''chunkShift = 24'' @ [10, 9] @ ascii ''chunkSize  = 1 << chunkShift // 16 MB''),
     ([9] @ ascii ''f.file.Close()'' @ [10, 9] @ ascii ''// Ensure that any attempts'',
      [9] @ ascii ''if f.file != nil {'' @ [10, 9, 9] @ ascii ''f.file.Close()'' @ [10, 9] @ ascii ''}'' @ [10, 9] @
      ascii ''// Ensure that any attempts''),
     ([9] @ ascii ''for i := range chunks {'' @ [10, 9, 9] @ ascii ''chunk := &chunks[i]'',
      [9] @ ascii ''for i := range chunks {'' @ [10, 9, 9] @ ascii ''if f.bareMetal {'' @ [10, 9, 9, 9] @
      ascii ''chunks[i].mapping = 0'' @ [10, 9, 9, 9] @ ascii ''continue'' @ [10, 9, 9] @ ascii ''}'' @ [10, 9, 9] @
      ascii ''chunk := &chunks[i]''),
     ([9, 9] @ ascii ''newChunks[i].huge = alloc.huge'' @ [10, 9, 9] @ ascii ''if f.file != nil {'',
      [9, 9] @ ascii ''newChunks[i].huge = alloc.huge'' @ [10, 9, 9] @ ascii ''if f.bareMetal {'' @ [10, 9, 9, 9] @
      ascii ''backing := make([]byte, chunkSize+hostarch.PageSize)'' @ [10, 9, 9, 9] @
      ascii ''base := uintptr(unsafe.Pointer(&backing[0]))'' @ [10, 9, 9, 9] @
      ascii ''newChunks[i].mapping = (base + hostarch.PageSize - 1) &^ uintptr(hostarch.PageSize-1)'' @
      [10, 9, 9, 9] @ ascii ''f.bareMetalBacking = append(f.bareMetalBacking, backing)'' @ [10, 9, 9] @
      ascii ''} else if f.file != nil {''),
     (ascii ''func (f *MemoryFile) commitFile(fr memmap.FileRange) error {'' @ [10],
      ascii ''func (f *MemoryFile) commitFile(fr memmap.FileRange) error {'' @ [10, 9] @
      ascii ''if f.bareMetal {'' @ [10, 9, 9] @ ascii ''return nil'' @ [10, 9] @ ascii ''}'' @ [10]),
     (ascii ''func (f *MemoryFile) decommitFile(fr memmap.FileRange) error {'' @ [10],
      ascii ''func (f *MemoryFile) decommitFile(fr memmap.FileRange) error {'' @ [10, 9] @
      ascii ''if f.bareMetal {'' @ [10, 9, 9] @ ascii ''f.manuallyZero(fr)'' @ [10, 9, 9] @ ascii ''return nil'' @
      [10, 9] @ ascii ''}'' @ [10])]\<close>

definition mmuConstantsAnchor :: bytes where
  \<open>mmuConstantsAnchor = [9] @ ascii ''l3pageTableOffset = 0x7000'' @ [10, 9] @ ascii ''l3pageTableSize   = 512'' @ [10] @
     ascii '')''\<close>

definition mmuConstantsWithDMA :: bytes where
  \<open>mmuConstantsWithDMA = mmuConstantsAnchor @
     [10, 10] @ ascii ''// sprDMAStart..sprDMAEnd is RAM reserved from the Go heap for VirtIO queues.'' @ [10] @
     ascii ''// It must retain Normal Memory attributes even though it lies outside the'' @ [10] @
     ascii ''// runtime region; bulk queue initialization faults on Device memory mappings.'' @ [10] @
     ascii ''const ('' @ [10, 9] @ ascii ''sprDMAStart uint64 = 0x8c000000'' @ [10, 9] @
     ascii ''sprDMAEnd   uint64 = 0x8e000000'' @ [10] @ ascii '')''\<close>

definition mmuDeviceDefault :: bytes where
  \<open>mmuDeviceDefault = [9, 9] @ ascii ''default:''\<close>

definition mmuDMAClassification :: bytes where
  \<open>mmuDMAClassification = [9, 9] @ ascii ''case addr >= sprDMAStart && addr < sprDMAEnd:'' @ [10, 9, 9, 9] @
     ascii ''reg.Write64(page, addr|memoryRegion|TTE_EXECUTE_NEVER)'' @ [10, 9, 9] @ ascii ''default:''\<close>

text \<open>\<^verbatim>\<open>prepareGVisor\<close>.\<close>

definition mmapReplacement :: "bytes \<times> bytes" where
  "mmapReplacement = (ascii ''// Copyright'', ascii ''//go:build !tamago'' @ [10, 10] @ ascii ''// Copyright'')"

definition prepareGVisor :: "('f, 'h, 'e) fileSystem \<Rightarrow> path \<Rightarrow> path \<Rightarrow> ('f, 'e tool_error, unit) step" where
  "prepareGVisor F out overlay =
     (let mmapPath = out @ [ascii ''pkg'', ascii ''sentry'', ascii ''platform'', ascii ''mmap_min_addr.go''];
          pgallocPath = out @ [ascii ''pkg'', ascii ''sentry'', ascii ''pgalloc'', ascii ''pgalloc.go'']
      in
      go_bind (replaceOnce F mmapPath (fst mmapReplacement) (snd mmapReplacement)) (\<lambda>_.
      go_bind (walk (\<lambda>(old, new). replaceOnce F pgallocPath old new) pgallocReplacements) (\<lambda>_.
      copyOverlay F overlay out)))"

text \<open>\<^verbatim>\<open>prepareXsys\<close>: the text of one file, and the loop.\<close>

definition buildTag :: bytes where "buildTag = ascii ''//go:build ''"

definition retag :: "path \<Rightarrow> bytes \<Rightarrow> 'e tool_error + bytes" where
  "retag src s =
     (case index_of buildTag s of
        None \<Rightarrow> Inl (MissingTag src)
      | Some tagStart \<Rightarrow>
          if countSub s buildTag \<noteq> 1 then Inl (MissingTag src)
          else (case index_of [10] (drop tagStart s) of
              None \<Rightarrow> Inl (UnterminatedTag src)
            | Some lineEndRel \<Rightarrow>
                let lineEnd = tagStart + lineEndRel;
                    oldTag = slice s tagStart lineEnd;
                    newTag = replaceAll oldTag (ascii ''linux'') (ascii ''tamago'');
                    s = take tagStart s @ newTag @ drop lineEnd s;
                    s = replaceSub 1 s (ascii ''// +build linux,arm64'') (ascii ''// +build tamago,arm64'');
                    s = replaceSub 1 s (ascii ''// +build linux'') (ascii ''// +build tamago'')
                in Inr s))"

definition xsysFiles :: "bytes list" where
  "xsysFiles = [ascii ''zerrors_linux.go'', ascii ''zerrors_linux_arm64.go'', ascii ''zsysnum_linux_arm64.go'',
     ascii ''ztypes_linux.go'', ascii ''ztypes_linux_arm64.go'']"

definition prepareXsys :: "('f, 'h, 'e) fileSystem \<Rightarrow> path \<Rightarrow> path \<Rightarrow> ('f, 'e tool_error, unit) step" where
  "prepareXsys F out overlay =
     go_bind (walk (\<lambda>name.
         let src = out @ [ascii ''unix'', name] in
         go_bind (io (ReadFile F src)) (\<lambda>data.
         (case retag src data of
            Inl err \<Rightarrow> go_fail id err
          | Inr s \<Rightarrow> io (WriteFile F (out @ [ascii ''unix'', replaceSub 1 name (ascii ''_linux'') (ascii ''_tamago'')]) s)))) xsysFiles) (\<lambda>_.
     copyOverlay F overlay out)"

text \<open>\<^verbatim>\<open>main\<close> of \<^verbatim>\<open>prepare_gvisor.go\<close>; an error is its panic. An empty path stands for a missing flag.\<close>

definition outputFree :: "('f, 'h, 'e) fileSystem \<Rightarrow> path \<Rightarrow> ('f, 'e tool_error, unit) step" where
  "outputFree F out w = (case Stat F out w of
      Some e \<Rightarrow> if IsNotExist F e then (Inr (), w) else (Inl (OutputExists out), w)
    | None \<Rightarrow> (Inl (OutputExists out), w))"

definition prepareGVisorMain :: "('f, 'h, 'e) fileSystem \<Rightarrow> path \<Rightarrow> path \<Rightarrow> path \<Rightarrow> path \<Rightarrow> path \<Rightarrow>
    ('f, 'e tool_error, unit) step" where
  "prepareGVisorMain F gvisorDir xsysDir outGvisor outXsys overlays =
     (if gvisorDir = [] \<or> xsysDir = [] \<or> outGvisor = [] \<or> outXsys = [] then go_fail id FlagsRequired
      else
        go_bind (walk (outputFree F) [outGvisor, outXsys]) (\<lambda>_.
        go_bind (copyTree F gvisorDir outGvisor) (\<lambda>_.
        go_bind (copyTree F xsysDir outXsys) (\<lambda>_.
        go_bind (prepareXsys F outXsys (overlays @ [ascii ''xsys''])) (\<lambda>_.
        prepareGVisor F outGvisor (overlays @ [ascii ''gvisor'']))))))"

section \<open>Preparing TamaGo\<close>

definition patchMMU :: "bytes \<Rightarrow> 'e tool_error + bytes" where
  "patchMMU s =
     (if countSub s mmuConstantsAnchor \<noteq> 1 then Inl MmuConstants
      else
        let s = replaceSub 1 s mmuConstantsAnchor mmuConstantsWithDMA in
        if countSub s mmuDeviceDefault \<noteq> 3 then Inl MmuClassification
        else Inr (replaceAll s mmuDeviceDefault mmuDMAClassification))"

definition patchARM64MMU :: "('f, 'h, 'e) fileSystem \<Rightarrow> path \<Rightarrow> ('f, 'e tool_error, unit) step" where
  "patchARM64MMU F p =
     go_bind (io (ReadFile F p)) (\<lambda>s.
     (case patchMMU s of Inl err \<Rightarrow> go_fail id err | Inr s \<Rightarrow> io (WriteFile F p s)))"

text \<open>\<^verbatim>\<open>prepare_tamago.go\<close>'s own \<^verbatim>\<open>copyFile\<close>: it is the other tool's, always exclusive.\<close>

definition copyFileNew :: "('f, 'h, 'e) fileSystem \<Rightarrow> path \<Rightarrow> path \<Rightarrow> ('f, 'e tool_error, unit) step" where
  "copyFileNew F src dst =
     go_bind (io (OpenFD F src)) (\<lambda>inp.
     deferClose F inp
      (go_bind (io (OpenFile F dst (O_CREATE OR O_EXCL OR O_WRONLY))) (\<lambda>out.
       go_bind (go_onError (ioCopy F out inp) (\<lambda>w. snd (CloseFD F out w)) FileError) (\<lambda>_.
       io (CloseFD F out)))))"

lemma copyFileNew_eq: "copyFile F src dst True = copyFileNew F src dst"
  by (simp add: copyFile_def copyFileNew_def)

text \<open>\<open>stubs\<close> are the two replaced files with their sources, in the order Go visits the map.\<close>

definition prepareTamagoMain :: "('f, 'h, 'e) fileSystem \<Rightarrow> path \<Rightarrow> path \<Rightarrow> (bytes \<times> path) list \<Rightarrow>
    ('f, 'e tool_error, unit) step" where
  "prepareTamagoMain F tamagoDir outDir stubs =
     (if tamagoDir = [] \<or> outDir = [] then go_fail id FlagsRequired
      else
        go_bind (outputFree F outDir) (\<lambda>_.
        go_bind (copyTree F tamagoDir outDir) (\<lambda>_.
        go_bind (walk (\<lambda>(name, source).
            let p = outDir @ [ascii ''kvm'', ascii ''virtio'', name] in
            (\<lambda>w. (case Stat F p w of
               Some e \<Rightarrow> (Inl (FileError e), w)
             | None \<Rightarrow>
                 go_bind (io (ReadFile F source)) (\<lambda>stubData. io (WriteFile F p stubData)) w))) stubs) (\<lambda>_.
        patchARM64MMU F (outDir @ [ascii ''arm64'', ascii ''mmu.go''])))))"

section \<open>What a patch does\<close>

declare countSub.simps [simp del]

lemma countSub_zero: "pat \<noteq> [] \<Longrightarrow> countSub s pat = 0 \<longleftrightarrow> \<not> sublist pat s"
  by (subst countSub.simps) (auto simp: index_of_None_iff [symmetric] split: option.split)

lemma index_of_split:
  assumes "index_of pat s = Some i"
  shows "s = take i s @ pat @ drop (i + length pat) s" "length (take i s) = i"
proof -
  from index_of_Some [OF assms] have "i + length pat \<le> length s" "take (length pat) (drop i s) = pat"
    by (simp_all add: slice_def)
  then show "s = take i s @ pat @ drop (i + length pat) s" "length (take i s) = i"
    by (metis append_take_drop_id drop_drop add.commute, simp)
qed

text \<open>The anchor's first occurrence is at the end of \<open>pre\<close>, and none follows.\<close>

definition onlyAnchor :: "bytes \<Rightarrow> bytes \<Rightarrow> bytes \<Rightarrow> bytes \<Rightarrow> bool" where
  "onlyAnchor old s pre suf \<longleftrightarrow> s = pre @ old @ suf \<and> index_of old s = Some (length pre) \<and> \<not> sublist old suf"

lemma count_one:
  assumes "old \<noteq> []"
  shows "countSub s old = 1 \<longleftrightarrow> (\<exists>pre suf. onlyAnchor old s pre suf)"
proof
  assume c: "countSub s old = 1"
  then obtain i where i: "index_of old s = Some i" "countSub (drop (i + length old) s) old = 0"
    using assms by (subst (asm) countSub.simps) (auto split: option.splits)
  then have "onlyAnchor old s (take i s) (drop (i + length old) s)"
    using index_of_split [OF i(1)] assms by (simp add: onlyAnchor_def countSub_zero)
  then show "\<exists>pre suf. onlyAnchor old s pre suf" by blast
next
  assume "\<exists>pre suf. onlyAnchor old s pre suf"
  then obtain pre suf where o1: "s = pre @ old @ suf" "index_of old s = Some (length pre)" "\<not> sublist old suf"
    by (auto simp: onlyAnchor_def)
  have "drop (length pre + length old) s = suf" using o1(1) by simp
  then have "countSub (drop (length pre + length old) s) old = 0" using o1(3) assms by (simp add: countSub_zero)
  then show "countSub s old = 1" using o1(2) assms by (subst countSub.simps) simp
qed

lemma replace_anchor:
  "onlyAnchor old s pre suf \<Longrightarrow> replaceSub 1 s old new = pre @ new @ suf"
  by (auto simp: onlyAnchor_def)

text \<open>The pieces between occurrences.\<close>

function splitSub :: "bytes \<Rightarrow> bytes \<Rightarrow> bytes list" where
  "splitSub s pat =
     (if pat = [] then [s] else
      (case index_of pat s of None \<Rightarrow> [s] | Some i \<Rightarrow> take i s # splitSub (drop (i + length pat) s) pat))"
  by pat_completeness auto
termination
proof (relation "measure (length \<circ> fst)")
  fix s pat :: bytes and i
  assume "pat \<noteq> []" "index_of pat s = Some i"
  with index_of_Some [of pat s i] show "((drop (i + length pat) s, pat), s, pat) \<in> measure (length \<circ> fst)"
    by (cases pat) auto
qed simp

declare splitSub.simps [simp del]

lemma splitSub_nonempty: "splitSub s pat \<noteq> []"
  by (subst splitSub.simps) (simp split: option.split)

lemma index_of_first: "index_of pat s = Some i \<Longrightarrow> pat \<noteq> [] \<Longrightarrow> \<not> sublist pat (take i s)"
proof (induction s arbitrary: i)
  case (Cons x s)
  show ?case
  proof (cases "prefix pat (x # s)")
    case True
    then show ?thesis using Cons.prems by simp
  next
    case False
    then obtain j where j: "i = Suc j" "index_of pat s = Some j" using Cons.prems(1) by auto
    have "\<not> prefix pat (x # take j s)"
      using False by (metis append_take_drop_id append_Cons prefix_append)
    then show ?thesis using Cons.IH [OF j(2)] Cons.prems(2) j(1) by (simp add: sublist_Cons_right)
  qed
qed simp

lemma splitSub_spec:
  assumes "pat \<noteq> []"
  shows "joinWith pat (splitSub s pat) = s \<and> replaceAll s pat new = joinWith new (splitSub s pat) \<and>
    length (splitSub s pat) = Suc (countSub s pat) \<and> list_all (\<lambda>p. \<not> sublist pat p) (splitSub s pat)"
  using assms
proof (induction s pat rule: splitSub.induct)
  case (1 s pat)
  show ?case
  proof (cases "index_of pat s")
    case None
    then show ?thesis using 1(2) index_of_None_iff [of pat s]
      by (simp add: splitSub.simps [of s] countSub.simps [of s] replaceAll_def)
  next
    case (Some i)
    from "1.IH" [OF 1(2) Some 1(2)] have IH: "joinWith pat (splitSub (drop (i + length pat) s) pat) = drop (i + length pat) s"
      "replaceSub (countSub (drop (i + length pat) s) pat) (drop (i + length pat) s) pat new = joinWith new (splitSub (drop (i + length pat) s) pat)"
      "length (splitSub (drop (i + length pat) s) pat) = Suc (countSub (drop (i + length pat) s) pat)"
      "list_all (\<lambda>p. \<not> sublist pat p) (splitSub (drop (i + length pat) s) pat)"
      by (auto simp: replaceAll_def)
    have "countSub s pat = Suc (countSub (drop (i + length pat) s) pat)"
      using Some 1(2) by (subst countSub.simps) simp
    moreover have "splitSub s pat = take i s # splitSub (drop (i + length pat) s) pat"
      using Some 1(2) by (subst splitSub.simps) simp
    ultimately show ?thesis
      using IH Some index_of_split(1) [OF Some] index_of_first [OF Some 1(2)] splitSub_nonempty
      by (simp add: joinWith_Cons replaceAll_def)
  qed
qed

section \<open>Properties\<close>

text \<open>C37: a patch is applied only where its anchor stands exactly once: then the file is written with the
  anchor replaced and every other byte kept; otherwise the tool fails and writes nothing.\<close>

theorem patch_anchor:
  assumes "old \<noteq> []" "ReadFile F p w = (Inr s, w1)"
  shows "(\<exists>pre suf. onlyAnchor old s pre suf \<and>
        replaceOnce F p old new w = io (WriteFile F p (pre @ new @ suf)) w1) \<or>
      ((\<nexists>pre suf. onlyAnchor old s pre suf) \<and> replaceOnce F p old new w = (Inl (PatchAnchor p old), w1))"
proof (cases "\<exists>pre suf. onlyAnchor old s pre suf")
  case True
  then obtain pre suf where a: "onlyAnchor old s pre suf" by blast
  have "patchOnce old new s = Some (pre @ new @ suf)"
    using count_one [OF assms(1), of s] True replace_anchor [OF a] by (simp add: patchOnce_def)
  then have "replaceOnce F p old new w = io (WriteFile F p (pre @ new @ suf)) w1"
    using assms(2) by (simp add: replaceOnce_def io_def step_defs)
  with a show ?thesis by blast
next
  case False
  then have "patchOnce old new s = None" using count_one [OF assms(1), of s] by (simp add: patchOnce_def)
  then show ?thesis using False assms(2) by (simp add: replaceOnce_def io_def step_defs)
qed

text \<open>A file system of one file, whose state is the file's content.\<close>

definition oneFile :: "(bytes, unit, unit) fileSystem" where
  "oneFile = \<lparr>Stat = \<lambda>p w. None, IsNotExist = \<lambda>e. True, ReadFile = \<lambda>p w. (Inr w, w),
     WriteFile = \<lambda>p s w. (Inr (), s), MkdirAll = \<lambda>p w. (Inr (), w), OpenFD = \<lambda>p w. (Inr (), w),
     OpenFile = \<lambda>p n w. (Inr (), w), ioCopy = \<lambda>a b w. (Inr (), w), CloseFD = \<lambda>h w. (Inr (), w),
     walkEntries = \<lambda>p w. []\<rparr>"

lemma patch_anchor_witness:
  "(\<exists>pre suf. onlyAnchor (ascii ''time'') (ascii ''import time'') pre suf \<and>
      replaceOnce oneFile [] (ascii ''time'') (ascii ''unsafe'') (ascii ''import time'') =
        io (WriteFile oneFile [] (pre @ ascii ''unsafe'' @ suf)) (ascii ''import time'')) \<or>
    ((\<nexists>pre suf. onlyAnchor (ascii ''time'') (ascii ''import time'') pre suf) \<and>
      replaceOnce oneFile [] (ascii ''time'') (ascii ''unsafe'') (ascii ''import time'') =
        (Inl (PatchAnchor [] (ascii ''time'')), ascii ''import time''))"
  by (rule patch_anchor) (simp_all add: oneFile_def ascii_def)

text \<open>C38: a successful patch of the MMU source inserts the DMA constants after their anchor, standing once,
  and the DMA case before each of the three device defaults; every byte between these places is kept.\<close>

theorem patch_mmu:
  assumes "patchMMU s = Inr t"
  shows "\<exists>pre suf p0 p1 p2 p3. onlyAnchor mmuConstantsAnchor s pre suf \<and>
    pre @ mmuConstantsWithDMA @ suf = joinWith mmuDeviceDefault [p0, p1, p2, p3] \<and>
    t = joinWith mmuDMAClassification [p0, p1, p2, p3] \<and>
    list_all (\<lambda>p. \<not> sublist mmuDeviceDefault p) [p0, p1, p2, p3]"
proof -
  have ne: "mmuConstantsAnchor \<noteq> []" "mmuDeviceDefault \<noteq> []"
    by (simp_all add: mmuConstantsAnchor_def mmuDeviceDefault_def)
  let ?r = "replaceSub 1 s mmuConstantsAnchor mmuConstantsWithDMA"
  have c: "countSub s mmuConstantsAnchor = 1" "countSub ?r mmuDeviceDefault = 3"
    "t = replaceAll ?r mmuDeviceDefault mmuDMAClassification"
    using assms by (simp_all add: patchMMU_def Let_def split: if_splits)
  obtain pre suf where a: "onlyAnchor mmuConstantsAnchor s pre suf" using c(1) count_one [OF ne(1)] by blast
  note r = replace_anchor [OF a, of mmuConstantsWithDMA]
  note sp = splitSub_spec [OF ne(2), of ?r mmuDMAClassification]
  have "length (splitSub ?r mmuDeviceDefault) = 4" using sp c(2) by simp
  then obtain p0 p1 p2 p3 where p: "splitSub ?r mmuDeviceDefault = [p0, p1, p2, p3]"
    by (auto simp: length_Suc_conv numeral_eq_Suc)
  show ?thesis using a r sp p c(3) by metis
qed

lemma patch_mmu_witness:
  "\<exists>t pre suf p0 p1 p2 p3.
    patchMMU (mmuConstantsAnchor @ mmuDeviceDefault @ mmuDeviceDefault @ [10] @ mmuDeviceDefault) = (Inr t :: unit tool_error + bytes) \<and>
    pre @ mmuConstantsWithDMA @ suf = joinWith mmuDeviceDefault [p0, p1, p2, p3] \<and>
    t = joinWith mmuDMAClassification [p0, p1, p2, p3]"
proof -
  let ?s = "mmuConstantsAnchor @ mmuDeviceDefault @ mmuDeviceDefault @ [10] @ mmuDeviceDefault"
  have "countSub ?s mmuConstantsAnchor = 1" by code_simp
  moreover have "replaceSub 1 (mmuConstantsAnchor @ u) mmuConstantsAnchor mmuConstantsWithDMA = mmuConstantsWithDMA @ u" for u
    by (simp add: mmuConstantsAnchor_def)
  moreover have "countSub (mmuConstantsWithDMA @ mmuDeviceDefault @ mmuDeviceDefault @ [10] @ mmuDeviceDefault) mmuDeviceDefault = 3"
    by code_simp
  ultimately have "case (patchMMU ?s :: unit tool_error + bytes) of Inl _ \<Rightarrow> False | Inr _ \<Rightarrow> True"
    by (simp add: patchMMU_def)
  then obtain t where t: "patchMMU ?s = (Inr t :: unit tool_error + bytes)" by (auto split: sum.splits)
  show ?thesis using t patch_mmu [OF t] by blast
qed

end
