(* ===== verification/Overlay_Shims.thy ===== *)
theory Overlay_Shims
  imports Prelude
begin

text \<open>
  The overlay files laid over gVisor and x/sys (\<^verbatim>\<open>overlays/\<close>): gVisor's table of host error numbers,
  the gathering of I/O vectors, the socket-message and string helpers, and the entry points that a
  kernel without a host answers with a constant. The files' host types (\<^verbatim>\<open>Iovec\<close>, \<^verbatim>\<open>Msghdr\<close>, the queue
  of a waiter, ...) are type variables where nothing reads them.
\<close>

text \<open>The two error numbers the overlays return.\<close>

datatype errno = EINVAL | ENOSYS

section \<open>Host error numbers\<close>

text \<open>
  \<^verbatim>\<open>overlays/gvisor/pkg/syserr/host_tamago.go\<close>. An \<^verbatim>\<open>Errno\<close> is a 64-bit \<^verbatim>\<open>uintptr\<close>, compared as a
  signed \<^verbatim>\<open>int\<close> but used unsigned as an index; \<open>None\<close> is a nil translation.
\<close>

definition maxErrno :: nat where "maxErrno = 134"

definition linuxHostTranslations :: "'t option list" where
  "linuxHostTranslations = replicate maxErrno None"

definition addHostTranslation :: "u64 \<Rightarrow> 't option \<Rightarrow> 't option list \<Rightarrow> ('e, 't option list) result" where
  "addHostTranslation host tran table =
     (if sint host < int (length table)
      then (if unat host < length table then Inr (table[unat host := tran]) else Inl Panic)
      else Inr table)"

definition getHostTranslation :: "u64 \<Rightarrow> 't option list \<Rightarrow> ('e, 't option) result" where
  "getHostTranslation err table =
     (if sint err < int (length table) then go_index table (unat err) else Inr None)"

fun addHostTranslations :: "(u64 \<times> 't option) list \<Rightarrow> 't option list \<Rightarrow> ('e, 't option list) result" where
  "addHostTranslations [] table = Inr table"
| "addHostTranslations ((host, tran) # adds) table =
     and_then (addHostTranslation host tran table) (addHostTranslations adds)"

section \<open>I/O vectors\<close>

text \<open>
  \<^verbatim>\<open>overlays/gvisor/pkg/rawfile/rawfile_tamago.go\<close>. A slice has its bytes and the pointer to its first
  element.
\<close>

record 'p goSlice =
  dataPtr :: 'p
  content :: bytes

record 'p iovec =
  Base :: 'p
  Len :: u64

definition MaxIovs :: int where "MaxIovs = 1024"
definition MaxReadWriteIov :: int where "MaxReadWriteIov = 1024"
definition MaxSendRecvMsgIov :: int where "MaxSendRecvMsgIov = 1024"

definition IovecFromBytes :: "'p goSlice \<Rightarrow> ('e, 'p iovec) result" where
  "IovecFromBytes bs =
     (if content bs = [] then Inl Panic
      else Inr \<lparr>Base = dataPtr bs, Len = word_of_nat (length (content bs))\<rparr>)"

definition AppendIovecFromBytes :: "'p iovec list \<Rightarrow> 'p goSlice \<Rightarrow> int \<Rightarrow> ('e, 'p iovec list) result" where
  "AppendIovecFromBytes iovs bs limit =
     (if content bs = [] then Inr iovs
      else if int (length iovs) < limit then and_then (IovecFromBytes bs) (\<lambda>v. Inr (iovs @ [v]))
      else Inr iovs)"

fun gather :: "'p iovec list \<Rightarrow> 'p goSlice list \<Rightarrow> int \<Rightarrow> ('e, 'p iovec list) result" where
  "gather iovs [] limit = Inr iovs"
| "gather iovs (bs # rest) limit = and_then (AppendIovecFromBytes iovs bs limit) (\<lambda>iovs. gather iovs rest limit)"

definition GetMTU :: "bytes \<Rightarrow> u32 \<times> errno option" where "GetMTU name = (0, Some EINVAL)"
definition NonBlockingWrite :: "int \<Rightarrow> bytes \<Rightarrow> errno" where "NonBlockingWrite fd buf = EINVAL"
definition NonBlockingWriteIovec :: "int \<Rightarrow> 'p iovec list \<Rightarrow> errno" where "NonBlockingWriteIovec fd iovec = EINVAL"
definition NonBlockingSendMMsg :: "int \<Rightarrow> 'mh list \<Rightarrow> int \<times> errno" where "NonBlockingSendMMsg fd msgHdrs = (0, EINVAL)"
definition BlockingRead :: "int \<Rightarrow> bytes \<Rightarrow> int \<times> errno" where "BlockingRead fd b = (0, EINVAL)"
definition BlockingReadvUntilStopped :: "int \<Rightarrow> int \<Rightarrow> 'p iovec list \<Rightarrow> int \<times> errno" where "BlockingReadvUntilStopped efd fd iovecs = (0, EINVAL)"
definition BlockingRecvMMsgUntilStopped :: "int \<Rightarrow> int \<Rightarrow> 'mh list \<Rightarrow> int \<times> errno" where "BlockingRecvMMsgUntilStopped efd fd msgHdrs = (0, EINVAL)"
definition BlockingPollUntilStopped :: "int \<Rightarrow> int \<Rightarrow> u16 \<Rightarrow> bool \<times> errno" where "BlockingPollUntilStopped efd fd events = (False, EINVAL)"

section \<open>The x/sys overlay\<close>

text \<open>\<^verbatim>\<open>overlays/xsys/unix/syscall_tamago.go\<close>: setters of a length field, and the helpers that compute.\<close>

definition iovecSetLen :: "u64 \<Rightarrow> 'p iovec \<Rightarrow> 'p iovec" where "iovecSetLen len iov = iov\<lparr>Len := len\<rparr>"

record msghdr =
  Controllen :: u64
  Iovlen :: u64

definition SetControllen :: "u64 \<Rightarrow> msghdr \<Rightarrow> msghdr" where "SetControllen len h = h\<lparr>Controllen := len\<rparr>"
definition SetIovlen :: "u64 \<Rightarrow> msghdr \<Rightarrow> msghdr" where "SetIovlen len h = h\<lparr>Iovlen := len\<rparr>"

record cmsghdr =
  cmsgHdrLen :: u64

definition cmsgSetLen :: "u64 \<Rightarrow> cmsghdr \<Rightarrow> cmsghdr" where "cmsgSetLen len h = h\<lparr>cmsgHdrLen := len\<rparr>"

record socketControlMessage =
  Header :: cmsghdr
  Data :: bytes

text \<open>\<^verbatim>\<open>Timespec.Nano\<close> on 64-bit words, whose sum and product wrap.\<close>

record timespec =
  Sec :: u64
  Nsec :: u64

definition Nano :: "timespec \<Rightarrow> u64" where "Nano ts = Sec ts * 1000000000 + Nsec ts"

definition Getpagesize :: int where "Getpagesize = 4096"

text \<open>\<open>headerSize\<close> is the size of x/sys's \<^verbatim>\<open>Cmsghdr\<close>.\<close>

definition CmsgSpace :: "u64 \<Rightarrow> u64 \<Rightarrow> u64" where "CmsgSpace headerSize datalen = datalen + headerSize"
definition CmsgLen :: "u64 \<Rightarrow> u64 \<Rightarrow> u64" where "CmsgLen headerSize datalen = datalen + headerSize"

text \<open>The bytes behind the returned pointer, or the error.\<close>

definition BytePtrFromString :: "bytes \<Rightarrow> errno + bytes" where
  "BytePtrFromString s = (if s \<noteq> [] \<and> last s = 0 then Inl EINVAL else Inr (s @ [0]))"

text \<open>The entry points without a host.\<close>

definition RawSyscall :: "u64 \<Rightarrow> u64 \<Rightarrow> u64 \<Rightarrow> u64 \<Rightarrow> u64 \<times> u64 \<times> errno" where "RawSyscall trap a1 a2 a3 = (0, 0, EINVAL)"
definition RawSyscall6 :: "u64 \<Rightarrow> u64 \<Rightarrow> u64 \<Rightarrow> u64 \<Rightarrow> u64 \<Rightarrow> u64 \<Rightarrow> u64 \<Rightarrow> u64 \<times> u64 \<times> errno" where "RawSyscall6 trap a1 a2 a3 a4 a5 a6 = (0, 0, EINVAL)"
definition unixSyscall :: "u64 \<Rightarrow> u64 \<Rightarrow> u64 \<Rightarrow> u64 \<Rightarrow> u64 \<times> u64 \<times> errno" where "unixSyscall trap a1 a2 a3 = (0, 0, EINVAL)"
definition Syscall6 :: "u64 \<Rightarrow> u64 \<Rightarrow> u64 \<Rightarrow> u64 \<Rightarrow> u64 \<Rightarrow> u64 \<Rightarrow> u64 \<Rightarrow> u64 \<times> u64 \<times> errno" where "Syscall6 trap a1 a2 a3 a4 a5 a6 = (0, 0, EINVAL)"
definition unixRead :: "int \<Rightarrow> bytes \<Rightarrow> int \<times> errno option" where "unixRead fd p = (0, Some EINVAL)"
definition Pread :: "int \<Rightarrow> bytes \<Rightarrow> u64 \<Rightarrow> int \<times> errno option" where "Pread fd p off = (0, Some EINVAL)"
definition unixWrite :: "int \<Rightarrow> bytes \<Rightarrow> int \<times> errno option" where "unixWrite fd p = (0, Some EINVAL)"
definition Pwrite :: "int \<Rightarrow> bytes \<Rightarrow> u64 \<Rightarrow> int \<times> errno option" where "Pwrite fd p off = (0, Some EINVAL)"
definition Dup :: "int \<Rightarrow> int \<times> errno option" where "Dup fd = (- 1, Some EINVAL)"
definition unixOpen :: "bytes \<Rightarrow> int \<Rightarrow> u32 \<Rightarrow> int \<times> errno option" where "unixOpen path mode perm = (- 1, Some EINVAL)"
definition Openat :: "int \<Rightarrow> bytes \<Rightarrow> int \<Rightarrow> u32 \<Rightarrow> int \<times> errno option" where "Openat dirfd path flags mode = (- 1, Some EINVAL)"
definition unixClose :: "int \<Rightarrow> errno option" where "unixClose fd = None"
definition SetNonblock :: "int \<Rightarrow> bool \<Rightarrow> errno option" where "SetNonblock fd nonblocking = None"
definition Ftruncate :: "int \<Rightarrow> u64 \<Rightarrow> errno option" where "Ftruncate fd len = Some EINVAL"
definition Seek :: "int \<Rightarrow> u64 \<Rightarrow> int \<Rightarrow> u64 \<times> errno option" where "Seek fd off whence = (0, Some EINVAL)"
definition Getdents :: "int \<Rightarrow> bytes \<Rightarrow> int \<times> errno option" where "Getdents fd buf = (0, Some EINVAL)"
definition FcntlInt :: "u64 \<Rightarrow> int \<Rightarrow> int \<Rightarrow> int \<times> errno option" where "FcntlInt fd cmd arg = (0, Some EINVAL)"
definition Mmap :: "int \<Rightarrow> u64 \<Rightarrow> int \<Rightarrow> int \<Rightarrow> int \<Rightarrow> bytes \<times> errno option" where "Mmap fd off len prot flags = ([], Some EINVAL)"
definition Munmap :: "bytes \<Rightarrow> errno option" where "Munmap b = None"
definition Socket :: "int \<Rightarrow> int \<Rightarrow> int \<Rightarrow> int \<times> errno option" where "Socket domain typ proto = (- 1, Some EINVAL)"
definition Socketpair :: "int \<Rightarrow> int \<Rightarrow> int \<Rightarrow> (int \<times> int) \<times> errno option" where "Socketpair domain typ proto = ((- 1, - 1), Some EINVAL)"
definition Connect :: "int \<Rightarrow> 'sa \<Rightarrow> errno option" where "Connect fd sa = Some EINVAL"
definition Shutdown :: "int \<Rightarrow> int \<Rightarrow> errno option" where "Shutdown fd how = None"
definition Bind :: "int \<Rightarrow> 'sa \<Rightarrow> errno option" where "Bind fd sa = Some EINVAL"
definition Listen :: "int \<Rightarrow> int \<Rightarrow> errno option" where "Listen fd n = Some EINVAL"
definition Accept :: "int \<Rightarrow> int \<times> 'sa option \<times> errno option" where "Accept fd = (- 1, None, Some EINVAL)"
definition Fallocate :: "int \<Rightarrow> u32 \<Rightarrow> u64 \<Rightarrow> u64 \<Rightarrow> errno option" where "Fallocate fd mode off len = Some EINVAL"
definition Fstat :: "int \<Rightarrow> 'st \<Rightarrow> errno option" where "Fstat fd st = Some EINVAL"
definition Fsync :: "int \<Rightarrow> errno option" where "Fsync fd = Some EINVAL"
definition Statx :: "int \<Rightarrow> bytes \<Rightarrow> int \<Rightarrow> int \<Rightarrow> 'st \<Rightarrow> errno option" where "Statx dirfd path flags statmask st = Some ENOSYS"
definition EpollCreate1 :: "int \<Rightarrow> int \<times> errno option" where "EpollCreate1 flag = (- 1, Some EINVAL)"
definition EpollCtl :: "int \<Rightarrow> int \<Rightarrow> int \<Rightarrow> 'ev \<Rightarrow> errno option" where "EpollCtl epfd op fd ev = Some EINVAL"
definition GetsockoptInt :: "int \<Rightarrow> int \<Rightarrow> int \<Rightarrow> int \<times> errno option" where "GetsockoptInt fd level opt = (0, Some EINVAL)"
definition Ppoll :: "'pfd list \<Rightarrow> 'ts \<Rightarrow> 'ss \<Rightarrow> int \<times> errno option" where "Ppoll fds timeout sigmask = (0, Some EINVAL)"
definition ParseSocketControlMessage :: "bytes \<Rightarrow> socketControlMessage list \<times> errno option" where "ParseSocketControlMessage b = ([], Some EINVAL)"
definition ParseUnixRights :: "socketControlMessage \<Rightarrow> int list \<times> errno option" where "ParseUnixRights m = ([], Some EINVAL)"
definition UnixRights :: "int list \<Rightarrow> bytes" where "UnixRights fds = []"

section \<open>The remaining overlays of gVisor\<close>

text \<open>\<^verbatim>\<open>aio_tamago.go\<close>: a queue that takes every request and completes none.\<close>

datatype linuxQueue = LinuxQueue (capacity: int)

definition NewLinuxQueue :: "int \<Rightarrow> linuxQueue \<times> errno option" where "NewLinuxQueue cap = (LinuxQueue cap, None)"
definition Cap :: "linuxQueue \<Rightarrow> int" where "Cap q = capacity q"
definition Add :: "linuxQueue \<Rightarrow> 'r \<Rightarrow> linuxQueue" where "Add q req = q"
definition Wait :: "linuxQueue \<Rightarrow> 'c list \<Rightarrow> int \<Rightarrow> 'c list \<times> errno option" where "Wait q cs minCompletions = (cs, Some EINVAL)"

text \<open>\<^verbatim>\<open>fdchannel_tamago.go\<close>.\<close>

datatype fdError = ErrUnsupported
datatype fdEndpoint = FdEndpoint

definition NewConnectedSockets :: "(int \<times> int) \<times> fdError option" where "NewConnectedSockets = ((- 1, - 1), Some ErrUnsupported)"
definition newFdEndpoint :: "int \<Rightarrow> fdEndpoint" where "newFdEndpoint fd = FdEndpoint"
definition SendFD :: "fdEndpoint \<Rightarrow> int \<Rightarrow> fdError option" where "SendFD ep fd = Some ErrUnsupported"
definition RecvFD :: "fdEndpoint \<Rightarrow> int \<times> fdError option" where "RecvFD ep = (- 1, Some ErrUnsupported)"
definition RecvFDNonblock :: "fdEndpoint \<Rightarrow> int \<times> fdError option" where "RecvFDNonblock ep = (- 1, Some ErrUnsupported)"

text \<open>\<^verbatim>\<open>fdnotifier_tamago.go\<close>, with event masks as 64-bit words.\<close>

definition AddFD :: "u32 \<Rightarrow> 'wq \<Rightarrow> errno option" where "AddFD fd queue = None"
definition UpdateFD :: "u32 \<Rightarrow> errno option" where "UpdateFD fd = None"
definition HasFD :: "u32 \<Rightarrow> bool" where "HasFD fd = False"
definition NonBlockingPoll :: "u32 \<Rightarrow> u64 \<Rightarrow> u64" where "NonBlockingPoll fd events = events"

text \<open>\<^verbatim>\<open>memfd_tamago.go\<close>, \<^verbatim>\<open>sighandling_tamago.go\<close> (the error and the previous handler) and
  \<^verbatim>\<open>mmap_min_addr_tamago.go\<close>.\<close>

definition CreateMemFD :: "bytes \<Rightarrow> int \<Rightarrow> int \<times> errno option" where "CreateMemFD name flags = (- 1, Some EINVAL)"
definition ReplaceSignalHandler :: "int \<Rightarrow> u64 \<Rightarrow> u64 \<Rightarrow> errno option \<times> u64" where "ReplaceSignalHandler sig handler previous = (None, 0)"

definition systemMMapMinAddr :: u64 where "systemMMapMinAddr = 0x10000"
definition SystemMMapMinAddr :: u64 where "SystemMMapMinAddr = systemMMapMinAddr"
definition MMapMinAddr_MinUserAddress :: u64 where "MMapMinAddr_MinUserAddress = SystemMMapMinAddr"

text \<open>
  \<^verbatim>\<open>pgalloc_tamago.go\<close>: the options of the memory file; its other fields and \<open>initFields\<close> are gVisor's.
\<close>

datatype delayedEviction = DelayedEvictionDefault | DelayedEvictionDisabled | DelayedEvictionEnabled | DelayedEvictionManual

record memoryFileOpts =
  DelayedEviction :: delayedEviction
  DisableIMAWorkAround :: bool
  DisableMemoryAccounting :: bool

definition bareMetalMemoryFile :: "(memoryFileOpts \<Rightarrow> bool \<Rightarrow> 'f) \<Rightarrow> ('f \<Rightarrow> 'f) \<Rightarrow> 'f" where
  "bareMetalMemoryFile newMemoryFile initFields =
     initFields (newMemoryFile \<lparr>DelayedEviction = DelayedEvictionManual, DisableIMAWorkAround = True,
        DisableMemoryAccounting = True\<rparr> True)"

section \<open>Properties of the translation table\<close>

text \<open>The table as a map from error numbers.\<close>

definition hostMap :: "'t option list \<Rightarrow> u64 \<Rightarrow> 't option" where
  "hostMap table err = (if unat err < length table then table ! unat err else None)"

lemma sint_uint_minus: "sint (w :: u64) = uint w - 2 ^ 64 * of_bool (bit (uint w) 63)"
proof -
  have "sint w = signed_take_bit 63 (uint w)" by (simp add: sint_uint)
  also have "\<dots> = take_bit 64 (uint w) - 2 ^ 64 * of_bool (bit (uint w) 63)"
    using signed_take_bit_eq_take_bit_minus [of 63 "uint w"] by simp
  also have "take_bit 64 (uint w) = uint w" using take_bit_int_eq_self [of "uint w" 64] uint_lt2p [of w] by simp
  finally show ?thesis .
qed

lemma sint_less_iff: "0 \<le> sint (w :: u64) \<Longrightarrow> sint w < int n \<longleftrightarrow> unat w < n"
proof -
  assume "0 \<le> sint w"
  moreover have "uint w < 2 ^ 64" using uint_lt2p [of w] by simp
  ultimately have "sint w = int (unat w)" using sint_uint_minus [of w] by (cases "bit (uint w) 63") simp_all
  then show ?thesis by (simp only: of_nat_less_iff)
qed

lemma sint_negative: "sint (w :: u64) < 0 \<Longrightarrow> \<not> unat w < 2 ^ 63"
proof
  assume neg: "sint w < 0" and "unat w < 2 ^ 63"
  then have "int (unat w) < int (2 ^ 63)" by (simp only: of_nat_less_iff)
  then have lt: "uint w < 2 ^ 63" by simp
  have "\<not> bit (uint w) 63" using bit_take_bit_iff [of 63 "uint w" 63] take_bit_int_eq_self [OF _ lt] by simp
  then show False using neg sint_uint_minus [of w] by simp
qed

lemma getHostTranslation_map:
  "0 \<le> sint err \<Longrightarrow> getHostTranslation err table = Inr (hostMap table err)"
  by (simp add: getHostTranslation_def hostMap_def sint_less_iff)

lemma addHostTranslation_map:
  assumes "0 \<le> sint host"
  shows "\<exists>t'. addHostTranslation host tran table = (Inr t' :: ('e, 't option list) result) \<and> length t' = length table \<and>
    hostMap t' = (if unat host < length table then (hostMap table)(host := tran) else hostMap table)"
proof -
  have "hostMap (table[unat host := tran]) = (hostMap table)(host := tran)" if "unat host < length table"
    using that by (auto simp: hostMap_def fun_eq_iff nth_list_update word_unat_eq_iff)
  then show ?thesis using sint_less_iff [OF assms] by (simp add: addHostTranslation_def)
qed

lemma addHostTranslations_map:
  assumes "list_all (\<lambda>(host, tran). 0 \<le> sint host) adds"
  shows "\<exists>t'. addHostTranslations adds table = (Inr t' :: ('e, 't option list) result) \<and> length t' = length table \<and>
    hostMap t' = foldl (\<lambda>m (host, tran). if unat host < length table then m(host := tran) else m) (hostMap table) adds"
  using assms
proof (induction adds arbitrary: table)
  case (Cons a adds)
  obtain host tran where a: "a = (host, tran)" by fastforce
  with Cons.prems have h: "0 \<le> sint host" and adds: "list_all (\<lambda>(host, tran). 0 \<le> sint host) adds" by simp_all
  from addHostTranslation_map [OF h, of tran table] obtain t where t: "addHostTranslation host tran table = (Inr t :: ('e, 't option list) result)"
    "length t = length table"
    "hostMap t = (if unat host < length table then (hostMap table)(host := tran) else hostMap table)" by blast
  have "addHostTranslations (a # adds) table = (addHostTranslations adds t :: ('e, 't option list) result)" by (simp add: a t(1))
  then show ?case using Cons.IH [OF adds, of t] unfolding t(2,3) by (simp add: a)
qed simp

text \<open>C39: the table of host error numbers refines a map: after any registrations of non-negative numbers a
  look-up returns what the last registration of that number set, numbers from 134 on being ignored; a
  number that is negative as an \<^verbatim>\<open>int\<close> passes the check and panics.\<close>

theorem host_translations:
  assumes "list_all (\<lambda>(host, tran). 0 \<le> sint host) adds"
  shows "\<exists>t. addHostTranslations adds linuxHostTranslations = (Inr t :: ('e, 't option list) result) \<and>
    (\<forall>err. (getHostTranslation err t :: ('e, 't option) result) =
       (if sint err < 0 then Inl Panic
        else Inr (foldl (\<lambda>m (host, tran). if unat host < maxErrno then m(host := tran) else m) (\<lambda>_. None) adds err)))"
proof -
  obtain t where t: "addHostTranslations adds linuxHostTranslations = (Inr t :: ('e, 't option list) result)" "length t = maxErrno"
    "hostMap t = foldl (\<lambda>m (host, tran). if unat host < maxErrno then m(host := tran) else m) (hostMap linuxHostTranslations) adds"
    using addHostTranslations_map [OF assms, of linuxHostTranslations] by (auto simp: linuxHostTranslations_def)
  have "hostMap linuxHostTranslations = (\<lambda>_. None :: 't option)"
    by (simp add: hostMap_def linuxHostTranslations_def fun_eq_iff)
  moreover have "getHostTranslation err t = (Inl Panic :: ('e, 't option) result)" if "sint err < 0" for err
    using sint_negative [OF that] that t(2) by (simp add: getHostTranslation_def go_index_def maxErrno_def)
  ultimately show ?thesis using t by (intro exI [of _ t]) (simp add: not_less getHostTranslation_map)
qed

lemma host_translations_witness:
  "\<exists>t. addHostTranslations [(22, Some ''EINVAL''), (38, Some ''old''), (38, Some ''ENOSYS''), (200, Some ''none'')]
      linuxHostTranslations = (Inr t :: (unit, string option list) result) \<and>
    getHostTranslation 38 t = (Inr (Some ''ENOSYS'') :: (unit, string option) result) \<and>
    getHostTranslation 200 t = (Inr None :: (unit, string option) result) \<and>
    getHostTranslation (- 1) t = (Inl Panic :: (unit, string option) result)"
proof -
  have "list_all (\<lambda>(host :: u64, tran). 0 \<le> sint host)
      [(22, Some ''EINVAL''), (38, Some ''old''), (38, Some ''ENOSYS''), (200, Some ''none'')]"
    by code_simp
  from host_translations [OF this] obtain t where t:
    "addHostTranslations [(22, Some ''EINVAL''), (38, Some ''old''), (38, Some ''ENOSYS''), (200, Some ''none'')]
      linuxHostTranslations = (Inr t :: (unit, string option list) result)"
    "getHostTranslation err t = ((if sint err < 0 then Inl Panic
        else Inr (foldl (\<lambda>m (host, tran). if unat host < maxErrno then m(host := tran) else m) (\<lambda>_. None)
          [(22, Some ''EINVAL''), (38, Some ''old''), (38, Some ''ENOSYS''), (200, Some ''none'')] err)) :: (unit, string option) result)" for err
    by blast
  have s: "\<not> sint (38 :: u64) < 0" "\<not> sint (200 :: u64) < 0" "sint (- 1 :: u64) < 0" by code_simp+
  then show ?thesis using t(1) t(2) [of 38] t(2) [of 200] t(2) [of "- 1"]
    by (intro exI [of _ t]) (simp add: maxErrno_def)
qed

section \<open>Gathering\<close>

lemma AppendIovecFromBytes_cases:
  "AppendIovecFromBytes iovs bs limit = Inr
     (if content bs \<noteq> [] \<and> int (length iovs) < limit
      then iovs @ [\<lparr>Base = dataPtr bs, Len = word_of_nat (length (content bs))\<rparr>] else iovs)"
  by (simp add: AppendIovecFromBytes_def IovecFromBytes_def)

text \<open>Gathering buffers never panics and yields the vectors of the first non-empty buffers, in order,
  as many as the limit leaves room for.\<close>

theorem gather_buffers:
  "gather iovs bufs limit = Inr (iovs @ take (nat (limit - int (length iovs)))
     (map (\<lambda>bs. \<lparr>Base = dataPtr bs, Len = word_of_nat (length (content bs))\<rparr>) (List.filter (\<lambda>bs. content bs \<noteq> []) bufs)))"
proof (induction bufs arbitrary: iovs)
  case (Cons bs bufs)
  have "nat (limit - int (length iovs)) = Suc (nat (limit - (1 + int (length iovs))))" if "int (length iovs) < limit"
    using that by linarith
  then show ?case by (auto simp: AppendIovecFromBytes_cases Cons.IH)
qed simp

section \<open>Strings\<close>

text \<open>What a C reader finds behind a pointer.\<close>

definition cString :: "bytes \<Rightarrow> bytes" where "cString b = takeWhile (\<lambda>x. x \<noteq> 0) b"

text \<open>Only a NUL at the end is refused: with one inside, the C string is shorter than the argument.\<close>

lemma BytePtrFromString_reads:
  assumes "BytePtrFromString s = Inr b"
  shows "cString b = takeWhile (\<lambda>x. x \<noteq> 0) s \<and> (cString b = s \<longleftrightarrow> 0 \<notin> set s)"
proof -
  have b: "b = s @ [0]" using assms by (simp add: BytePtrFromString_def split: if_splits)
  have "cString b = takeWhile (\<lambda>x. x \<noteq> 0) s"
    by (simp add: b cString_def takeWhile_append)
      (metis (mono_tags, lifting) takeWhile_eq_all_conv)
  moreover have "takeWhile (\<lambda>x. x \<noteq> 0) s = s \<longleftrightarrow> 0 \<notin> set s" by (auto simp: takeWhile_eq_all_conv)
  ultimately show ?thesis by simp
qed

end
