(* ===== verification/Kernel_Main.thy ===== *)
theory Kernel_Main
  imports Elf2raw Mmio_Scan Sentry_Boot Network Runtime Patch_Tools
begin

text \<open>
  The kernel as a whole, \<^verbatim>\<open>main\<close> of \<^verbatim>\<open>kernel/main.go\<close>: the boot up to the serving loop, the HTTP
  service over vsock while the Sentry and the network report their progress, and the memory that the
  runtime, the platform and the patched TamaGo agree on.
\<close>

section \<open>The boot\<close>

text \<open>The handler \<^verbatim>\<open>main\<close> passes to \<^verbatim>\<open>Serve\<close>, at the status it reads.\<close>

definition serviceHandler :: "kernelInfo \<Rightarrow> gvisorStatus \<Rightarrow> networkStatus \<Rightarrow> bytes \<Rightarrow> bytes option" where
  "serviceHandler K g n req = Some (handleRequest K g n req)"

text \<open>The errors with which \<^verbatim>\<open>main\<close> calls \<^verbatim>\<open>log.Fatal\<close>.\<close>

datatype 'e main_error = PlatformFailed | DeviceFailed "'e find_error" | ServeFailed "'e device_error"

text \<open>
  \<^verbatim>\<open>main\<close> up to the first round of \<^verbatim>\<open>Serve\<close>'s loop: the base and the server, or the error, with the
  status at that point; \<open>None\<close> is a scan that never ends. \<^verbatim>\<open>startGVisorSentry\<close> runs beside the loop.
\<close>

definition kernelMain :: "kernelInfo \<Rightarrow> bool \<Rightarrow> ('pt, 'm) gvisor \<Rightarrow> u64 \<Rightarrow> u64 \<Rightarrow> ('m \<Rightarrow> bytes) \<Rightarrow> (bytes \<Rightarrow> 'm \<Rightarrow> 'm) \<Rightarrow> u64 \<Rightarrow>
    (u32 \<Rightarrow> ('q, 'v, 'e) virtio) \<Rightarrow> 'm \<Rightarrow> 'q \<Rightarrow>
    (('e main_error, u32 \<times> ('q, 'v, endpoint) server) result \<times> gvisorStatus) option" where
  "kernelMain K canonical G swAddr exAddr readPage writePage storageAddr bus m q =
     (case gvisorKernelProbe canonical G swAddr exAddr readPage writePage storageAddr (initialStatus, m) of
        (Inl (e :: 'e main_error failure), _, s, _) \<Rightarrow> Some (Inl e, s)
      | (Inr False, _, s, _) \<Rightarrow> Some (Inl (Err PlatformFailed), s)
      | (Inr True, _, s, _) \<Rightarrow>
          (case findVsockDevice bus q of
             None \<Rightarrow> None
           | Some (Inl err, q) \<Rightarrow> Some (Inl (Err (DeviceFailed err)), s)
           | Some (Inr (d, base), q) \<Rightarrow>
               (case serveStart (bus base) d vsockPort (Some (serviceHandler K s initialReport)) q of
                  Inl err \<Rightarrow> Some (Inl (Err (ServeFailed err)), s)
                | Inr srv \<Rightarrow> Some (Inr (base, srv), s))))"

section \<open>The service\<close>

text \<open>
  The serving loop and the goroutines that report: the run of the endpoint, the two reports, and every
  value each report has had.
\<close>

record kernelRun =
  kRun :: run
  kStatus :: gvisorStatus
  kNet :: networkStatus
  pastStatus :: "gvisorStatus list"
  pastNet :: "networkStatus list"

definition reported :: "gvisorStatus \<Rightarrow> kernelRun \<Rightarrow> kernelRun" where
  "reported g s = s\<lparr>kStatus := g, pastStatus := g # pastStatus s\<rparr>"

inductive reportStep :: "kernelRun \<Rightarrow> kernelRun \<Rightarrow> bool" where
  setStage: "reportStep s (reported (setGVisorStage x (kStatus s)) s)"
| setOutput: "reportStep s (reported (setGVisorOutput x (kStatus s)) s)"
| setFailure: "reportStep s (reported (setGVisorFailure x (kStatus s)) s)"
| setNetwork: "reportStep s (s\<lparr>kNet := u (kNet s), pastNet := u (kNet s) # pastNet s\<rparr>)"

definition withHandler :: "(bytes \<Rightarrow> bytes option) \<Rightarrow> run \<Rightarrow> run" where
  "withHandler f r = r\<lparr>ep := (ep r)\<lparr>Handler := Some f\<rparr>\<rparr>"

text \<open>
  Reports change between the endpoint's steps, and during one: \<^verbatim>\<open>handleRequest\<close> reads the Sentry's
  status first and the network's later, each under its own lock.
\<close>

inductive kernelStep :: "kernelInfo \<Rightarrow> kernelRun \<Rightarrow> kernelRun \<Rightarrow> bool" for K where
  report: "reportStep s t \<Longrightarrow> kernelStep K s t"
| serve: "reportStep\<^sup>*\<^sup>* s t \<Longrightarrow> vsockStep (withHandler (serviceHandler K (kStatus s) (kNet t)) (kRun s)) r \<Longrightarrow>
    kernelStep K s (t\<lparr>kRun := r\<rparr>)"

inductive kernelReach :: "kernelInfo \<Rightarrow> u64 \<Rightarrow> gvisorStatus \<Rightarrow> kernelRun \<Rightarrow> bool" for K cid g where
  start: "kernelReach K cid g
    \<lparr>kRun = \<lparr>ep = NewEndpoint cid vsockPort (Some (serviceHandler K g initialReport)), got = (\<lambda>_. []), delivered = (\<lambda>_. [])\<rparr>,
     kStatus = g, kNet = initialReport, pastStatus = [g], pastNet = [initialReport]\<rparr>"
| step: "kernelReach K cid g s \<Longrightarrow> kernelStep K s t \<Longrightarrow> kernelReach K cid g t"

section \<open>The invariant\<close>

text \<open>The handlers at any pair of values the reports have had.\<close>

definition pastHandlers :: "kernelInfo \<Rightarrow> kernelRun \<Rightarrow> (bytes \<Rightarrow> bytes option) option set" where
  "pastHandlers K s = {Some (serviceHandler K g n) | g n. g \<in> set (pastStatus s) \<and> n \<in> set (pastNet s)}"

definition kernelOk :: "kernelInfo \<Rightarrow> kernelRun \<Rightarrow> bool" where
  "kernelOk K s \<longleftrightarrow> historyOk (pastHandlers K s) (kRun s) \<and> kStatus s \<in> set (pastStatus s) \<and> kNet s \<in> set (pastNet s)"

lemma historyOk_mono: "historyOk Hs r \<Longrightarrow> Hs \<subseteq> Hs' \<Longrightarrow> historyOk Hs' r"
  unfolding historyOk_def by blast

lemma historyOk_withHandler [simp]: "historyOk Hs (withHandler f r) = historyOk Hs r"
proof -
  have "connOk ((ep r)\<lparr>Handler := Some f\<rparr>) = connOk (ep r)" by (simp add: connOk_def fun_eq_iff)
  then show ?thesis by (simp add: historyOk_def withHandler_def endpointOk_def)
qed

lemma Handler_withHandler: "Handler (ep (withHandler f r)) = Some f"
  by (simp add: withHandler_def)

lemma reportStep_past:
  "reportStep s t \<Longrightarrow> kRun t = kRun s \<and> set (pastStatus s) \<subseteq> set (pastStatus t) \<and> set (pastNet s) \<subseteq> set (pastNet t) \<and>
    (kNet s \<in> set (pastNet s) \<longrightarrow> kNet t \<in> set (pastNet t)) \<and>
    (kStatus s \<in> set (pastStatus s) \<longrightarrow> kStatus t \<in> set (pastStatus t))"
  by (induction rule: reportStep.induct) (auto simp: reported_def)

lemma reportSteps_past:
  "reportStep\<^sup>*\<^sup>* s t \<Longrightarrow> kRun t = kRun s \<and> set (pastStatus s) \<subseteq> set (pastStatus t) \<and> set (pastNet s) \<subseteq> set (pastNet t) \<and>
    (kNet s \<in> set (pastNet s) \<longrightarrow> kNet t \<in> set (pastNet t)) \<and>
    (kStatus s \<in> set (pastStatus s) \<longrightarrow> kStatus t \<in> set (pastStatus t))"
  by (induction rule: rtranclp_induct) (auto dest!: reportStep_past)

lemma reportSteps_ok: "reportStep\<^sup>*\<^sup>* s t \<Longrightarrow> kernelOk K s \<Longrightarrow> kernelOk K t"
  using reportSteps_past [of s t] historyOk_mono [of "pastHandlers K s" "kRun s" "pastHandlers K t"]
  by (auto simp: kernelOk_def pastHandlers_def)

lemma kernelStep_ok: "kernelStep K s t \<Longrightarrow> kernelOk K s \<Longrightarrow> kernelOk K t"
proof (induction rule: kernelStep.induct)
  case (report s t)
  then show ?case using reportSteps_ok [of s t K] by blast
next
  case (serve s t r)
  let ?f = "serviceHandler K (kStatus s) (kNet t)"
  have t: "kernelOk K t" using reportSteps_ok serve by blast
  have f: "Some ?f \<in> pastHandlers K t"
    using serve.prems t reportSteps_past [OF serve.hyps(1)] by (auto simp: pastHandlers_def kernelOk_def)
  have "historyOk (pastHandlers K t) (kRun s)"
    using t reportSteps_past [OF serve.hyps(1)] by (simp add: kernelOk_def)
  then have "historyOk (pastHandlers K t) r"
    using vsockStep_history [OF serve.hyps(2), of "pastHandlers K t"] f by (simp add: Handler_withHandler)
  then show ?case using t by (simp add: kernelOk_def pastHandlers_def)
qed

lemma kernelReach_ok: "kernelReach K cid g s \<Longrightarrow> kernelOk K s"
proof (induction rule: kernelReach.induct)
  case start
  show ?case by (simp add: kernelOk_def history_start)
next
  case (step s t)
  then show ?case by (blast intro: kernelStep_ok)
qed

lemma response_of_complete:
  assumes "contains p crlf2"
  shows "\<exists>status contentType body. readResponse (handleRequest K g n p) = Some (status, headersOf contentType body, body) \<and>
    status \<in> {ascii ''200 OK'', ascii ''404 Not Found'', ascii ''405 Method Not Allowed''}"
proof -
  have "sublist crlf2 p" using assms index_of_None_iff [of crlf2 p] by (simp add: contains_def)
  then obtain a b where "p = a @ crlf @ (crlf @ b)" by (auto simp: sublist_def crlf2_def crlf_def)
  then have "sublist crlf p" by simp
  then obtain i where "index_of crlf p = Some i" using index_of_None_iff [of crlf p] by auto
  then show ?thesis
    by (auto simp: readResponse_handle answer_def getTarget_def split: list.split)
qed

section \<open>Properties\<close>

text \<open>C2: while the Sentry and the network report, every peer of the reachable kernel has been sent nothing,
  or the start of one HTTP response: \<open>handleRequest\<close>'s answer to what it had sent when its request
  header was complete, at values the two reports had by then. That response is well formed and never
  the 400 of the code's first branch.\<close>

theorem http_exchange:
  assumes "kernelReach K cid g0 s" "go_lookup (connections (ep (kRun s))) k = Some c"
  shows "response c = None \<and> delivered (kRun s) k = [] \<or>
    (\<exists>g n p status contentType body. g \<in> set (pastStatus s) \<and> n \<in> set (pastNet s) \<and>
       prefix p (got (kRun s) k) \<and> contains p crlf2 \<and>
       delivered (kRun s) k = take (sent c) (handleRequest K g n p) \<and>
       readResponse (handleRequest K g n p) = Some (status, headersOf contentType body, body) \<and>
       status \<in> {ascii ''200 OK'', ascii ''404 Not Found'', ascii ''405 Method Not Allowed''})"
proof -
  have ok: "got (kRun s) k = request c" "delivered (kRun s) k = take (sent c) (responseBytes c)"
    "response c \<noteq> None \<Longrightarrow> \<exists>H \<in> pastHandlers K s. answered H c"
    using kernelReach_ok [OF assms(1)] assms(2) by (auto simp: kernelOk_def historyOk_def)
  show ?thesis
  proof (cases "response c = None")
    case True
    then show ?thesis using ok(2) by (simp add: responseBytes_def)
  next
    case False
    from ok(3) [OF this] obtain g n p where p: "g \<in> set (pastStatus s)" "n \<in> set (pastNet s)"
      "prefix p (request c)" "contains p crlf2" "response c = Some (handleRequest K g n p)"
      by (auto simp: pastHandlers_def answered_def serviceHandler_def)
    with response_of_complete [OF p(4), of K g n] show ?thesis
      unfolding ok(1,2) by (simp add: responseBytes_def) blast
  qed
qed

text \<open>The result of the smoke test on the platform \<^verbatim>\<open>New\<close> makes.\<close>

definition smokeResult :: "('pt, 'm) gvisor \<Rightarrow> u64 \<Rightarrow> u64 \<Rightarrow> ('m \<Rightarrow> bytes) \<Rightarrow> (bytes \<Rightarrow> 'm \<Rightarrow> 'm) \<Rightarrow> u64 \<Rightarrow> 'm \<Rightarrow>
    (smoke_error, bytes) result" where
  "smokeResult G swAddr exAddr readPage writePage storageAddr m =
     (let (_, p, _) = newPlatform G swAddr exAddr in fst (RunEL0Smoke G readPage writePage storageAddr p m))"

text \<open>C14: how \<^verbatim>\<open>main\<close> comes to its serving loop, for every platform and bus. It panics exactly when the
  smoke test of a canonical machine panics; it ends in the platform error when the machine is not
  canonical or the smoke test returns an error or another text than the greeting; in the error of the
  vsock search, and that error, when the greeting was written; and otherwise it reaches the loop. It never
  meets the loop's own "not initialized" error. In the loop the server belongs to the first transport
  with the vsock id, and its endpoint is empty, on port 4040 and the device's CID.\<close>

theorem kernel_startup:
  fixes bus :: "u32 \<Rightarrow> ('q, 'v, 'e) virtio"
  shows "\<exists>r s. kernelMain K canonical G swAddr exAddr readPage writePage storageAddr bus m q = Some (r, s) \<and>
    (case r of
       Inl Panic \<Rightarrow> canonical \<and> smokeResult G swAddr exAddr readPage writePage storageAddr m = Inl Panic
     | Inl (Err PlatformFailed) \<Rightarrow>
         (if canonical then smokeResult G swAddr exAddr readPage writePage storageAddr m \<notin> {Inl Panic, Inr sentryHello} else True)
     | Inl (Err (DeviceFailed e)) \<Rightarrow>
         canonical \<and> smokeResult G swAddr exAddr readPage writePage storageAddr m = Inr sentryHello \<and>
         gvisorEL0Output s = sentryHello \<and>
         fst (the (findVsockDevice bus q)) = Inl e
     | Inl (Err (ServeFailed e)) \<Rightarrow> False
     | Inr (base, srv) \<Rightarrow>
         canonical \<and> smokeResult G swAddr exAddr readPage writePage storageAddr m = Inr sentryHello \<and>
         gvisorEL0Output s = sentryHello \<and>
         List.find (\<lambda>b. tDeviceID (bus b) q = DeviceID) mmioSlots = Some base \<and>
         fst (the (findVsockDevice bus q)) = Inr (sDev srv, base) \<and>
         endpointReady (sEndpoint srv) \<and> connections (sEndpoint srv) = [] \<and> sPending srv = [] \<and> pushed srv = [] \<and>
         Port (sEndpoint srv) = 4040 \<and> CID (sEndpoint srv) = devCID (sDev srv) \<and> devCID (sDev srv) \<noteq> 0 \<and>
         Handler (sEndpoint srv) = Some (serviceHandler K s initialReport))"
proof -
  let ?smoke = "smokeResult G swAddr exAddr readPage writePage storageAddr m"
  obtain r :: "('e main_error, bool) result" and P s m' where probe:
    "gvisorKernelProbe canonical G swAddr exAddr readPage writePage storageAddr (initialStatus, m) = (r, P, s, m')"
    by (metis prod_cases4)
  note main = kernelMain_def [of K canonical G swAddr exAddr readPage writePage storageAddr bus m q, unfolded probe]
  have pr: "case r of Inl e \<Rightarrow> e = Panic \<and> canonical \<and> ?smoke = Inl Panic
     | Inr ok \<Rightarrow> if ok then canonical \<and> ?smoke = Inr sentryHello \<and> gvisorEL0Output s = sentryHello
         else \<not> canonical \<or> ?smoke \<noteq> Inl Panic \<and> ?smoke \<noteq> Inr sentryHello"
    using probe unfolding smokeResult_def
    by (auto simp: gvisorKernelProbe_def setGVisorOutput_def split: if_splits sum.splits failure.splits prod.splits)
  show ?thesis
  proof (cases r)
    case (Inl e)
    then have "e = Panic" "canonical \<and> ?smoke = Inl Panic" using pr by simp_all
    then show ?thesis unfolding main Inl by simp
  next
    case (Inr ok)
    show ?thesis
    proof (cases ok)
      case False
      then show ?thesis using Inr pr by (simp add: main)
    next
      case True
      have hello: "canonical" "?smoke = Inr sentryHello" "gvisorEL0Output s = sentryHello" using pr Inr True by simp_all
      obtain x q' where find: "findVsockDevice bus q = Some (x, q')"
        and x: "case x of Inl _ \<Rightarrow> True | Inr (d, base) \<Rightarrow>
          List.find (\<lambda>b. tDeviceID (bus b) q = DeviceID) mmioSlots = Some base \<and> deviceInit (bus base) newDevice q = (None, d, q')"
        using findVsockDevice_first [of bus q]
        by (auto split: option.splits prod.splits)
      show ?thesis
      proof (cases x)
        case (Inl err)
        then show ?thesis unfolding main using Inr True hello find by simp
      next
        case x': (Inr db)
        obtain d base where db: "db = (d, base)" by fastforce
        have b: "List.find (\<lambda>b. tDeviceID (bus b) q = DeviceID) mmioSlots = Some base"
          "deviceInit (bus base) newDevice q = (None, d, q')" using x x' db by simp_all
        from device_init [OF b(2)] obtain vrx vtx vev where d: "rx d = Some vrx" "tx d = Some vtx" "event d = Some vev"
          "devCID d \<noteq> 0" by auto
        have "endpointReady (NewEndpoint (devCID d) vsockPort (Some (serviceHandler K s initialReport)))"
          by (simp add: endpointReady_def endpointOk_new) (simp add: NewEndpoint_def)
        then show ?thesis unfolding main using Inr True hello find x' db b(1) d
          by (simp add: serveStart_def) (simp add: NewEndpoint_def vsockPort_def)
      qed
    qed
  qed
qed

text \<open>A peer that connects and sends an empty request.\<close>

definition askedConn :: "(bytes \<Rightarrow> bytes option) \<Rightarrow> connection" where
  "askedConn f = openConn\<lparr>request := crlf2, rxFwd := 4, response := f crlf2\<rparr>"

definition testBoot :: "(bytes \<Rightarrow> bytes option) \<Rightarrow> (connectionKey \<times> connection) list \<Rightarrow> endpoint" where
  "testBoot f conns = (NewEndpoint 3 4040 (Some f))\<lparr>connections := conns\<rparr>"

lemma open_service:
  "handle (testBoot f []) [hostKey] (hostPacket OpRequest []) =
     (testBoot f [(hostKey, openConn)], Inr [encodePacket (replyHeader (testBoot f []) openConn OpResponse 0) []])"
  by (simp add: testBoot_def eval_endpoint sendLoop.simps Let_def replyHeader_def)

lemma ask_service:
  assumes "f crlf2 \<noteq> None"
  obtains e' out c' where "handle (testBoot f [(hostKey, openConn)]) [hostKey] (hostPacket OpReadWrite crlf2) = (e', Inr out)"
    "go_lookup (connections e') hostKey = Some c'" "response c' = f crlf2"
proof -
  have asked: "handle (testBoot f [(hostKey, openConn)]) [hostKey] (hostPacket OpReadWrite crlf2) =
      thenDrain (testBoot f [(hostKey, askedConn f)]) [hostKey] []"
    using assms by (auto simp: testBoot_def handle_def hostPacket_def decode_encode op_defs TypeStream_def updatePeer_def
      store_def NewEndpoint_def hostKey_def openConn_def askedConn_def handleReadWrite_eq
      contains_crlf2 received_def creditReply_def DefaultBuffer_def Let_def)
  have ok: "endpointOk (testBoot f [(hostKey, askedConn f)])"
    by (simp add: testBoot_def endpointOk_def NewEndpoint_def connOk_def askedConn_def openConn_def hostKey_def
      DefaultBuffer_def DefaultMaxConns_def responseBytes_def)
  obtain e' r where t: "thenDrain (testBoot f [(hostKey, askedConn f)]) [hostKey] [] = (e', r)" by fastforce
  from thenDrain_spec [OF t ok] obtain out where "r = Inr out"
    "drained (BufferLen (testBoot f [(hostKey, askedConn f)])) hostKey
       (go_lookup (connections (testBoot f [(hostKey, askedConn f)])) hostKey) out (go_lookup (connections e') hostKey)"
    by auto
  moreover have "response (askedConn f) = f crlf2" by (simp add: askedConn_def)
  ultimately show ?thesis using that [of e' out] t asked assms
    by (auto simp: testBoot_def drained_def)
qed

definition testInfo :: kernelInfo where
  "testInfo = \<lparr>tamagoVersion = [], gvisorVersion = [], pluginUI = []\<rparr>"

lemma reach_asked:
  "\<exists>s c. kernelReach testInfo 3 initialStatus s \<and> go_lookup (connections (ep (kRun s))) hostKey = Some c \<and> response c \<noteq> None"
proof -
  let ?f = "serviceHandler testInfo initialStatus initialReport"
  define s0 where "s0 = \<lparr>kRun = \<lparr>ep = NewEndpoint 3 vsockPort (Some ?f), got = (\<lambda>_. []), delivered = (\<lambda>_. [])\<rparr>,
    kStatus = initialStatus, kNet = initialReport, pastStatus = [initialStatus], pastNet = [initialReport]\<rparr>"
  have st: "kStatus s0 = initialStatus" "kNet s0 = initialReport" by (simp_all add: s0_def)
  have r0: "kernelReach testInfo 3 initialStatus s0" unfolding s0_def by (rule kernelReach.start)
  have e0: "withHandler ?f (kRun s0) = kRun s0" "ep (kRun s0) = testBoot ?f []"
    by (simp_all add: withHandler_def s0_def NewEndpoint_def testBoot_def vsockPort_def)
  obtain r1 where r1: "vsockStep (kRun s0) r1" "ep r1 = testBoot ?f [(hostKey, openConn)]"
    using vsockStep.packet [of "kRun s0" "[hostKey]" "hostPacket OpRequest []"] open_service [of ?f] e0(2) by auto
  define s1 where "s1 = s0\<lparr>kRun := r1\<rparr>"
  have reach1: "kernelReach testInfo 3 initialStatus s1"
    using kernelReach.step [OF r0 kernelStep.serve [of s0 s0 testInfo r1]] r1(1) e0(1) st by (simp add: s1_def)
  have e1: "withHandler ?f (kRun s1) = kRun s1" "ep (kRun s1) = testBoot ?f [(hostKey, openConn)]"
    using r1(2) by (simp_all add: s1_def withHandler_def testBoot_def NewEndpoint_def)
  have "?f crlf2 \<noteq> None" by (simp add: serviceHandler_def)
  from ask_service [of ?f, OF this] obtain e' out c' where
    a: "handle (testBoot ?f [(hostKey, openConn)]) [hostKey] (hostPacket OpReadWrite crlf2) = (e', Inr out)"
      "go_lookup (connections e') hostKey = Some c'" "response c' = ?f crlf2" by blast
  obtain r2 where r2: "vsockStep (kRun s1) r2" "ep r2 = e'"
    using vsockStep.packet [of "kRun s1" "[hostKey]" "hostPacket OpReadWrite crlf2"] a(1) e1(2) by auto
  have "kernelReach testInfo 3 initialStatus (s1\<lparr>kRun := r2\<rparr>)"
    using kernelReach.step [OF reach1 kernelStep.serve [of s1 s1 testInfo r2]] r2(1) e1(1) st by (simp add: s1_def)
  then show ?thesis using a r2(2) by (intro exI [of _ "s1\<lparr>kRun := r2\<rparr>"] exI [of _ c']) (simp add: serviceHandler_def)
qed

lemma http_exchange_witness:
  "\<exists>s c g n p. kernelReach testInfo 3 initialStatus s \<and> go_lookup (connections (ep (kRun s))) hostKey = Some c \<and>
     prefix p (got (kRun s) hostKey) \<and> contains p crlf2 \<and>
     delivered (kRun s) hostKey = take (sent c) (handleRequest testInfo g n p)"
proof -
  obtain s c where s: "kernelReach testInfo 3 initialStatus s"
    "go_lookup (connections (ep (kRun s))) hostKey = Some c" "response c \<noteq> None"
    using reach_asked by blast
  from http_exchange [OF s(1,2)] s show ?thesis by blast
qed

section \<open>Memory\<close>

text \<open>C30: the runtime's heap, where the raw image is loaded, and the DMA region tile the start of RAM without overlap; the DMA region is the one
  the patched TamaGo classifies; the platform maps every byte of both to itself, write-back; and the buffers of
  the three vsock queues fit the region several times over.\<close>

theorem memory_layout:
  assumes "mapLaws G tr ro own" "x - ramBase < ramBytes + dmaBytes"
  shows "ramBase + ramBytes = dmaBase \<and> ramBase = ramStart \<and> ramBase = elf2rawBase \<and> dmaBase + dmaBytes \<le> ramStart + ramSize \<and>
    sublist (ascii ''sprDMAStart uint64 = '' @ hexPrefixed (unat dmaBase)) mmuConstantsWithDMA \<and>
    sublist (ascii ''sprDMAEnd   uint64 = '' @ hexPrefixed (unat (dmaBase + dmaBytes))) mmuConstantsWithDMA \<and>
    tr (newKernelPT G (newUpper G)) x = Some (x, ramOpts) \<and>
    4 * (2 * nat queueDepth * packetBufferSize + nat queueDepth * eventBufferSize) \<le> unat dmaBytes"
proof -
  have defs: "ramBase = 0x80000000" "ramBytes = 0x0c000000" "dmaBase = 0x8c000000" "dmaBytes = 0x02000000"
    by (simp_all add: ramBase_def ramBytes_def dmaBase_def dmaBytes_def)
  have "0x80000000 \<le> x \<and> x < 0x8e000000"
    using in_range [of "0x80000000" "0x0e000000" x] assms(2) by (simp add: defs)
  moreover have "x < 0x8e000000 \<Longrightarrow> x < 0x90000000 \<and> x < 0x100000000"
    by (auto simp: word_less_nat_alt)
  ultimately have map: "tr (newKernelPT G (newUpper G)) x = Some (x, ramOpts)"
    using newKernelPT_view(1) [OF assms(1), of x] by simp
  have hex: "hexPrefixed (unat dmaBase) = ascii ''0x8c000000''" "hexPrefixed (unat (dmaBase + dmaBytes)) = ascii ''0x8e000000''"
    by (simp_all add: defs hexPrefixed_def hexBytes.simps hexDigit_def ascii_def of_char_def)
  have texts: "sublist (ascii ''sprDMAStart uint64 = 0x8c000000'') mmuConstantsWithDMA"
      "sublist (ascii ''sprDMAEnd   uint64 = 0x8e000000'') mmuConstantsWithDMA"
    unfolding mmuConstantsWithDMA_def by (simp_all only: sublist_append sublist_order.order_refl simp_thms)
  have parts: "ascii ''sprDMAStart uint64 = '' @ ascii ''0x8c000000'' = ascii ''sprDMAStart uint64 = 0x8c000000''"
      "ascii ''sprDMAEnd   uint64 = '' @ ascii ''0x8e000000'' = ascii ''sprDMAEnd   uint64 = 0x8e000000''"
    by (simp_all add: ascii_def)
  show ?thesis unfolding hex parts using map texts
    by (simp add: defs elf2rawBase_def ramStart_def ramSize_def queueDepth_def packetBufferSize_def eventBufferSize_def
      HeaderSize_def MaxPacketPayload_def)
qed

lemma memory_layout_witness:
  "ramBase + ramBytes = dmaBase \<and> dmaBase + dmaBytes \<le> ramStart + ramSize \<and>
    ttEntry (newKernelPT (testGvisor 0 0) (newUpper (testGvisor 0 0))) 0x8c001000 = Some (0x8c001000, ramOpts)"
proof -
  have "0x8c001000 - ramBase < ramBytes + dmaBytes" by (simp add: ramBase_def ramBytes_def dmaBytes_def)
  from memory_layout [OF mapLaws_test this, of 0 0] show ?thesis by blast
qed

end
