(* ===== verification/Spec2Isabelle.thy ===== *)
theory Spec2Isabelle
  imports Vsock_Device Dhcp_Client Mmio_Scan Hello_Elf Elf2raw Platform Go_Strings Http Sentry_Boot Network Runtime
    Patch_Tools Overlay_Shims Kernel_Main
begin

text \<open>
  Verification development for the TamaGo application kernel of this repository: a bare-metal Go program
  that boots under krun, brings up gVisor's Sentry at EL0, acquires a DHCP lease for it, and serves a
  status page over VirtIO-vsock.

  \<^bold>\<open>The program.\<close> \<^verbatim>\<open>main\<close> (\<^verbatim>\<open>kernel/main.go\<close>) runs the platform probe, finds the vsock device and serves
  HTTP on it for ever. Beside the serving loop one goroutine boots the Sentry (\<^verbatim>\<open>kernel/gvisor_probe.go\<close>,
  \<^verbatim>\<open>kernel/gvisor_sentry.go\<close>), which starts another for the network (\<^verbatim>\<open>kernel/network_tamago.go\<close>); both
  publish their progress in two locked reports that the HTTP handler reads. Sentry tasks run through the
  platform backend (\<^verbatim>\<open>kernel/gvisorplatform\<close>). The image is built by the tools under \<^verbatim>\<open>tools/\<close> with the
  sources under \<^verbatim>\<open>overlays/\<close>.

  \<^bold>\<open>Conventions.\<close> A fixed-width integer is a word, a slice a list, a Go map an association list whose
  iteration order is an argument. A run that can panic or fail returns \<open>result\<close>: \<open>Inl Panic\<close>, \<open>Inl (Err e)\<close>
  or \<open>Inr x\<close>; a sequence of fallible calls over a world is a \<open>step\<close>. Code outside \<^verbatim>\<open>src/\<close> (TamaGo, go-net,
  gVisor, \<^verbatim>\<open>debug/elf\<close>, the file system, the clock, the EL0 machine) is a field of a record the definitions
  take, and what is used of its behaviour is a hypothesis (\<open>mapLaws\<close> for page tables, claimed only for the ranges
  and tables their contract covers; an advancing clock for DHCP). Go's own library is modelled for what the code uses.

  \<^bold>\<open>Theories.\<close>
  \<^item> \<open>Prelude\<close>: slices, byte orders, \<open>result\<close> and \<open>step\<close>. Locale \<open>wire_codec\<close> (interpreted on both byte orders at
    each width) carries the round trips of headers and frames; \<open>map_contract\<close> (interpreted on association
    lists) the table of connections.
  \<^item> \<open>Vsock_Protocol\<close>, \<open>Vsock_Endpoint\<close>, \<open>Vsock_Run\<close>, \<open>Vsock_Properties\<close>: \<^verbatim>\<open>kernel/vsock/protocol.go\<close>. The wire
    format, the endpoint with \<open>handle\<close>, \<open>drain\<close> and \<open>reset\<close>; the invariant \<open>endpointOk\<close> and what every operation
    does to a connection (\<open>continues\<close>, \<open>drained\<close>); runs as the step relation \<open>vsockStep\<close>, with the history
    invariant \<open>historyOk\<close>; stream integrity, connection, credit and batch bounds, what repeated drains finish,
    errors.
  \<^item> \<open>Vsock_Device\<close>: \<^verbatim>\<open>kernel/vsock/device_tamago.go\<close>. \<open>deviceInit\<close> and the rounds of \<open>Serve\<close>. Locale
    \<open>endpoint_contract\<close> is what the loop needs of an endpoint; it is interpreted on the endpoint above. \<open>roundProduces\<close>
    says what one round receives, produces, sends and does to the hardware.
  \<^item> \<open>Mmio_Scan\<close>: \<open>findVsockDevice\<close> and \<open>FindVirtioNet\<close>.
  \<^item> \<open>Dhcp_Wire\<close>, \<open>Dhcp_Client\<close>: \<^verbatim>\<open>kernel/sprnet/dhcp.go\<close>. Frames, options and checksums with their round trip
    and their freedom from panics; \<open>Acquire\<close> with its soundness and its return.
  \<^item> \<open>Platform\<close>: \<^verbatim>\<open>kernel/gvisorplatform/platform.go\<close>. The address spaces of \<^verbatim>\<open>New\<close>, \<open>MapFile\<close> refining an update of
    the translation, \<open>Switch\<close>, the smoke test.
  \<^item> \<open>Go_Strings\<close>: \<^verbatim>\<open>strings\<close>, UTF-8 and JSON; what is encoded is read back.
  \<^item> \<open>Http\<close>: the reports and \<open>handleRequest\<close>, with a reader of responses.
  \<^item> \<open>Hello_Elf\<close>, \<open>Sentry_Boot\<close>: the embedded executable, run on a model of the instructions it holds; the boot
    of the Sentry, its stages, status and releases; \<open>directClocks\<close>.
  \<^item> \<open>Network\<close>: the networking goroutine, over the scan and the DHCP client.
  \<^item> \<open>Runtime\<close>: \<^verbatim>\<open>kernel/runtime.go\<close>.
  \<^item> \<open>Elf2raw\<close>, \<open>Patch_Tools\<close>, \<open>Overlay_Shims\<close>: \<^verbatim>\<open>tools/elf2raw.go\<close>; \<^verbatim>\<open>tools/prepare_gvisor.go\<close> and
    \<^verbatim>\<open>tools/prepare_tamago.go\<close>; the overlays, of which the error table refines a map.
  \<^item> \<open>Kernel_Main\<close>: \<^verbatim>\<open>main\<close>, and what spans components: \<open>kernelStep\<close> interleaves the endpoint's steps with the
    reports of the other goroutines, and \<open>http_exchange\<close> says what a vsock peer then receives;
    \<open>memory_layout\<close> relates the runtime, the platform, the vsock queues and the patched TamaGo source.

  \<^bold>\<open>Loops.\<close> A loop over data is a recursion. The scans, the DHCP wait and the Internet probe have no bound in
  the code: they are \<open>partial_function (option)\<close>, where \<open>None\<close> is never returning, and their return is
  proved (\<open>vsock_scan\<close>, \<open>net_scan\<close>, \<open>dhcp_acquire_returns\<close>) or characterised (\<open>probe_loop_returns\<close>). \<open>Serve\<close> never
  ends: its properties hold for every number of rounds. The four exits of the smoke test and the four DHCP
  attempts are the code's own bounds.

  \<^bold>\<open>Not modelled.\<close> The ARM64 assembly (the EL0 switch, the exception vectors, PSCI), which is a parameter; the
  JavaScript front end; logging, flag parsing and the tests; methods with empty bodies; mutual exclusion
  beyond the atomicity of the locked sections, which the steps of \<open>kernelStep\<close> take as their unit.
\<close>

end
